(* ===== verification/Prelude.thy ===== *)
theory Prelude
  imports Main "HOL-Library.Word" "HOL-Library.Char_ord" "HOL-Library.List_Lexorder"
begin

unbundle bit_operations_syntax

text \<open>
  The vocabulary every component of the development shares: the C++ types the sources
  use (strings as byte strings, the fixed-width integers, exceptions), the handful of
  standard-library operations they call (\<open>substr\<close>, \<open>find\<close>, \<open>to_string\<close>,
  \<open>from_chars\<close>, the \<open>%02x\<close> conversion), the endpoints of Boost.Asio as the sources
  observe them, and the lemmas on those operations that the component theories use.

  A \<open>std::string\<close> or \<open>std::string_view\<close> is a \<^typ>\<open>string\<close>: Isabelle characters are
  8-bit, so a character is a byte.  A \<open>uint16_t\<close>, \<open>uint64_t\<close> is a word of that width.
  \<open>size_t\<close> values that are lengths of such strings are natural numbers.
\<close>

section \<open>Types\<close>

type_synonym u8 = "8 word"
type_synonym u16 = "16 word"
type_synonym u32 = "32 word"
type_synonym u64 = "64 word"

text \<open>Facts on the byte level of the wire formats, and the simplification rules that
  unfold the small C++ helpers.\<close>

named_theorems wire_simps
named_theorems cxx_simps

text \<open>The exceptions the modelled code throws, or lets escape from the libraries it calls, and
  \<open>Undefined_behaviour\<close> for the executions the language gives no meaning (a null pointer
  read as a string).\<close>

datatype cxx_exn =
    Out_of_range
  | Logic_error string
  | Runtime_error string
  | Ptree_bad_data
  | Json_parser_error
  | System_error
  | Undefined_behaviour

type_synonym 'a cxx = "cxx_exn + 'a"

text \<open>Sequencing of two computations, the second of which runs only if the first did not throw.\<close>

definition bind_exn :: "'a cxx \<Rightarrow> ('a \<Rightarrow> 'b cxx) \<Rightarrow> 'b cxx" where
  "bind_exn m f = (case m of Inl e \<Rightarrow> Inl e | Inr x \<Rightarrow> f x)"

section \<open>Standard-library operations on strings\<close>

text \<open>\<open>s.substr(pos)\<close> and \<open>s.substr(pos, n)\<close>: out of range positions throw, a count that runs
  past the end is cut.\<close>

definition substr_from :: "string \<Rightarrow> nat \<Rightarrow> string cxx" where
  "substr_from s pos = (if pos \<le> length s then Inr (drop pos s) else Inl Out_of_range)"

definition substr :: "string \<Rightarrow> nat \<Rightarrow> nat \<Rightarrow> string cxx" where
  "substr s pos n = (if pos \<le> length s then Inr (take n (drop pos s)) else Inl Out_of_range)"

text \<open>\<open>s.find(pat)\<close>: the least position at which \<open>pat\<close> occurs; \<open>None\<close> is \<open>npos\<close>.\<close>

fun find_sub :: "string \<Rightarrow> string \<Rightarrow> nat option" where
  "find_sub pat [] = (if pat = [] then Some 0 else None)"
| "find_sub pat (c # cs) =
     (if take (length pat) (c # cs) = pat then Some 0 else map_option Suc (find_sub pat cs))"

definition crlf :: string where
  "crlf = [CHR 0x0D, CHR 0x0A]"

text \<open>\<open>v[i]\<close> on a \<open>string_view\<close> is unchecked: past the end it reads whatever byte lies there.
  \<open>beyond i\<close> is that byte.\<close>

definition view_at :: "(nat \<Rightarrow> char) \<Rightarrow> string \<Rightarrow> nat \<Rightarrow> char" where
  "view_at beyond s i = (if i < length s then s ! i else beyond i)"

text \<open>The byte behind the end of a \<open>std::string\<close> is always \<open>'\0'\<close>.\<close>

definition nul_terminated :: "nat \<Rightarrow> char" where
  "nul_terminated i = CHR 0x00"

text \<open>A \<open>char\<close> where C++ promotes it to \<open>int\<close>, on the platforms whose \<open>char\<close> is signed.\<close>

definition schar :: "char \<Rightarrow> int" where
  "schar c = (if (of_char c :: int) < 128 then of_char c else of_char c - 256)"

text \<open>The conversion of a \<open>size_t\<close> to the \<open>int\<close> some functions return.\<close>

definition int_of_size :: "nat \<Rightarrow> int" where
  "int_of_size n = sint (of_nat n :: u32)"

subsection \<open>Big-endian 16-bit fields\<close>

text \<open>\<open>(uint8_t(hi) << 8) | uint8_t(lo)\<close>, and the two bytes written for a field:
  \<open>char(uint8_t(v >> 8))\<close> and \<open>char(uint8_t(v & 0xFF))\<close>.\<close>

definition be16 :: "char \<Rightarrow> char \<Rightarrow> u16" where
  "be16 hi lo = push_bit 8 (of_char hi) OR of_char lo"

definition hi_byte :: "u16 \<Rightarrow> char" where
  "hi_byte v = char_of (unat (drop_bit 8 v))"

definition lo_byte :: "u16 \<Rightarrow> char" where
  "lo_byte v = char_of (unat (v AND 0xFF))"

text \<open>The same two bytes of a \<open>size_t\<close>: the cast to \<open>uint8_t\<close> keeps the low eight bits
  (\<^const>\<open>char_of\<close> reduces modulo 256).\<close>

definition size_hi_byte :: "nat \<Rightarrow> char" where
  "size_hi_byte n = char_of (drop_bit 8 n)"

definition size_lo_byte :: "nat \<Rightarrow> char" where
  "size_lo_byte n = char_of (n AND 0xFF)"

subsection \<open>Numbers as text\<close>

definition dec_digit :: "nat \<Rightarrow> char" where
  "dec_digit n = char_of (48 + n)"

text \<open>\<open>std::to_string\<close> of an unsigned value.\<close>

fun dec_string :: "nat \<Rightarrow> string" where
  "dec_string n = (if n < 10 then [dec_digit n] else dec_string (n div 10) @ [dec_digit (n mod 10)])"

declare dec_string.simps [simp del]

definition hex_digit :: "nat \<Rightarrow> char" where
  "hex_digit n = (if n < 10 then char_of (48 + n) else char_of (87 + n))"

text \<open>\<open>printf("%02x", uint8_t(c))\<close>.\<close>

definition hex2 :: "char \<Rightarrow> string" where
  "hex2 c = [hex_digit (of_char c div 16), hex_digit (of_char c mod 16)]"

definition is_digit :: "char \<Rightarrow> bool" where
  "is_digit c \<longleftrightarrow> 48 \<le> (of_char c :: nat) \<and> (of_char c :: nat) \<le> 57"

definition digits_value :: "string \<Rightarrow> nat" where
  "digits_value ds = foldl (\<lambda>acc c. 10 * acc + (of_char c - 48)) 0 ds"

text \<open>\<open>std::from_chars\<close> into a \<open>size_t\<close> of 64 bits whose value was \<open>init\<close>: the error code, the
  value afterwards and what is left of the input behind the returned pointer.  The
  longest run of digits is consumed; an empty run is an invalid argument, a value that
  does not fit leaves the target unchanged.\<close>

datatype from_chars_ec = FC_ok | FC_invalid_argument | FC_out_of_range

definition from_chars :: "nat \<Rightarrow> string \<Rightarrow> from_chars_ec \<times> nat \<times> string" where
  "from_chars init s =
     (let ds = takeWhile is_digit s; rest = dropWhile is_digit s
      in if ds = [] then (FC_invalid_argument, init, s)
         else if digits_value ds < 2 ^ 64 then (FC_ok, digits_value ds, rest)
         else (FC_out_of_range, init, rest))"

section \<open>Ordered maps\<close>

text \<open>\<open>std::map\<close>: the key-value pairs in ascending order of the keys, each key once.  On strings
  the order is the lexicographic one on unsigned bytes.  \<open>m[k] = v\<close> is \<open>smap_put\<close>, \<open>m.find(k)\<close>
  is \<^const>\<open>map_of\<close>, \<open>m.cbegin()\<close> is the head.\<close>

fun smap_put :: "'k::linorder \<Rightarrow> 'v \<Rightarrow> ('k \<times> 'v) list \<Rightarrow> ('k \<times> 'v) list" where
  "smap_put k v [] = [(k, v)]"
| "smap_put k v ((k', v') # m) =
     (if k < k' then (k, v) # (k', v') # m
      else if k = k' then (k, v) # m
      else (k', v') # smap_put k v m)"

section \<open>Endpoints\<close>

text \<open>
  An address of Boost.Asio as the sources observe it: its family, its bytes in network
  order and the text \<open>to_string()\<close> prints for it (the printing itself is Boost's).  The
  predicates are the documented ones: unspecified is all bytes zero, loopback is
  \<open>127.0.0.0/8\<close> or \<open>::1\<close>.
\<close>

record ip_address =
  ia_is_v4 :: bool
  ia_bytes :: string
  ia_text :: string

record endpoint =
  ep_address :: ip_address
  ep_port :: u16

definition wf_address :: "ip_address \<Rightarrow> bool" where
  "wf_address a \<longleftrightarrow> length (ia_bytes a) = (if ia_is_v4 a then 4 else 16)"

definition is_unspecified :: "ip_address \<Rightarrow> bool" where
  "is_unspecified a \<longleftrightarrow> list_all (\<lambda>b. b = CHR 0x00) (ia_bytes a)"

definition is_loopback :: "ip_address \<Rightarrow> bool" where
  "is_loopback a \<longleftrightarrow>
     (if ia_is_v4 a then take 1 (ia_bytes a) = [CHR 0x7F]
      else ia_bytes a = replicate 15 (CHR 0x00) @ [CHR 0x01])"

abbreviation ep_ip :: "endpoint \<Rightarrow> string" where
  "ep_ip e \<equiv> ia_text (ep_address e)"

section \<open>Lemmas\<close>

subsection \<open>Exceptions and substrings\<close>

lemma bind_exn_simps [simp]:
  "bind_exn (Inl e) f = Inl e"
  "bind_exn (Inr x) f = f x"
  by (simp_all add: bind_exn_def)

lemma bind_exn_Inr_iff: "bind_exn m f = Inr y \<longleftrightarrow> (\<exists>x. m = Inr x \<and> f x = Inr y)"
  by (cases m) auto

lemma substr_in_range [simp]:
  "pos \<le> length s \<Longrightarrow> substr_from s pos = Inr (drop pos s)"
  "pos \<le> length s \<Longrightarrow> substr s pos n = Inr (take n (drop pos s))"
  by (simp_all add: substr_from_def substr_def)

subsection \<open>Searching\<close>

lemma find_sub_Some:
  "find_sub pat s = Some i \<Longrightarrow> i + length pat \<le> length s \<and> take (length pat) (drop i s) = pat"
proof (induction pat s arbitrary: i rule: find_sub.induct)
  case (1 pat)
  then show ?case by (simp split: if_splits)
next
  case (2 pat c cs)
  show ?case
  proof (cases "take (length pat) (c # cs) = pat")
    case True
    then have "length pat \<le> length (c # cs)"
      by (metis length_take min.cobounded1)
    with True 2 show ?thesis by simp
  next
    case False
    with 2 show ?thesis by auto
  qed
qed

lemma find_sub_bound: "find_sub pat s = Some i \<Longrightarrow> i + length pat \<le> length s"
  using find_sub_Some by blast

lemma find_sub_split:
  assumes "find_sub pat s = Some i"
  shows "s = take i s @ pat @ drop (i + length pat) s"
  using find_sub_Some [OF assms]
  by (metis append_take_drop_id drop_drop add.commute)

text \<open>Nothing before the position found is an occurrence.\<close>

lemma find_sub_first:
  "find_sub pat s = Some i \<Longrightarrow> j < i \<Longrightarrow> take (length pat) (drop j s) \<noteq> pat"
proof (induction pat s arbitrary: i j rule: find_sub.induct)
  case (1 pat)
  then show ?case by (simp split: if_splits)
next
  case (2 pat c cs)
  then show ?case by (cases j) (auto split: if_splits)
qed

lemma find_sub_None_iff:
  "pat \<noteq> [] \<Longrightarrow> find_sub pat s = None \<longleftrightarrow> (\<forall>j. take (length pat) (drop j s) \<noteq> pat)"
proof (induction pat s rule: find_sub.induct)
  case (1 pat)
  then show ?case by simp
next
  case (2 pat c cs)
  have "(\<forall>j. take (length pat) (drop j (c # cs)) \<noteq> pat) \<longleftrightarrow>
    take (length pat) (c # cs) \<noteq> pat \<and> (\<forall>j. take (length pat) (drop j cs) \<noteq> pat)"
    by (metis drop0 drop_Suc_Cons not0_implies_Suc)
  with 2 show ?case by auto
qed

lemma length_crlf [simp]: "length crlf = 2"
  by (simp add: crlf_def)

lemma crlf_prefix [simp]: "take 2 (crlf @ s) = crlf" "drop 2 (crlf @ s) = s"
  by (simp_all add: crlf_def)

text \<open>Searching for a single byte.\<close>

lemma find_sub_char_None [simp]: "find_sub [b] s = None \<longleftrightarrow> b \<notin> set s"
  by (induction s) auto

lemma find_sub_char_append:
  "b \<notin> set p \<Longrightarrow> find_sub [b] (p @ b # q) = Some (length p)"
  by (induction p) auto

text \<open>The line end behind a prefix that holds none is found at the end of the prefix.\<close>

lemma find_crlf_append:
  "find_sub crlf p = None \<Longrightarrow> find_sub crlf (p @ crlf @ q) = Some (length p)"
proof (induction p)
  case Nil
  then show ?case by (simp add: crlf_def)
next
  case (Cons c p)
  then show ?case by (cases p) (auto simp: crlf_def split: if_splits)
qed

subsection \<open>Ordered maps\<close>

lemma map_of_smap_put: "map_of (smap_put k v m) = (map_of m)(k \<mapsto> v)"
  by (induction k v m rule: smap_put.induct) (auto simp: fun_eq_iff)

lemma keys_smap_put: "fst ` set (smap_put k v m) = insert k (fst ` set m)"
  by (induction k v m rule: smap_put.induct) auto

lemma sorted_smap_put:
  "sorted_wrt (<) (map fst m) \<Longrightarrow> sorted_wrt (<) (map fst (smap_put k v m))"
proof (induction k v m rule: smap_put.induct)
  case (2 k v k' v' m)
  moreover have "set (map fst (smap_put k v m)) = insert k (set (map fst m))"
    using keys_smap_put [of k v m] by simp
  ultimately show ?case by (auto simp: not_less_iff_gr_or_eq)
qed simp

subsection \<open>Bytes and 16-bit fields\<close>

lemma of_char_less_256 [simp]: "(of_char c :: nat) < 256"
  by (metis char_of_char of_char_of mod_less_divisor zero_less_numeral)

lemma unat_of_char [simp]: "unat (of_char c :: u16) = of_char c" "unat (of_char c :: u8) = of_char c"
proof -
  have e: "(of_char c :: u16) = of_nat (of_char c)" "(of_char c :: u8) = of_nat (of_char c)"
    by (simp_all only: of_nat_of_char)
  have "(of_char c :: nat) < 65536" using of_char_less_256 [of c] by linarith
  then show "unat (of_char c :: u16) = of_char c"
    by (subst e) (simp add: unat_of_nat)
  show "unat (of_char c :: u8) = of_char c"
    by (subst e) (simp add: unat_of_nat)
qed

lemma of_char_pair_less: "256 * of_char hi + of_char lo < (65536 :: nat)"
proof -
  have "of_char hi \<le> (255 :: nat)" "of_char lo \<le> (255 :: nat)"
    using of_char_less_256 [of hi] of_char_less_256 [of lo] by linarith+
  then show ?thesis by linarith
qed

lemma be16_nat: "be16 hi lo = of_nat (256 * of_char hi + of_char lo)"
proof -
  have "(of_char lo :: u16) = take_bit 8 (of_char lo)"
    by (simp add: word_unat_eq_iff unsigned_take_bit_eq take_bit_nat_eq_self)
  then have "push_bit 8 (of_char hi :: u16) AND of_char lo = 0"
    by (metis (no_types) bit_and_iff bit_eqI bit_push_bit_iff bit_take_bit_iff bit_0_eq linorder_not_le bot_fun_def bot_bool_def)
  then have "be16 hi lo = push_bit 8 (of_char hi) + of_char lo"
    unfolding be16_def by (rule disjunctive_add_eq_or [symmetric])
  also have "\<dots> = of_nat (256 * of_char hi + of_char lo)"
    by (simp only: push_bit_eq_mult of_nat_add of_nat_mult of_nat_of_char) simp
  finally show ?thesis .
qed

lemma unat_be16 [simp]: "unat (be16 hi lo) = 256 * of_char hi + of_char lo"
proof -
  show ?thesis using of_char_pair_less [of hi lo]
    by (simp only: be16_nat unat_of_nat) simp
qed

lemma hi_byte_nat: "hi_byte v = char_of (unat v div 256)"
  by (simp add: hi_byte_def drop_bit_eq_div unat_div)

lemma lo_byte_nat: "lo_byte v = char_of (unat v)"
proof -
  have "v AND 0xFF = take_bit 8 v"
    by (simp add: take_bit_eq_mask mask_eq_exp_minus_1)
  then show ?thesis by (simp only: lo_byte_def unsigned_take_bit_eq) (simp add: take_bit_eq_mod)
qed

lemma size_bytes_nat: "size_hi_byte n = char_of (n div 256)" "size_lo_byte n = char_of n"
proof -
  show "size_hi_byte n = char_of (n div 256)" by (simp add: size_hi_byte_def drop_bit_eq_div)
  have "n AND 0xFF = take_bit 8 n" by (simp add: take_bit_eq_mask mask_eq_exp_minus_1)
  then show "size_lo_byte n = char_of n" by (simp add: size_lo_byte_def take_bit_eq_mod)
qed

lemma be16_bytes [simp]: "be16 (hi_byte v) (lo_byte v) = v"
proof -
  have "unat v < 65536" using unsigned_less [of v, where ?'a = nat] by simp
  then have "unat (be16 (hi_byte v) (lo_byte v)) = unat v"
    by (simp add: hi_byte_nat lo_byte_nat)
  then show ?thesis by (simp add: word_unat_eq_iff)
qed

lemma unat_be16_size: "n < 65536 \<Longrightarrow> unat (be16 (size_hi_byte n) (size_lo_byte n)) = n"
  by (simp add: size_bytes_nat)

lemma be16_size: "n < 65536 \<Longrightarrow> be16 (size_hi_byte n) (size_lo_byte n) = of_nat n"
  by (simp only: be16_nat size_bytes_nat of_char_of) simp

subsection \<open>Numbers as text\<close>

lemma is_digit_dec_digit [simp]: "n < 10 \<Longrightarrow> is_digit (dec_digit n)"
  by (simp add: is_digit_def dec_digit_def)

lemma digits_value_snoc: "digits_value (ds @ [c]) = 10 * digits_value ds + (of_char c - 48)"
  by (simp add: digits_value_def)

lemma dec_string_digits: "list_all is_digit (dec_string n)"
proof (induction n rule: dec_string.induct)
  case (1 n)
  then show ?case by (subst dec_string.simps) simp
qed

lemma dec_string_nonempty [simp]: "dec_string n \<noteq> []"
  by (subst dec_string.simps) simp

lemma digits_value_dec_string [simp]: "digits_value (dec_string n) = n"
proof (induction n rule: dec_string.induct)
  case (1 n)
  then show ?case
    by (subst dec_string.simps) (simp add: digits_value_snoc dec_digit_def digits_value_def)
qed

text \<open>Reading back a printed number that is followed by a non-digit, or by nothing.\<close>

lemma from_chars_dec_string:
  assumes "n < 2 ^ 64" and "rest = [] \<or> \<not> is_digit (hd rest)"
  shows "from_chars init (dec_string n @ rest) = (FC_ok, n, rest)"
proof -
  have d: "\<forall>c \<in> set (dec_string n). is_digit c"
    using dec_string_digits by (simp add: list_all_iff)
  from d assms(2) have "takeWhile is_digit (dec_string n @ rest) = dec_string n"
    by (cases rest) auto
  moreover from d assms(2) have "dropWhile is_digit (dec_string n @ rest) = rest"
    by (cases rest) auto
  ultimately show ?thesis using assms(1) by (simp add: from_chars_def)
qed

lemma from_chars_all:
  assumes "from_chars init s = (FC_ok, n, [])"
  shows "s \<noteq> [] \<and> list_all is_digit s \<and> digits_value s = n \<and> n < 2 ^ 64"
  using assms dropWhile_eq_Nil_conv[of is_digit s]
  by (auto simp: from_chars_def Let_def list_all_iff takeWhile_eq_all_conv [THEN iffD2] split: if_splits)

subsection \<open>Signed conversions\<close>

lemma sint_of_nat_small: "n < 2 ^ 31 \<Longrightarrow> sint (of_nat n :: u32) = int n"
  by (simp add: signed_of_nat signed_take_bit_int_eq_self)

lemma int_of_size_small: "n < 2 ^ 31 \<Longrightarrow> int_of_size n = int n"
  unfolding int_of_size_def by (rule sint_of_nat_small)

lemma schar_eq_iff: "0 \<le> k \<Longrightarrow> k < 128 \<Longrightarrow> schar c = k \<longleftrightarrow> (of_char c :: int) = k"
proof -
  have "(of_char c :: int) < 256"
    by (metis of_char_less_256 of_nat_of_char of_nat_less_numeral_iff)
  then show "0 \<le> k \<Longrightarrow> k < 128 \<Longrightarrow> ?thesis" by (auto simp: schar_def)
qed

subsection \<open>Counting\<close>

text \<open>Replacing one element of a list changes the number of elements with a property by at most one.\<close>

lemma length_filter_update:
  "i < length xs \<Longrightarrow>
   length (filter P (xs[i := y])) + (if P (xs ! i) then 1 else 0) =
   length (filter P xs) + (if P y then 1 else 0)"
proof (induction xs arbitrary: i)
  case (Cons x xs)
  then show ?case by (cases i) auto
qed simp

lemma filter_pos_if_nth: "i < length xs \<Longrightarrow> P (xs ! i) \<Longrightarrow> 0 < length (filter P xs)"
  by (auto simp: filter_empty_conv)

lemma list_all_update: "list_all P xs \<Longrightarrow> P y \<Longrightarrow> list_all P (xs[i := y])"
  by (auto simp: list_all_iff dest: set_update_subset_insert [THEN subsetD])

end
