(* ===== verification/Socks5_Address.thy ===== *)
theory Socks5_Address
  imports Prelude
begin

text \<open>
  \<open>src/proto/socks5address.{h,cpp}\<close>: the address field of the trojan protocol (type,
  host, port), as parsed from a request or a UDP frame and as printed for an endpoint.

  \<open>SOCKS5Address::parse\<close> indexes its \<open>string_view\<close> without bounds checks of the library, so
  the model reads bytes with \<^const>\<open>view_at\<close> and takes the bytes behind the view as an
  argument: that they never matter is a theorem, not an assumption.
\<close>

section \<open>Data\<close>

datatype AddressType = IPv4 | DOMAINNAME | IPv6

record SOCKS5Address =
  address_type :: AddressType
  address :: string
  port :: u16

definition address_type_of_byte :: "char \<Rightarrow> AddressType option" where
  "address_type_of_byte c =
     (if schar c = 1 then Some IPv4
      else if schar c = 3 then Some DOMAINNAME
      else if schar c = 4 then Some IPv6
      else None)"

section \<open>Operations\<close>

text \<open>The dotted-quad text built with \<open>to_string\<close> and the \<open>sprintf\<close> of the IPv6 branch.\<close>

definition ipv4_text :: "char \<Rightarrow> char \<Rightarrow> char \<Rightarrow> char \<Rightarrow> string" where
  "ipv4_text a b c d =
     dec_string (of_char a) @ ''.'' @ dec_string (of_char b) @ ''.'' @
     dec_string (of_char c) @ ''.'' @ dec_string (of_char d)"

fun ipv6_text :: "string \<Rightarrow> string" where
  "ipv6_text [] = []"
| "ipv6_text [a] = hex2 a"
| "ipv6_text [a, b] = hex2 a @ hex2 b"
| "ipv6_text (a # b # rest) = hex2 a @ hex2 b @ '':'' @ ipv6_text rest"

text \<open>\<open>SOCKS5Address::parse\<close>.  The object is updated in place: the result is the object
  afterwards and \<open>Some address_len\<close> where the code returns \<open>true\<close>.\<close>

definition socks5_parse ::
    "(nat \<Rightarrow> char) \<Rightarrow> SOCKS5Address \<Rightarrow> string \<Rightarrow> SOCKS5Address \<times> nat option" where
  "socks5_parse beyond self data =
     (if length data = 0 then (self, None)
      else case address_type_of_byte (data ! 0) of
        None \<Rightarrow> (self, None)
      | Some ty \<Rightarrow>
         (let self = self\<lparr>address_type := ty\<rparr>; at = view_at beyond data
          in case ty of
            IPv4 \<Rightarrow>
              (if length data > 4 + 2
               then (self\<lparr>address := ipv4_text (at 1) (at 2) (at 3) (at 4),
                          port := be16 (at 5) (at 6)\<rparr>, Some (1 + 4 + 2))
               else (self, None))
          | DOMAINNAME \<Rightarrow>
              (let domain_len = (of_char (at 1) :: nat)
               in if domain_len = 0 then (self, None)
                  else if length data > 1 + domain_len + 2
                  then (self\<lparr>address := take domain_len (drop 2 data),
                             port := be16 (at (domain_len + 2)) (at (domain_len + 3))\<rparr>,
                        Some (1 + 1 + domain_len + 2))
                  else (self, None))
          | IPv6 \<Rightarrow>
              (if length data > 16 + 2
               then (self\<lparr>address := ipv6_text (map at [1..<17]),
                          port := be16 (at 17) (at 18)\<rparr>, Some (1 + 16 + 2))
               else (self, None))))"

text \<open>\<open>SOCKS5Address::generate\<close>.\<close>

definition socks5_generate :: "endpoint \<Rightarrow> string" where
  "socks5_generate e =
     (if is_unspecified (ep_address e)
      then [CHR 0x01, CHR 0x00, CHR 0x00, CHR 0x00, CHR 0x00, CHR 0x00, CHR 0x00]
      else (if ia_is_v4 (ep_address e)
            then CHR 0x01 # take 4 (ia_bytes (ep_address e))
            else CHR 0x04 # take 16 (ia_bytes (ep_address e)))
           @ [hi_byte (ep_port e), lo_byte (ep_port e)])"

text \<open>The domain form of the address field, as \<open>TrojanRequest::generate\<close> and the domain overload
  of \<open>UDPPacket::generate\<close> write it: the length byte is the low eight bits of the length.\<close>

definition domain_field :: "string \<Rightarrow> u16 \<Rightarrow> string" where
  "domain_field name p =
     [CHR 0x03, char_of (length name)] @ name @ [hi_byte p, lo_byte p]"

section \<open>The grammar of address fields\<close>

text \<open>What the wire format promises, independently of the parser: the three shapes an address
  field has, with the address each denotes.\<close>

inductive address_field :: "SOCKS5Address \<Rightarrow> string \<Rightarrow> bool" where
  field_ipv4: "address_field \<lparr>address_type = IPv4, address = ipv4_text a b c d, port = be16 h l\<rparr>
     [CHR 0x01, a, b, c, d, h, l]"
| field_domain: "length name = of_char len \<Longrightarrow> name \<noteq> [] \<Longrightarrow>
   address_field \<lparr>address_type = DOMAINNAME, address = name, port = be16 h l\<rparr>
     ([CHR 0x03, len] @ name @ [h, l])"
| field_ipv6: "length bs = 16 \<Longrightarrow>
   address_field \<lparr>address_type = IPv6, address = ipv6_text bs, port = be16 h l\<rparr>
     (CHR 0x04 # bs @ [h, l])"

inductive_cases address_fieldE: "address_field a f"

section \<open>The parser accepts exactly the grammar\<close>

lemma schar_eq_char: "0 \<le> (of_char k :: int) \<Longrightarrow> (of_char k :: int) < 128 \<Longrightarrow> schar c = of_char k \<longleftrightarrow> c = k"
  by (simp add: schar_eq_iff)

lemma address_type_of_byte_iff [simp]:
  "address_type_of_byte c = Some IPv4 \<longleftrightarrow> c = CHR 0x01"
  "address_type_of_byte c = Some DOMAINNAME \<longleftrightarrow> c = CHR 0x03"
  "address_type_of_byte c = Some IPv6 \<longleftrightarrow> c = CHR 0x04"
  using schar_eq_char [of "CHR 0x01" c] schar_eq_char [of "CHR 0x03" c] schar_eq_char [of "CHR 0x04" c]
  by (auto simp: address_type_of_byte_def)

lemma address_type_of_byte_simps [simp]:
  "address_type_of_byte (CHR 0x01) = Some IPv4"
  "address_type_of_byte (CHR 0x03) = Some DOMAINNAME"
  "address_type_of_byte (CHR 0x04) = Some IPv6"
  by simp_all

lemma view_at_in_range [simp]: "i < length s \<Longrightarrow> view_at beyond s i = s ! i"
  by (simp add: view_at_def)

lemma map_view_at: "i + n \<le> length s \<Longrightarrow> map (view_at beyond s) [i..<i + n] = take n (drop i s)"
  by (simp add: list_eq_iff_nth_eq)

lemma split_before_port:
  assumes "k + 1 < length r"
  shows "\<exists>bs h l rest. r = bs @ h # l # rest \<and> length bs = k"
proof -
  have "drop k r = r ! k # r ! Suc k # drop (Suc (Suc k)) r"
    using assms by (simp add: Cons_nth_drop_Suc)
  then have "r = take k r @ r ! k # r ! Suc k # drop (Suc (Suc k)) r"
    by (metis append_take_drop_id)
  moreover have "length (take k r) = k" using assms by simp
  ultimately show ?thesis by blast
qed

lemma socks5_parse_complete:
  assumes "address_field a f"
  shows "socks5_parse beyond self (f @ rest) = (a, Some (length f))"
  using assms
proof cases
  case (field_ipv4 a b c d h l)
  then show ?thesis
    by (cases self) (simp add: socks5_parse_def Let_def)
next
  case (field_domain name len h l)
  moreover from field_domain have "(of_char len :: nat) \<noteq> 0" by (metis length_0_conv)
  ultimately show ?thesis
    by (cases self) (simp add: socks5_parse_def Let_def nth_append)
next
  case (field_ipv6 bs h l)
  have "map (view_at beyond (f @ rest)) [1..<1 + 16] = bs"
    using field_ipv6 by (subst map_view_at) simp_all
  with field_ipv6 show ?thesis
    by (cases self) (simp add: socks5_parse_def Let_def nth_append nth_Cons')
qed


lemma socks5_parse_has_field:
  assumes "socks5_parse beyond self data = (a, Some n)"
  shows "\<exists>a' f rest. data = f @ rest \<and> address_field a' f"
proof -
  from assms obtain c r ty where data: "data = c # r" and ty: "address_type_of_byte c = Some ty"
    by (cases data) (auto simp: socks5_parse_def split: option.splits)
  show ?thesis
  proof (cases ty)
    case IPv4
    with assms data ty have "4 + 1 < length r"
      by (auto simp: socks5_parse_def Let_def split: if_splits)
    then obtain bs h l rest where r: "r = bs @ h # l # rest" "length bs = 4"
      using split_before_port by blast
    then obtain b1 b2 b3 b4 where "bs = [b1, b2, b3, b4]"
      by (auto simp: length_Suc_conv numeral_eq_Suc)
    with r IPv4 data ty have "data = [CHR 0x01, b1, b2, b3, b4, h, l] @ rest" by simp
    then show ?thesis using field_ipv4 by blast
  next
    case DOMAINNAME
    from assms data ty DOMAINNAME obtain len r' where r: "r = len # r'"
      by (cases r) (auto simp: socks5_parse_def Let_def split: if_splits)
    with assms data ty DOMAINNAME have k: "(of_char len :: nat) \<noteq> 0" and "of_char len + 1 < length r'"
      by (auto simp: socks5_parse_def Let_def split: if_splits)
    then obtain name h l rest where r': "r' = name @ h # l # rest" "length name = of_char len"
      using split_before_port by blast
    with k have "address_field \<lparr>address_type = DOMAINNAME, address = name, port = be16 h l\<rparr>
        ([CHR 0x03, len] @ name @ [h, l])"
      by (intro field_domain) auto
    moreover from r r' data ty DOMAINNAME have "data = ([CHR 0x03, len] @ name @ [h, l]) @ rest"
      by simp
    ultimately show ?thesis by blast
  next
    case IPv6
    with assms data ty have "16 + 1 < length r"
      by (auto simp: socks5_parse_def Let_def split: if_splits)
    then obtain bs h l rest where r: "r = bs @ h # l # rest" "length bs = 16"
      using split_before_port by blast
    with IPv6 data ty have "data = (CHR 0x04 # bs @ [h, l]) @ rest" by simp
    then show ?thesis using field_ipv6 [OF r(2)] by blast
  qed
qed

lemma socks5_parse_sound:
  assumes "socks5_parse beyond self data = (a, Some n)"
  shows "\<exists>f rest. data = f @ rest \<and> address_field a f \<and> n = length f"
proof -
  from socks5_parse_has_field [OF assms] obtain a' f rest
    where f: "data = f @ rest" "address_field a' f" by blast
  then have "socks5_parse beyond self data = (a', Some (length f))"
    by (simp add: socks5_parse_complete)
  with assms f show ?thesis by auto
qed

text \<open>The parser accepts exactly the strings that begin with an address field.\<close>

lemma socks5_parse_iff:
  "socks5_parse beyond self data = (a, Some n) \<longleftrightarrow>
     (\<exists>f rest. data = f @ rest \<and> address_field a f \<and> n = length f)"
  using socks5_parse_sound socks5_parse_complete by blast

lemma address_field_length:
  assumes "address_field a f"
  shows "5 \<le> length f" "length f \<le> 259"
proof -
  have "(of_char c :: nat) \<le> 255" for c using of_char_less_256 [of c] by linarith
  with assms show "length f \<le> 259" by cases auto
  from assms show "5 \<le> length f"
  proof cases
    case (field_domain name len h l)
    then show ?thesis by (cases name) auto
  qed auto
qed

lemma socks5_parse_beyond: "socks5_parse b self data = socks5_parse b' self data"
proof (cases "\<exists>a f rest. data = f @ rest \<and> address_field a f")
  case True
  then show ?thesis by (auto simp: socks5_parse_complete)
next
  case False
  then have "snd (socks5_parse c self data) = None" for c
    by (metis not_None_eq prod.collapse socks5_parse_has_field)
  moreover have "fst (socks5_parse c self data) =
    (if data = [] then self else case address_type_of_byte (data ! 0) of None \<Rightarrow> self | Some ty \<Rightarrow> self\<lparr>address_type := ty\<rparr>)"
    if "snd (socks5_parse c self data) = None" for c
    using that by (auto simp: socks5_parse_def Let_def split: option.splits AddressType.splits if_splits)
  ultimately show ?thesis by (metis prod.collapse)
qed

lemma domain_field_is_field:
  assumes "name \<noteq> []" and "length name \<le> 255"
  shows "address_field \<lparr>address_type = DOMAINNAME, address = name, port = p\<rparr> (domain_field name p)"
  using assms field_domain [of name "char_of (length name)" "hi_byte p" "lo_byte p"]
  by (simp add: domain_field_def)

text \<open>Fields are self-delimiting: no field is a proper prefix of another, and a field denotes
  one address.\<close>

lemma address_field_unique:
  assumes "address_field a f" and "address_field a' f'" and "f @ r = f' @ r'"
  shows "a = a' \<and> f = f'"
proof -
  have "socks5_parse nul_terminated a (f @ r) = (a, Some (length f))"
    "socks5_parse nul_terminated a (f' @ r') = (a', Some (length f'))"
    using assms(1,2) by (simp_all add: socks5_parse_complete)
  with assms(3) have "a = a'" "length f = length f'" by simp_all
  with assms(3) show ?thesis by simp
qed

text \<open>The printed form of an endpoint is an address field, for every address but the
  unspecified one.\<close>

definition endpoint_field_address :: "endpoint \<Rightarrow> SOCKS5Address" where
  "endpoint_field_address e =
     (let bs = ia_bytes (ep_address e)
      in if ia_is_v4 (ep_address e)
         then \<lparr>address_type = IPv4, address = ipv4_text (bs ! 0) (bs ! 1) (bs ! 2) (bs ! 3), port = ep_port e\<rparr>
         else \<lparr>address_type = IPv6, address = ipv6_text bs, port = ep_port e\<rparr>)"

lemma socks5_generate_field:
  assumes "wf_address (ep_address e)" and "\<not> is_unspecified (ep_address e)"
  shows "address_field (endpoint_field_address e) (socks5_generate e)"
proof (cases "ia_is_v4 (ep_address e)")
  case True
  with assms obtain b0 b1 b2 b3 where "ia_bytes (ep_address e) = [b0, b1, b2, b3]"
    by (auto simp: wf_address_def length_Suc_conv numeral_eq_Suc)
  with True assms field_ipv4 [of b0 b1 b2 b3 "hi_byte (ep_port e)" "lo_byte (ep_port e)"]
  show ?thesis by (simp add: endpoint_field_address_def socks5_generate_def)
next
  case False
  with assms field_ipv6 [of "ia_bytes (ep_address e)" "hi_byte (ep_port e)" "lo_byte (ep_port e)"]
  show ?thesis by (simp add: endpoint_field_address_def socks5_generate_def wf_address_def)
qed

end
