(* ===== verification/Trojan_Request.thy ===== *)
theory Trojan_Request
  imports Socks5_Address
begin

text \<open>
  \<open>src/proto/trojanrequest.{h,cpp}\<close>: the first bytes of a trojan connection (password hash,
  line end, command, address field, line end, payload).
\<close>

section \<open>Data and operations\<close>

datatype Command = CONNECT_cmd | UDP_ASSOCIATE

record TrojanRequest =
  req_password :: string
  req_command :: Command
  req_address :: SOCKS5Address
  req_payload :: string

definition command_of_byte :: "char \<Rightarrow> Command option" where
  "command_of_byte c =
     (if schar c = 1 then Some CONNECT_cmd
      else if schar c = 3 then Some UDP_ASSOCIATE
      else None)"

definition command_byte :: "Command \<Rightarrow> char" where
  "command_byte c = (case c of CONNECT_cmd \<Rightarrow> CHR 0x01 | UDP_ASSOCIATE \<Rightarrow> CHR 0x03)"

text \<open>\<open>TrojanRequest::parse\<close>: the object afterwards and the \<open>int\<close> the code returns, -1 for a
  string that is no request.\<close>

definition trojan_parse :: "TrojanRequest \<Rightarrow> string \<Rightarrow> (TrojanRequest \<times> int) cxx" where
  "trojan_parse self data =
     (case find_sub crlf data of
        None \<Rightarrow> Inr (self, -1)
      | Some first \<Rightarrow>
         bind_exn (substr data 0 first) (\<lambda>pw.
         bind_exn (substr_from data (first + 2)) (\<lambda>pl.
           let self = self\<lparr>req_password := pw, req_payload := pl\<rparr>
           in if length pl = 0 then Inr (self, -1)
              else case command_of_byte (pl ! 0) of
                None \<Rightarrow> Inr (self, -1)
              | Some cmd \<Rightarrow>
                  bind_exn (substr_from pl 1) (\<lambda>tail.
                    let self = self\<lparr>req_command := cmd\<rparr>;
                        (addr, is_addr_valid) = socks5_parse nul_terminated (req_address self) tail;
                        self = self\<lparr>req_address := addr\<rparr>
                    in case is_addr_valid of
                      None \<Rightarrow> Inr (self, -1)
                    | Some address_len \<Rightarrow>
                       (if length pl < address_len + 3 then Inr (self, -1)
                        else bind_exn (substr pl (address_len + 1) 2) (\<lambda>sep.
                          if sep \<noteq> crlf then Inr (self, -1)
                          else bind_exn (substr_from pl (address_len + 3)) (\<lambda>rest.
                            Inr (self\<lparr>req_payload := rest\<rparr>, int_of_size (length data)))))))))"

text \<open>\<open>TrojanRequest::generate\<close>.\<close>

definition trojan_generate :: "string \<Rightarrow> string \<Rightarrow> u16 \<Rightarrow> bool \<Rightarrow> string" where
  "trojan_generate pw name p tcp =
     pw @ crlf @ [if tcp then CHR 0x01 else CHR 0x03] @ domain_field name p @ crlf"

section \<open>The grammar of requests\<close>

inductive trojan_request :: "TrojanRequest \<Rightarrow> string \<Rightarrow> bool" where
  trojan_requestI: "find_sub crlf pw = None \<Longrightarrow> address_field a f \<Longrightarrow>
     trojan_request \<lparr>req_password = pw, req_command = cmd, req_address = a, req_payload = pl\<rparr>
       (pw @ crlf @ [command_byte cmd] @ f @ crlf @ pl)"

inductive_cases trojan_requestE: "trojan_request r data"

lemma command_of_byte_iff [simp]: "command_of_byte c = Some cmd \<longleftrightarrow> c = command_byte cmd"
  using schar_eq_char [of "CHR 0x01" c] schar_eq_char [of "CHR 0x03" c]
  by (cases cmd) (auto simp: command_of_byte_def command_byte_def)

lemma command_of_command_byte [simp]: "command_of_byte (command_byte cmd) = Some cmd"
  by simp

lemma trojan_parse_complete:
  assumes "trojan_request r data"
  shows "trojan_parse self data = Inr (r, int_of_size (length data))"
  using assms
proof cases
  case (trojan_requestI pw a f cmd pl)
  have "find_sub crlf data = Some (length pw)"
    using trojan_requestI by (simp add: find_crlf_append)
  moreover have "socks5_parse nul_terminated (req_address self) (f @ crlf @ pl) = (a, Some (length f))"
    using trojan_requestI by (simp add: socks5_parse_complete)
  moreover have "drop (length pw + 2) data = command_byte cmd # f @ crlf @ pl"
    and "take (length pw) data = pw" and "length pw + 2 \<le> length data"
    using trojan_requestI by (simp_all add: crlf_def)
  moreover have "drop (length f + 3) (command_byte cmd # f @ crlf @ pl) = pl"
    by (simp add: numeral_3_eq_3)
  ultimately show ?thesis
    using trojan_requestI by (cases self) (simp add: trojan_parse_def Let_def)
qed

lemma trojan_parse_no_exn: "\<exists>r. trojan_parse self data = Inr r"
proof (cases "find_sub crlf data")
  case None
  then show ?thesis by (simp add: trojan_parse_def)
next
  case (Some first)
  then have "first + 2 \<le> length data" using find_sub_bound by (force simp: crlf_def)
  with Some show ?thesis
    by (auto simp: trojan_parse_def Let_def split: option.split prod.split)
qed

lemma find_crlf_prefix_None:
  assumes "find_sub crlf data = Some i"
  shows "find_sub crlf (take i data) = None"
proof -
  have "take 2 (drop j (take i data)) \<noteq> crlf" for j
  proof
    assume e: "take 2 (drop j (take i data)) = crlf"
    then have l: "j + 2 \<le> i"
      by (cases "j < i") (auto simp: crlf_def drop_take dest!: arg_cong [where f = length])
    then have "min 2 (i - j) = 2" by simp
    with e have "take 2 (drop j data) = crlf" by (simp add: drop_take)
    with find_sub_first [OF assms, of j] l show False by simp
  qed
  moreover have "crlf \<noteq> []" by (simp add: crlf_def)
  ultimately show ?thesis by (simp add: find_sub_None_iff)
qed

lemma trojan_parse_sound:
  assumes "trojan_parse self data = Inr (r, v)" and "v \<noteq> -1"
  shows "trojan_request r data \<and> v = int_of_size (length data)"
proof -
  from assms obtain first where first: "find_sub crlf data = Some first"
    by (auto simp: trojan_parse_def split: option.splits)
  then have le: "first + 2 \<le> length data" using find_sub_bound by (force simp: crlf_def)
  let ?pw = "take first data" and ?pl = "drop (first + 2) data"
  have data: "data = ?pw @ crlf @ ?pl"
    using find_sub_split [OF first] by (simp add: crlf_def)
  from assms first le obtain c t cmd where pl: "?pl = c # t" and cmd: "command_of_byte c = Some cmd"
    by (cases ?pl) (auto simp: trojan_parse_def Let_def split: option.splits)
  obtain a w where sp: "socks5_parse nul_terminated (req_address self) t = (a, w)" by fastforce
  from assms first le pl cmd sp obtain k where w: "w = Some k"
    and sep: "take 2 (drop k t) = crlf"
    by (auto simp: trojan_parse_def Let_def bind_exn_Inr_iff substr_def split: option.splits if_splits)
  from sp w obtain f rest where f: "t = f @ rest" "address_field a f" "k = length f"
    using socks5_parse_sound by blast
  with sep have "rest = crlf @ drop 2 rest" by (metis append_eq_conv_conj append_take_drop_id)
  then obtain q where q: "rest = crlf @ q" by blast
  from cmd have "c = command_byte cmd" by simp
  with data pl f q have d: "data = ?pw @ crlf @ [command_byte cmd] @ f @ crlf @ q" by simp
  have "find_sub crlf ?pw = None" using first by (rule find_crlf_prefix_None)
  then have "trojan_request \<lparr>req_password = ?pw, req_command = cmd, req_address = a, req_payload = q\<rparr>
      (?pw @ crlf @ [command_byte cmd] @ f @ crlf @ q)"
    using f(2) by (rule trojan_requestI)
  then have tr: "trojan_request \<lparr>req_password = ?pw, req_command = cmd, req_address = a, req_payload = q\<rparr> data"
    using d by simp
  from trojan_parse_complete [OF tr, of self] assms(1) have "r = \<lparr>req_password = ?pw, req_command = cmd, req_address = a, req_payload = q\<rparr>"
    "v = int_of_size (length data)" by simp_all
  with tr show ?thesis by simp
qed

end
