(* ===== verification/Config.thy ===== *)
theory Config
  imports Prelude
begin

text \<open>
  \<open>src/core/config.{h,cpp}\<close>: the configuration record and how it is filled from the JSON file
  or from the SIP003 environment.

  Boost's property tree and JSON reader, the hash function of OpenSSL and the process
  environment are arguments.  A tree is seen through what the code asks of it: for each
  path and type, the value \<open>get\<close> finds there (none if the path is absent or its text does
  not convert), and the children of an array or object.
\<close>

section \<open>Data\<close>

datatype RunType = SERVER | CLIENT | FORWARD | NAT

record SSLConfig =
  ssl_verify :: bool
  ssl_verify_hostname :: bool
  ssl_cert :: string
  ssl_key :: string
  ssl_key_password :: string
  ssl_cipher :: string
  ssl_cipher_tls13 :: string
  ssl_prefer_server_cipher :: bool
  ssl_sni :: string
  ssl_alpn :: string
  ssl_alpn_port_override :: "(string \<times> u16) list"
  ssl_reuse_session :: bool
  ssl_session_ticket :: bool
  ssl_session_timeout :: int
  ssl_plain_http_response :: string
  ssl_curves :: string
  ssl_dhparam :: string

record TCPConfig =
  tcp_prefer_ipv4 :: bool
  tcp_no_delay :: bool
  tcp_keep_alive :: bool
  tcp_reuse_port :: bool
  tcp_fast_open :: bool
  tcp_fast_open_qlen :: int

record MySQLConfig =
  mysql_enabled :: bool
  mysql_server_addr :: string
  mysql_server_port :: u16
  mysql_database :: string
  mysql_username :: string
  mysql_password :: string
  mysql_key :: string
  mysql_cert :: string
  mysql_ca :: string

record AbuseControlConfig =
  ac_enabled :: bool
  ac_per_ip_max_connections :: int
  ac_auth_fail_window_seconds :: int
  ac_auth_fail_max :: int
  ac_cooldown_seconds :: int
  ac_fallback_max_active :: int

record ExternalFrontConfig =
  ef_enabled :: bool
  ef_inject_test_metadata :: bool
  ef_test_trusted_front_id :: string
  ef_test_original_client_ip :: string
  ef_test_original_client_port :: u16
  ef_test_negotiated_alpn :: string
  ef_test_tls_terminated_by_front :: bool
  ef_test_metadata_verified :: bool
  ef_enable_trusted_internal_handoff_stub :: bool
  ef_enable_trusted_front_listener :: bool
  ef_trusted_front_listener_use_mtls :: bool
  ef_require_trusted_front_loopback_source :: bool
  ef_trusted_front_listener_addr :: string
  ef_trusted_front_listener_port :: u16
  ef_trusted_front_tls_cert :: string
  ef_trusted_front_tls_key :: string
  ef_trusted_front_tls_key_password :: string
  ef_trusted_front_tls_ca :: string
  ef_trusted_internal_source_name :: string
  ef_trusted_front_envelope_json :: string
  ef_trusted_internal_front_id :: string
  ef_trusted_internal_original_client_ip :: string
  ef_trusted_internal_original_client_port :: u16
  ef_trusted_internal_server_name :: string
  ef_trusted_internal_negotiated_alpn :: string
  ef_trusted_internal_tls_terminated_by_front :: bool
  ef_trusted_internal_metadata_verified :: bool

record Config =
  run_type :: RunType
  local_addr :: string
  local_port :: u16
  remote_addr :: string
  remote_port :: u16
  target_addr :: string
  target_port :: u16
  password :: "(string \<times> string) list"
  udp_timeout :: int
  threads :: int
  log_level :: int
  ssl :: SSLConfig
  tcp :: TCPConfig
  mysql :: MySQLConfig
  abuse_control :: AbuseControlConfig
  external_front :: ExternalFrontConfig

text \<open>A property tree, through the reads the code makes of it.  A child of a node has a key
  (empty in an array), its text and, where the text is one, its \<open>uint16_t\<close> value.\<close>

record pt_child =
  ch_key :: string
  ch_text :: string
  ch_u16 :: "u16 option"

record ptree =
  pt_string :: "string \<Rightarrow> string option"
  pt_int :: "string \<Rightarrow> int option"
  pt_long :: "string \<Rightarrow> int option"
  pt_u16 :: "string \<Rightarrow> u16 option"
  pt_bool :: "string \<Rightarrow> bool option"
  pt_children :: "string \<Rightarrow> pt_child list option"

definition or_default :: "'a option \<Rightarrow> 'a \<Rightarrow> 'a" where
  "or_default v d = (case v of None \<Rightarrow> d | Some x \<Rightarrow> x)"

text \<open>\<open>tree.get(path, default)\<close> at the types the code uses.\<close>

definition get_string :: "ptree \<Rightarrow> string \<Rightarrow> string \<Rightarrow> string" where
  "get_string t path d = or_default (pt_string t path) d"

definition get_int :: "ptree \<Rightarrow> string \<Rightarrow> int \<Rightarrow> int" where
  "get_int t path d = or_default (pt_int t path) d"

definition get_long :: "ptree \<Rightarrow> string \<Rightarrow> int \<Rightarrow> int" where
  "get_long t path d = or_default (pt_long t path) d"

definition get_u16 :: "ptree \<Rightarrow> string \<Rightarrow> u16 \<Rightarrow> u16" where
  "get_u16 t path d = or_default (pt_u16 t path) d"

definition get_bool :: "ptree \<Rightarrow> string \<Rightarrow> bool \<Rightarrow> bool" where
  "get_bool t path d = or_default (pt_bool t path) d"

section \<open>The password hash\<close>

text \<open>Where the calls into OpenSSL's digest can fail.\<close>

datatype evp_error = Evp_ctx_new | Evp_init | Evp_update | Evp_final

text \<open>\<open>Config::SHA224\<close>: the digest of the message in lower-case hexadecimal.\<close>

definition SHA224 :: "(string \<Rightarrow> evp_error + string) \<Rightarrow> string \<Rightarrow> string cxx" where
  "SHA224 evp message =
     (case evp message of
        Inl Evp_ctx_new \<Rightarrow> Inl (Runtime_error ''could not create hash context'')
      | Inl Evp_init \<Rightarrow> Inl (Runtime_error ''could not initialize hash context'')
      | Inl Evp_update \<Rightarrow> Inl (Runtime_error ''could not update hash'')
      | Inl Evp_final \<Rightarrow> Inl (Runtime_error ''could not output hash'')
      | Inr digest \<Rightarrow> Inr (concat (map hex2 digest)))"

section \<open>Filling the configuration\<close>

text \<open>The loops of \<open>Config::populate\<close> over the children of \<open>password\<close>, \<open>ssl.alpn\<close> and
  \<open>ssl.alpn_port_override\<close>.\<close>

fun add_passwords ::
    "(string \<Rightarrow> evp_error + string) \<Rightarrow> pt_child list \<Rightarrow> (string \<times> string) list \<Rightarrow> (string \<times> string) list cxx" where
  "add_passwords evp [] m = Inr m"
| "add_passwords evp (item # items) m =
     bind_exn (SHA224 evp (ch_text item)) (\<lambda>h.
       add_passwords evp items (smap_put h (ch_text item) m))"

fun alpn_wire :: "pt_child list \<Rightarrow> string" where
  "alpn_wire [] = []"
| "alpn_wire (item # items) = char_of (length (ch_text item)) # ch_text item @ alpn_wire items"

fun add_overrides :: "pt_child list \<Rightarrow> (string \<times> u16) list \<Rightarrow> (string \<times> u16) list cxx" where
  "add_overrides [] m = Inr m"
| "add_overrides (item # items) m =
     (case ch_u16 item of
        None \<Rightarrow> Inl Ptree_bad_data
      | Some p \<Rightarrow> add_overrides items (smap_put (ch_key item) p m))"

definition parse_run_type :: "string \<Rightarrow> RunType cxx" where
  "parse_run_type rt =
     (if rt = ''server'' then Inr SERVER
      else if rt = ''forward'' then Inr FORWARD
      else if rt = ''nat'' then Inr NAT
      else if rt = ''client'' then Inr CLIENT
      else Inl (Runtime_error ''wrong run_type in config file''))"

definition populate_ssl :: "ptree \<Rightarrow> (string \<times> u16) list \<Rightarrow> SSLConfig" where
  "populate_ssl t overrides = \<lparr>
     ssl_verify = get_bool t ''ssl.verify'' True,
     ssl_verify_hostname = get_bool t ''ssl.verify_hostname'' True,
     ssl_cert = get_string t ''ssl.cert'' '''',
     ssl_key = get_string t ''ssl.key'' '''',
     ssl_key_password = get_string t ''ssl.key_password'' '''',
     ssl_cipher = get_string t ''ssl.cipher'' '''',
     ssl_cipher_tls13 = get_string t ''ssl.cipher_tls13'' '''',
     ssl_prefer_server_cipher = get_bool t ''ssl.prefer_server_cipher'' True,
     ssl_sni = get_string t ''ssl.sni'' '''',
     ssl_alpn = (case pt_children t ''ssl.alpn'' of None \<Rightarrow> [] | Some items \<Rightarrow> alpn_wire items),
     ssl_alpn_port_override = overrides,
     ssl_reuse_session = get_bool t ''ssl.reuse_session'' True,
     ssl_session_ticket = get_bool t ''ssl.session_ticket'' False,
     ssl_session_timeout = get_long t ''ssl.session_timeout'' 600,
     ssl_plain_http_response = get_string t ''ssl.plain_http_response'' '''',
     ssl_curves = get_string t ''ssl.curves'' '''',
     ssl_dhparam = get_string t ''ssl.dhparam'' ''''\<rparr>"

definition populate_tcp :: "ptree \<Rightarrow> TCPConfig" where
  "populate_tcp t = \<lparr>
     tcp_prefer_ipv4 = get_bool t ''tcp.prefer_ipv4'' False,
     tcp_no_delay = get_bool t ''tcp.no_delay'' True,
     tcp_keep_alive = get_bool t ''tcp.keep_alive'' True,
     tcp_reuse_port = get_bool t ''tcp.reuse_port'' False,
     tcp_fast_open = get_bool t ''tcp.fast_open'' False,
     tcp_fast_open_qlen = get_int t ''tcp.fast_open_qlen'' 20\<rparr>"

definition populate_mysql :: "ptree \<Rightarrow> MySQLConfig" where
  "populate_mysql t = \<lparr>
     mysql_enabled = get_bool t ''mysql.enabled'' False,
     mysql_server_addr = get_string t ''mysql.server_addr'' ''127.0.0.1'',
     mysql_server_port = get_u16 t ''mysql.server_port'' 3306,
     mysql_database = get_string t ''mysql.database'' ''trojan'',
     mysql_username = get_string t ''mysql.username'' ''trojan'',
     mysql_password = get_string t ''mysql.password'' '''',
     mysql_key = get_string t ''mysql.key'' '''',
     mysql_cert = get_string t ''mysql.cert'' '''',
     mysql_ca = get_string t ''mysql.ca'' ''''\<rparr>"

definition populate_abuse_control :: "ptree \<Rightarrow> AbuseControlConfig" where
  "populate_abuse_control t = \<lparr>
     ac_enabled = get_bool t ''abuse_control.enabled'' True,
     ac_per_ip_max_connections = get_int t ''abuse_control.per_ip_max_connections'' 64,
     ac_auth_fail_window_seconds = get_int t ''abuse_control.auth_fail_window_seconds'' 60,
     ac_auth_fail_max = get_int t ''abuse_control.auth_fail_max'' 20,
     ac_cooldown_seconds = get_int t ''abuse_control.cooldown_seconds'' 60,
     ac_fallback_max_active = get_int t ''abuse_control.fallback_max_active'' 32\<rparr>"

text \<open>The ports of this section are read as \<open>int\<close> and stored in a \<open>uint16_t\<close>.\<close>

definition populate_external_front :: "ptree \<Rightarrow> ExternalFrontConfig" where
  "populate_external_front t = \<lparr>
     ef_enabled = get_bool t ''external_front.enabled'' False,
     ef_inject_test_metadata = get_bool t ''external_front.inject_test_metadata'' False,
     ef_test_trusted_front_id = get_string t ''external_front.test_trusted_front_id'' '''',
     ef_test_original_client_ip = get_string t ''external_front.test_original_client_ip'' '''',
     ef_test_original_client_port = of_int (get_int t ''external_front.test_original_client_port'' 0),
     ef_test_negotiated_alpn = get_string t ''external_front.test_negotiated_alpn'' '''',
     ef_test_tls_terminated_by_front = get_bool t ''external_front.test_tls_terminated_by_front'' False,
     ef_test_metadata_verified = get_bool t ''external_front.test_metadata_verified'' False,
     ef_enable_trusted_internal_handoff_stub = get_bool t ''external_front.enable_trusted_internal_handoff_stub'' False,
     ef_enable_trusted_front_listener = get_bool t ''external_front.enable_trusted_front_listener'' False,
     ef_trusted_front_listener_use_mtls = get_bool t ''external_front.trusted_front_listener_use_mtls'' False,
     ef_require_trusted_front_loopback_source = get_bool t ''external_front.require_trusted_front_loopback_source'' True,
     ef_trusted_front_listener_addr = get_string t ''external_front.trusted_front_listener_addr'' ''127.0.0.1'',
     ef_trusted_front_listener_port = of_int (get_int t ''external_front.trusted_front_listener_port'' 0),
     ef_trusted_front_tls_cert = get_string t ''external_front.trusted_front_tls_cert'' '''',
     ef_trusted_front_tls_key = get_string t ''external_front.trusted_front_tls_key'' '''',
     ef_trusted_front_tls_key_password = get_string t ''external_front.trusted_front_tls_key_password'' '''',
     ef_trusted_front_tls_ca = get_string t ''external_front.trusted_front_tls_ca'' '''',
     ef_trusted_internal_source_name = get_string t ''external_front.trusted_internal_source_name'' '''',
     ef_trusted_front_envelope_json = get_string t ''external_front.trusted_front_envelope_json'' '''',
     ef_trusted_internal_front_id = get_string t ''external_front.trusted_internal_front_id'' '''',
     ef_trusted_internal_original_client_ip = get_string t ''external_front.trusted_internal_original_client_ip'' '''',
     ef_trusted_internal_original_client_port = of_int (get_int t ''external_front.trusted_internal_original_client_port'' 0),
     ef_trusted_internal_server_name = get_string t ''external_front.trusted_internal_server_name'' '''',
     ef_trusted_internal_negotiated_alpn = get_string t ''external_front.trusted_internal_negotiated_alpn'' '''',
     ef_trusted_internal_tls_terminated_by_front = get_bool t ''external_front.trusted_internal_tls_terminated_by_front'' False,
     ef_trusted_internal_metadata_verified = get_bool t ''external_front.trusted_internal_metadata_verified'' False\<rparr>"

text \<open>\<open>Config::populate(const ptree&)\<close>: every field is assigned, so the result does not depend on
  the configuration before.\<close>

definition populate :: "(string \<Rightarrow> evp_error + string) \<Rightarrow> ptree \<Rightarrow> Config cxx" where
  "populate evp t =
     bind_exn (parse_run_type (get_string t ''run_type'' ''client'')) (\<lambda>rt.
     bind_exn (case pt_children t ''password'' of None \<Rightarrow> Inr [] | Some items \<Rightarrow> add_passwords evp items [])
       (\<lambda>pws.
     bind_exn (case pt_children t ''ssl.alpn_port_override'' of None \<Rightarrow> Inr [] | Some items \<Rightarrow> add_overrides items [])
       (\<lambda>overrides.
       Inr \<lparr>
         run_type = rt,
         local_addr = get_string t ''local_addr'' '''',
         local_port = get_u16 t ''local_port'' 0,
         remote_addr = get_string t ''remote_addr'' '''',
         remote_port = get_u16 t ''remote_port'' 0,
         target_addr = get_string t ''target_addr'' '''',
         target_port = get_u16 t ''target_port'' 0,
         password = pws,
         udp_timeout = get_int t ''udp_timeout'' 60,
         threads = get_int t ''threads'' 0,
         log_level = get_int t ''log_level'' 1,
         ssl = populate_ssl t overrides,
         tcp = populate_tcp t,
         mysql = populate_mysql t,
         abuse_control = populate_abuse_control t,
         external_front = populate_external_front t\<rparr>)))"

text \<open>\<open>Config::populate(const string&)\<close> and \<open>Config::load\<close>, over the JSON reader: \<open>None\<close> is the
  exception it throws on malformed input (or on a file it cannot read).\<close>

definition populate_json ::
    "(string \<Rightarrow> ptree option) \<Rightarrow> (string \<Rightarrow> evp_error + string) \<Rightarrow> string \<Rightarrow> Config cxx" where
  "populate_json read_json evp text =
     (case read_json text of None \<Rightarrow> Inl Json_parser_error | Some t \<Rightarrow> populate evp t)"

definition load ::
    "(string \<Rightarrow> ptree option) \<Rightarrow> (string \<Rightarrow> evp_error + string) \<Rightarrow> string \<Rightarrow> Config cxx" where
  "load read_json_file evp filename =
     (case read_json_file filename of None \<Rightarrow> Inl Json_parser_error | Some t \<Rightarrow> populate evp t)"

subsection \<open>SIP003\<close>

text \<open>\<open>atoi\<close>: leading white space, an optional sign, digits; no digits give 0.\<close>

definition is_space :: "char \<Rightarrow> bool" where
  "is_space c \<longleftrightarrow> c = CHR '' '' \<or> 9 \<le> (of_char c :: nat) \<and> (of_char c :: nat) \<le> 13"

definition atoi :: "string \<Rightarrow> int" where
  "atoi s =
     (let s = dropWhile is_space s
      in case s of
        [] \<Rightarrow> 0
      | c # cs \<Rightarrow>
         (if c = CHR ''-'' then - int (digits_value (takeWhile is_digit cs))
          else if c = CHR ''+'' then int (digits_value (takeWhile is_digit cs))
          else int (digits_value (takeWhile is_digit s))))"

text \<open>\<open>Config::sip003\<close>: \<open>None\<close> is \<open>false\<close> (no plugin environment).  The other variables are used
  without a null check.\<close>

definition env_string :: "(string \<Rightarrow> string option) \<Rightarrow> string \<Rightarrow> string cxx" where
  "env_string getenv name = (case getenv name of None \<Rightarrow> Inl Undefined_behaviour | Some v \<Rightarrow> Inr v)"

definition env_port :: "(string \<Rightarrow> string option) \<Rightarrow> string \<Rightarrow> u16 cxx" where
  "env_port getenv name =
     (case getenv name of None \<Rightarrow> Inl Undefined_behaviour | Some v \<Rightarrow> Inr (of_int (atoi v)))"

definition sip003 ::
    "(string \<Rightarrow> string option) \<Rightarrow> (string \<Rightarrow> ptree option) \<Rightarrow> (string \<Rightarrow> evp_error + string) \<Rightarrow> Config option cxx" where
  "sip003 getenv read_json evp =
     (case getenv ''SS_PLUGIN_OPTIONS'' of
        None \<Rightarrow> Inr None
      | Some json \<Rightarrow>
         bind_exn (populate_json read_json evp json) (\<lambda>c.
           case run_type c of
             SERVER \<Rightarrow>
               bind_exn (env_string getenv ''SS_REMOTE_HOST'') (\<lambda>h.
               bind_exn (env_port getenv ''SS_REMOTE_PORT'') (\<lambda>p.
                 Inr (Some (c\<lparr>local_addr := h, local_port := p\<rparr>))))
           | CLIENT \<Rightarrow> Inl (Runtime_error ''SIP003 with wrong run_type'')
           | NAT \<Rightarrow> Inl (Runtime_error ''SIP003 with wrong run_type'')
           | FORWARD \<Rightarrow>
               bind_exn (env_string getenv ''SS_REMOTE_HOST'') (\<lambda>rh.
               bind_exn (env_port getenv ''SS_REMOTE_PORT'') (\<lambda>rp.
               bind_exn (env_string getenv ''SS_LOCAL_HOST'') (\<lambda>lh.
               bind_exn (env_port getenv ''SS_LOCAL_PORT'') (\<lambda>lp.
                 Inr (Some (c\<lparr>remote_addr := rh, remote_port := rp,
                              local_addr := lh, local_port := lp\<rparr>))))))))"

end
