(* ===== verification/External_Front.thy ===== *)
theory External_Front
  imports Config
begin

text \<open>
  \<open>src/core/session_types.h\<close> and the external-front components that only look at metadata:
  the trust policy, the handoff contract, the contract on the input of a trusted internal
  handoff, the handoff builder and the configured metadata provider.

  A handoff is a bundle of claims about a client whose TLS session some other process has
  terminated.  The lemmas say which claims are accepted and that a handoff built from an
  accepted input is one the trust policy trusts.
\<close>

section \<open>Session types\<close>

datatype InboundMode = EmbeddedTls | ExternalFront | QuicIngress | Unknown_mode

record SessionContext =
  source_ip :: string
  source_port :: u16
  selected_alpn :: string
  tls_handshake_completed :: bool
  inbound_mode :: InboundMode

definition default_context :: SessionContext where
  "default_context = \<lparr>source_ip = '''', source_port = 0, selected_alpn = '''',
     tls_handshake_completed = False, inbound_mode = Unknown_mode\<rparr>"

record ConnectTarget =
  ct_host :: string
  ct_port :: u16
  ct_is_fallback :: bool

record SessionGateInput =
  gi_context :: SessionContext
  gi_initial_data :: string

record ExternalFrontContext =
  trusted_front_id :: string
  original_client_ip :: string
  original_client_port :: u16
  server_name :: string
  negotiated_alpn :: string
  ingress_mode :: string
  tls_terminated_by_front :: bool
  metadata_verified :: bool

datatype ExternalFrontHandoffSourceKind = Unknown_source | TestInjected | TrustedInternalHandoff

record ExternalFrontHandoff =
  source_kind :: ExternalFrontHandoffSourceKind
  ho_source_name :: string
  ho_context :: "ExternalFrontContext option"

definition has_context :: "ExternalFrontHandoff \<Rightarrow> bool" where
  "has_context h \<longleftrightarrow> ho_context h \<noteq> None"

datatype RelayMode = StartTcpForward | StartUdpForward | RejectAndClose

record RelayExecutionPlan =
  rp_mode :: RelayMode
  rp_target :: ConnectTarget
  initial_outbound_payload :: string
  log_message :: string
  log_as_warning :: bool
  requires_fallback_slot :: bool

section \<open>The trust policy\<close>

datatype ExternalFrontValidationStatus =
    Trusted
  | MissingTrustedFrontId
  | MissingOriginalClientIdentity
  | MissingVerifiedTlsTermination

fun external_front_validation_status_name :: "ExternalFrontValidationStatus \<Rightarrow> string" where
  "external_front_validation_status_name Trusted = ''trusted''"
| "external_front_validation_status_name MissingTrustedFrontId = ''missing_trusted_front_id''"
| "external_front_validation_status_name MissingOriginalClientIdentity = ''missing_original_client_identity''"
| "external_front_validation_status_name MissingVerifiedTlsTermination = ''missing_verified_tls_termination''"

definition requires_verified_tls_termination :: bool where
  "requires_verified_tls_termination = True"

definition requires_original_client_identity :: bool where
  "requires_original_client_identity = True"

definition requires_trusted_front_id :: bool where
  "requires_trusted_front_id = True"

definition validate :: "ExternalFrontContext \<Rightarrow> ExternalFrontValidationStatus" where
  "validate fc =
     (if requires_trusted_front_id \<and> trusted_front_id fc = [] then MissingTrustedFrontId
      else if requires_original_client_identity \<and> original_client_ip fc = [] then MissingOriginalClientIdentity
      else if requires_verified_tls_termination \<and> (\<not> metadata_verified fc \<or> \<not> tls_terminated_by_front fc)
      then MissingVerifiedTlsTermination
      else Trusted)"

definition is_trusted :: "ExternalFrontContext \<Rightarrow> bool" where
  "is_trusted fc \<longleftrightarrow> validate fc = Trusted"

section \<open>The handoff contract\<close>

fun external_front_handoff_source_kind_name :: "ExternalFrontHandoffSourceKind \<Rightarrow> string" where
  "external_front_handoff_source_kind_name Unknown_source = ''unknown_handoff_source''"
| "external_front_handoff_source_kind_name TestInjected = ''test_injected_handoff''"
| "external_front_handoff_source_kind_name TrustedInternalHandoff = ''trusted_internal_handoff''"

datatype ExternalFrontHandoffContractStatus =
    AcceptedTestInjected
  | AcceptedTrustedInternal
  | RejectedMissingContext
  | RejectedUnknownSource

fun external_front_handoff_contract_status_name :: "ExternalFrontHandoffContractStatus \<Rightarrow> string" where
  "external_front_handoff_contract_status_name AcceptedTestInjected = ''accepted_test_injected_handoff''"
| "external_front_handoff_contract_status_name AcceptedTrustedInternal = ''accepted_trusted_internal_handoff''"
| "external_front_handoff_contract_status_name RejectedMissingContext = ''rejected_missing_handoff_context''"
| "external_front_handoff_contract_status_name RejectedUnknownSource = ''rejected_unknown_handoff_source''"

record ExternalFrontHandoffContractDecision =
  hc_status :: ExternalFrontHandoffContractStatus
  hc_reason :: string

definition contract_decision :: "ExternalFrontHandoffContractStatus \<Rightarrow> ExternalFrontHandoffContractDecision" where
  "contract_decision st = \<lparr>hc_status = st, hc_reason = external_front_handoff_contract_status_name st\<rparr>"

definition contract_accepted :: "ExternalFrontHandoffContractDecision \<Rightarrow> bool" where
  "contract_accepted d \<longleftrightarrow> hc_status d = AcceptedTestInjected \<or> hc_status d = AcceptedTrustedInternal"

definition evaluate_handoff_contract :: "ExternalFrontHandoff \<Rightarrow> ExternalFrontHandoffContractDecision" where
  "evaluate_handoff_contract h =
     (if \<not> has_context h then contract_decision RejectedMissingContext
      else case source_kind h of
        TestInjected \<Rightarrow> contract_decision AcceptedTestInjected
      | TrustedInternalHandoff \<Rightarrow> contract_decision AcceptedTrustedInternal
      | Unknown_source \<Rightarrow> contract_decision RejectedUnknownSource)"

section \<open>The input of a trusted internal handoff\<close>

record TrustedInternalHandoffInput =
  in_source_name :: string
  in_trusted_front_id :: string
  in_original_client_ip :: string
  in_original_client_port :: u16
  in_server_name :: string
  in_negotiated_alpn :: string
  in_tls_terminated_by_front :: bool
  in_metadata_verified :: bool

datatype TrustedInternalHandoffInputStatus =
    InputAccepted
  | RejectedMissingSourceName
  | RejectedMissingTrustedFrontId
  | RejectedMissingOriginalClientIdentity
  | RejectedMissingVerifiedTlsTermination

fun trusted_internal_handoff_input_status_name :: "TrustedInternalHandoffInputStatus \<Rightarrow> string" where
  "trusted_internal_handoff_input_status_name InputAccepted = ''accepted_trusted_internal_handoff_input''"
| "trusted_internal_handoff_input_status_name RejectedMissingSourceName =
     ''rejected_missing_trusted_internal_source_name''"
| "trusted_internal_handoff_input_status_name RejectedMissingTrustedFrontId =
     ''rejected_missing_trusted_internal_front_id''"
| "trusted_internal_handoff_input_status_name RejectedMissingOriginalClientIdentity =
     ''rejected_missing_trusted_internal_client_identity''"
| "trusted_internal_handoff_input_status_name RejectedMissingVerifiedTlsTermination =
     ''rejected_missing_trusted_internal_verified_tls_termination''"

record TrustedInternalHandoffInputDecision =
  id_status :: TrustedInternalHandoffInputStatus
  id_reason :: string

definition input_decision :: "TrustedInternalHandoffInputStatus \<Rightarrow> TrustedInternalHandoffInputDecision" where
  "input_decision st = \<lparr>id_status = st, id_reason = trusted_internal_handoff_input_status_name st\<rparr>"

definition input_accepted :: "TrustedInternalHandoffInputDecision \<Rightarrow> bool" where
  "input_accepted d \<longleftrightarrow> id_status d = InputAccepted"

definition evaluate_input_contract :: "TrustedInternalHandoffInput \<Rightarrow> TrustedInternalHandoffInputDecision" where
  "evaluate_input_contract i =
     (if in_source_name i = [] then input_decision RejectedMissingSourceName
      else if in_trusted_front_id i = [] then input_decision RejectedMissingTrustedFrontId
      else if in_original_client_ip i = [] then input_decision RejectedMissingOriginalClientIdentity
      else if \<not> in_metadata_verified i \<or> \<not> in_tls_terminated_by_front i
      then input_decision RejectedMissingVerifiedTlsTermination
      else input_decision InputAccepted)"

section \<open>The metadata provider\<close>

datatype MetadataDecision = Inactive | ActiveNoMetadata | ActiveWithMetadata

record InjectionResult =
  ir_decision :: MetadataDecision
  ir_mode :: string
  ir_context :: "ExternalFrontContext option"

text \<open>\<open>evaluate_injection\<close> of the abstract class, over its three virtual methods.\<close>

definition evaluate_injection ::
    "('p \<Rightarrow> bool) \<Rightarrow> ('p \<Rightarrow> string) \<Rightarrow> ('p \<Rightarrow> ExternalFrontContext option) \<Rightarrow> 'p \<Rightarrow> InjectionResult" where
  "evaluate_injection active injection_mode_name maybe_build_context p =
     (if \<not> active p
      then \<lparr>ir_decision = Inactive, ir_mode = injection_mode_name p, ir_context = None\<rparr>
      else case maybe_build_context p of
        None \<Rightarrow> \<lparr>ir_decision = ActiveNoMetadata, ir_mode = injection_mode_name p, ir_context = None\<rparr>
      | Some c \<Rightarrow> \<lparr>ir_decision = ActiveWithMetadata, ir_mode = injection_mode_name p, ir_context = Some c\<rparr>)"

definition metadata_active :: "ExternalFrontConfig \<Rightarrow> bool" where
  "metadata_active ef \<longleftrightarrow> ef_enabled ef \<and> ef_inject_test_metadata ef"

definition metadata_injection_mode_name :: "ExternalFrontConfig \<Rightarrow> string" where
  "metadata_injection_mode_name ef = ''test_injected_external_front''"

definition metadata_maybe_build_context :: "ExternalFrontConfig \<Rightarrow> ExternalFrontContext option" where
  "metadata_maybe_build_context ef =
     (if \<not> metadata_active ef then None
      else Some \<lparr>
        trusted_front_id = ef_test_trusted_front_id ef,
        original_client_ip = ef_test_original_client_ip ef,
        original_client_port = ef_test_original_client_port ef,
        server_name = '''',
        negotiated_alpn = ef_test_negotiated_alpn ef,
        ingress_mode = metadata_injection_mode_name ef,
        tls_terminated_by_front = ef_test_tls_terminated_by_front ef,
        metadata_verified = ef_test_metadata_verified ef\<rparr>)"

section \<open>The handoff builder\<close>

record ExternalFrontHandoffBuildResult =
  br_handoff :: "ExternalFrontHandoff option"
  br_reason :: string

definition built :: "ExternalFrontHandoffBuildResult \<Rightarrow> bool" where
  "built r \<longleftrightarrow> br_handoff r \<noteq> None"

definition build_test_injected_handoff :: "InjectionResult \<Rightarrow> ExternalFrontHandoffBuildResult" where
  "build_test_injected_handoff injection =
     (if ir_context injection = None
      then \<lparr>br_handoff = None, br_reason = ''rejected_missing_test_injected_context''\<rparr>
      else \<lparr>br_handoff = Some \<lparr>source_kind = TestInjected, ho_source_name = ir_mode injection,
                               ho_context = ir_context injection\<rparr>,
            br_reason = ''built_test_injected_handoff''\<rparr>)"

definition build_trusted_internal_handoff :: "TrustedInternalHandoffInput \<Rightarrow> ExternalFrontHandoffBuildResult" where
  "build_trusted_internal_handoff i =
     (let decision = evaluate_input_contract i
      in if \<not> input_accepted decision
         then \<lparr>br_handoff = None, br_reason = id_reason decision\<rparr>
         else \<lparr>br_handoff = Some \<lparr>
                 source_kind = TrustedInternalHandoff,
                 ho_source_name = in_source_name i,
                 ho_context = Some \<lparr>
                   trusted_front_id = in_trusted_front_id i,
                   original_client_ip = in_original_client_ip i,
                   original_client_port = in_original_client_port i,
                   server_name = in_server_name i,
                   negotiated_alpn = in_negotiated_alpn i,
                   ingress_mode = ''trusted_internal_handoff'',
                   tls_terminated_by_front = in_tls_terminated_by_front i,
                   metadata_verified = in_metadata_verified i\<rparr>\<rparr>,
               br_reason = id_reason decision\<rparr>)"

section \<open>Lemmas\<close>

lemmas trust_defs = requires_trusted_front_id_def requires_original_client_identity_def
  requires_verified_tls_termination_def

lemma is_trusted_iff:
  "is_trusted fc \<longleftrightarrow> trusted_front_id fc \<noteq> [] \<and> original_client_ip fc \<noteq> [] \<and>
     metadata_verified fc \<and> tls_terminated_by_front fc"
  by (simp add: is_trusted_def validate_def trust_defs)

lemma input_accepted_iff:
  "input_accepted (evaluate_input_contract i) \<longleftrightarrow>
     in_source_name i \<noteq> [] \<and> in_trusted_front_id i \<noteq> [] \<and> in_original_client_ip i \<noteq> [] \<and>
     in_metadata_verified i \<and> in_tls_terminated_by_front i"
  by (simp add: evaluate_input_contract_def input_accepted_def input_decision_def)

lemma contract_accepted_iff:
  "contract_accepted (evaluate_handoff_contract h) \<longleftrightarrow> has_context h \<and> source_kind h \<noteq> Unknown_source"
  by (simp add: evaluate_handoff_contract_def contract_accepted_def contract_decision_def
      split: ExternalFrontHandoffSourceKind.split)

text \<open>A source of handoffs that can be relied on: whatever it hands off has a context the trust
  policy trusts and a kind the contract accepts.\<close>

locale trusted_source =
  fixes produce :: "'a \<Rightarrow> ExternalFrontHandoff option"
  assumes produced_context: "produce x = Some h \<Longrightarrow> \<exists>fc. ho_context h = Some fc \<and> is_trusted fc"
    and produced_kind: "produce x = Some h \<Longrightarrow> source_kind h \<noteq> Unknown_source"
begin

lemma produced_accepted: "produce x = Some h \<Longrightarrow> contract_accepted (evaluate_handoff_contract h)"
  using produced_context produced_kind by (force simp: contract_accepted_iff has_context_def)

lemma produced_trusted: "produce x = Some h \<Longrightarrow> ho_context h = Some fc \<Longrightarrow> is_trusted fc"
  using produced_context by force

end

lemma built_trusted_internal_iff:
  "built (build_trusted_internal_handoff i) \<longleftrightarrow> input_accepted (evaluate_input_contract i)"
  by (simp add: built_def build_trusted_internal_handoff_def Let_def)

interpretation internal_builder: trusted_source "\<lambda>i. br_handoff (build_trusted_internal_handoff i)"
  by unfold_locales
     (auto simp: build_trusted_internal_handoff_def Let_def is_trusted_iff input_accepted_iff split: if_splits)

text \<open>A provider whose contexts exist exactly while it is active never reports an active state
  without metadata.\<close>

locale metadata_provider =
  fixes active :: "'p \<Rightarrow> bool"
    and injection_mode_name :: "'p \<Rightarrow> string"
    and maybe_build_context :: "'p \<Rightarrow> ExternalFrontContext option"
  assumes build_iff_active: "maybe_build_context p \<noteq> None \<longleftrightarrow> active p"
begin

lemma injection_decision:
  "ir_decision (evaluate_injection active injection_mode_name maybe_build_context p) =
     (if active p then ActiveWithMetadata else Inactive)"
  using build_iff_active [of p] by (auto simp: evaluate_injection_def split: option.split)

lemma injection_builds_iff:
  "built (build_test_injected_handoff (evaluate_injection active injection_mode_name maybe_build_context p))
     \<longleftrightarrow> active p"
  using build_iff_active [of p]
  by (auto simp: evaluate_injection_def build_test_injected_handoff_def built_def split: option.split)

end

interpretation config_metadata: metadata_provider
  metadata_active metadata_injection_mode_name metadata_maybe_build_context
  by unfold_locales (simp add: metadata_maybe_build_context_def)

end
