(* ===== verification/Trusted_Front.thy ===== *)
theory Trusted_Front
  imports External_Front
begin

text \<open>
  The components behind the trusted-front listener and the configured handoff stub:
  \<open>src/core/trusted_front_envelope.{h,cpp}\<close>, \<open>trusted_front_ingress.{h,cpp}\<close>,
  \<open>trusted_front_admission_policy.{h,cpp}\<close> and \<open>config_trusted_internal_handoff_source_stub.{h,cpp}\<close>.

  A trusted front opens its connection with a line holding the decimal length of a JSON
  envelope, the envelope and the first bytes of the client.  Boost's JSON reader is the
  argument \<open>read_json\<close> (\<open>None\<close>: it threw).
\<close>

section \<open>The envelope\<close>

datatype TrustedFrontEnvelopeParseStatus = EnvelopeParsed | RejectedInvalidJson | EnvelopeRejected

fun trusted_front_envelope_parse_status_name :: "TrustedFrontEnvelopeParseStatus \<Rightarrow> string" where
  "trusted_front_envelope_parse_status_name EnvelopeParsed = ''parsed_trusted_front_envelope''"
| "trusted_front_envelope_parse_status_name RejectedInvalidJson = ''rejected_invalid_trusted_front_envelope_json''"
| "trusted_front_envelope_parse_status_name EnvelopeRejected = ''rejected_invalid_trusted_front_envelope''"

record TrustedFrontEnvelopeParseResult =
  er_status :: TrustedFrontEnvelopeParseStatus
  er_reason :: string
  er_input :: "TrustedInternalHandoffInput option"

definition envelope_parsed :: "TrustedFrontEnvelopeParseResult \<Rightarrow> bool" where
  "envelope_parsed r \<longleftrightarrow> er_status r = EnvelopeParsed \<and> er_input r \<noteq> None"

definition envelope_input :: "ptree \<Rightarrow> TrustedInternalHandoffInput" where
  "envelope_input tree = \<lparr>
     in_source_name = get_string tree ''source_name'' '''',
     in_trusted_front_id = get_string tree ''trusted_front_id'' '''',
     in_original_client_ip = get_string tree ''original_client_ip'' '''',
     in_original_client_port = of_int (get_int tree ''original_client_port'' 0),
     in_server_name = get_string tree ''server_name'' '''',
     in_negotiated_alpn = get_string tree ''negotiated_alpn'' '''',
     in_tls_terminated_by_front = get_bool tree ''tls_terminated_by_front'' False,
     in_metadata_verified = get_bool tree ''metadata_verified'' False\<rparr>"

definition parse_json :: "(string \<Rightarrow> ptree option) \<Rightarrow> string \<Rightarrow> TrustedFrontEnvelopeParseResult" where
  "parse_json read_json payload =
     (case read_json payload of
        None \<Rightarrow> \<lparr>er_status = RejectedInvalidJson,
                 er_reason = trusted_front_envelope_parse_status_name RejectedInvalidJson, er_input = None\<rparr>
      | Some tree \<Rightarrow>
         (let inp = envelope_input tree; decision = evaluate_input_contract inp
          in if \<not> input_accepted decision
             then \<lparr>er_status = EnvelopeRejected, er_reason = id_reason decision, er_input = None\<rparr>
             else \<lparr>er_status = EnvelopeParsed,
                   er_reason = trusted_front_envelope_parse_status_name EnvelopeParsed, er_input = Some inp\<rparr>))"

section \<open>The ingress frame\<close>

datatype TrustedFrontIngressParseStatus =
    IngressParsed
  | RejectedIncompleteFrame
  | RejectedInvalidLength
  | RejectedInvalidEnvelope
  | RejectedMissingPayload

fun trusted_front_ingress_parse_status_name :: "TrustedFrontIngressParseStatus \<Rightarrow> string" where
  "trusted_front_ingress_parse_status_name IngressParsed = ''parsed_trusted_front_ingress''"
| "trusted_front_ingress_parse_status_name RejectedIncompleteFrame = ''rejected_incomplete_trusted_front_ingress_frame''"
| "trusted_front_ingress_parse_status_name RejectedInvalidLength = ''rejected_invalid_trusted_front_ingress_length''"
| "trusted_front_ingress_parse_status_name RejectedInvalidEnvelope = ''rejected_invalid_trusted_front_ingress_envelope''"
| "trusted_front_ingress_parse_status_name RejectedMissingPayload = ''rejected_missing_trusted_front_downstream_payload''"

record TrustedFrontIngressParseResult =
  ig_status :: TrustedFrontIngressParseStatus
  ig_reason :: string
  ig_handoff :: "ExternalFrontHandoff option"
  downstream_payload :: string

definition ingress_parsed :: "TrustedFrontIngressParseResult \<Rightarrow> bool" where
  "ingress_parsed r \<longleftrightarrow> ig_status r = IngressParsed \<and> ig_handoff r \<noteq> None"

definition ingress_rejected :: "TrustedFrontIngressParseStatus \<Rightarrow> TrustedFrontIngressParseResult" where
  "ingress_rejected st = \<lparr>ig_status = st, ig_reason = trusted_front_ingress_parse_status_name st,
     ig_handoff = None, downstream_payload = ''''\<rparr>"

definition newline :: char where
  "newline = CHR 0x0A"

definition parse_ingress :: "(string \<Rightarrow> ptree option) \<Rightarrow> string \<Rightarrow> TrustedFrontIngressParseResult" where
  "parse_ingress read_json payload =
     (case find_sub [newline] payload of
        None \<Rightarrow> ingress_rejected RejectedIncompleteFrame
      | Some nl \<Rightarrow>
         (case from_chars 0 (take nl payload) of (ec, envelope_length, unread) \<Rightarrow>
            if ec \<noteq> FC_ok \<or> unread \<noteq> [] then ingress_rejected RejectedInvalidLength
            else
              (let remaining = drop (nl + 1) payload
               in if length remaining < envelope_length then ingress_rejected RejectedIncompleteFrame
                  else
                    (let envelope_payload = take envelope_length remaining;
                         downstream = drop envelope_length remaining
                     in if downstream = [] then ingress_rejected RejectedMissingPayload
                        else
                          (let envelope_result = parse_json read_json envelope_payload
                           in if \<not> envelope_parsed envelope_result
                              then (ingress_rejected RejectedInvalidEnvelope)\<lparr>ig_reason := er_reason envelope_result\<rparr>
                              else
                                (let build_result = build_trusted_internal_handoff (the (er_input envelope_result))
                                 in if \<not> built build_result
                                    then (ingress_rejected RejectedInvalidEnvelope)\<lparr>ig_reason := br_reason build_result\<rparr>
                                    else \<lparr>ig_status = IngressParsed,
                                          ig_reason = trusted_front_ingress_parse_status_name IngressParsed,
                                          ig_handoff = br_handoff build_result,
                                          downstream_payload = downstream\<rparr>))))))"

section \<open>The admission policy of the trusted listener\<close>

datatype TrustedFrontAdmissionStatus =
    AllowedLoopbackSource
  | AllowedUnrestrictedSource
  | RejectedNonLoopbackSource

fun trusted_front_admission_status_name :: "TrustedFrontAdmissionStatus \<Rightarrow> string" where
  "trusted_front_admission_status_name AllowedLoopbackSource = ''allowed_loopback_trusted_front_source''"
| "trusted_front_admission_status_name AllowedUnrestrictedSource = ''allowed_unrestricted_trusted_front_source''"
| "trusted_front_admission_status_name RejectedNonLoopbackSource = ''rejected_non_loopback_trusted_front_source''"

record TrustedFrontAdmissionDecision =
  ad_status :: TrustedFrontAdmissionStatus
  ad_reason :: string

definition admission_decision :: "TrustedFrontAdmissionStatus \<Rightarrow> TrustedFrontAdmissionDecision" where
  "admission_decision st = \<lparr>ad_status = st, ad_reason = trusted_front_admission_status_name st\<rparr>"

definition admission_allowed :: "TrustedFrontAdmissionDecision \<Rightarrow> bool" where
  "admission_allowed d \<longleftrightarrow> ad_status d = AllowedLoopbackSource \<or> ad_status d = AllowedUnrestrictedSource"

definition evaluate_trusted_front_admission :: "ExternalFrontConfig \<Rightarrow> endpoint \<Rightarrow> TrustedFrontAdmissionDecision" where
  "evaluate_trusted_front_admission ef ep =
     (if \<not> ef_require_trusted_front_loopback_source ef then admission_decision AllowedUnrestrictedSource
      else if is_loopback (ep_address ep) then admission_decision AllowedLoopbackSource
      else admission_decision RejectedNonLoopbackSource)"

section \<open>The configured handoff source\<close>

datatype StubDecision = StubInactive | ActiveWithoutInput | ActiveWithInput

record StubEvaluationResult =
  st_decision :: StubDecision
  st_source_name :: string
  st_reason :: string
  st_input :: "TrustedInternalHandoffInput option"

definition stub_active :: "ExternalFrontConfig \<Rightarrow> bool" where
  "stub_active ef \<longleftrightarrow> ef_enabled ef \<and> ef_enable_trusted_internal_handoff_stub ef"

definition stub_maybe_build_input ::
    "(string \<Rightarrow> ptree option) \<Rightarrow> ExternalFrontConfig \<Rightarrow> TrustedInternalHandoffInput option" where
  "stub_maybe_build_input read_json ef =
     (if \<not> stub_active ef then None
      else if ef_trusted_front_envelope_json ef \<noteq> []
      then (let r = parse_json read_json (ef_trusted_front_envelope_json ef)
            in if envelope_parsed r then er_input r else None)
      else Some \<lparr>
        in_source_name = ef_trusted_internal_source_name ef,
        in_trusted_front_id = ef_trusted_internal_front_id ef,
        in_original_client_ip = ef_trusted_internal_original_client_ip ef,
        in_original_client_port = ef_trusted_internal_original_client_port ef,
        in_server_name = ef_trusted_internal_server_name ef,
        in_negotiated_alpn = ef_trusted_internal_negotiated_alpn ef,
        in_tls_terminated_by_front = ef_trusted_internal_tls_terminated_by_front ef,
        in_metadata_verified = ef_trusted_internal_metadata_verified ef\<rparr>)"

definition stub_evaluate :: "(string \<Rightarrow> ptree option) \<Rightarrow> ExternalFrontConfig \<Rightarrow> StubEvaluationResult" where
  "stub_evaluate read_json ef =
     (if \<not> stub_active ef
      then \<lparr>st_decision = StubInactive, st_source_name = ef_trusted_internal_source_name ef,
            st_reason = ''trusted_internal_source_inactive'', st_input = None\<rparr>
      else if ef_trusted_front_envelope_json ef \<noteq> []
      then (let r = parse_json read_json (ef_trusted_front_envelope_json ef)
            in if \<not> envelope_parsed r
               then \<lparr>st_decision = ActiveWithoutInput, st_source_name = ef_trusted_internal_source_name ef,
                     st_reason = er_reason r, st_input = None\<rparr>
               else \<lparr>st_decision = ActiveWithInput, st_source_name = in_source_name (the (er_input r)),
                     st_reason = er_reason r, st_input = er_input r\<rparr>)
      else case stub_maybe_build_input read_json ef of
        None \<Rightarrow> \<lparr>st_decision = ActiveWithoutInput, st_source_name = ef_trusted_internal_source_name ef,
                 st_reason = ''missing_trusted_internal_stub_input'', st_input = None\<rparr>
      | Some inp \<Rightarrow> \<lparr>st_decision = ActiveWithInput, st_source_name = ef_trusted_internal_source_name ef,
                    st_reason = ''built_trusted_internal_stub_input'', st_input = Some inp\<rparr>)"

section \<open>Lemmas\<close>

lemma envelope_parsed_iff:
  "envelope_parsed (parse_json rj p) \<longleftrightarrow>
     (\<exists>tree. rj p = Some tree \<and> input_accepted (evaluate_input_contract (envelope_input tree)))"
  by (auto simp: parse_json_def envelope_parsed_def Let_def split: option.split)

lemma envelope_parsed_input:
  "envelope_parsed (parse_json rj p) \<Longrightarrow> rj p = Some tree \<Longrightarrow> er_input (parse_json rj p) = Some (envelope_input tree)"
  by (auto simp: parse_json_def envelope_parsed_def Let_def split: if_splits)

text \<open>The frame a trusted front sends, with the length in any decimal notation the parser reads.\<close>

definition ingress_frame :: "string \<Rightarrow> string \<Rightarrow> string \<Rightarrow> string" where
  "ingress_frame digits env downstream = digits @ newline # env @ downstream"

definition length_line :: "string \<Rightarrow> nat \<Rightarrow> bool" where
  "length_line digits n \<longleftrightarrow> digits \<noteq> [] \<and> list_all is_digit digits \<and> digits_value digits = n \<and> n < 2 ^ 64"

lemma newline_not_digit [simp]: "\<not> is_digit newline"
  by (simp add: newline_def is_digit_def)

lemma find_newline: "newline \<notin> set ds \<Longrightarrow> find_sub [newline] (ds @ newline # rest) = Some (length ds)"
  by (induction ds) auto

lemma find_newline_None: "find_sub [newline] p = None \<longleftrightarrow> newline \<notin> set p"
  by (induction p) (auto split: option.splits)

lemma find_newline_Some:
  "find_sub [newline] p = Some nl \<Longrightarrow> \<exists>rest. p = take nl p @ newline # rest \<and> newline \<notin> set (take nl p) \<and> nl < length p"
proof (induction p arbitrary: nl)
  case (Cons c p)
  then show ?case by (auto split: if_splits option.splits) 
qed simp

lemma length_line_no_newline: "length_line ds n \<Longrightarrow> newline \<notin> set ds"
  by (auto simp: length_line_def list_all_iff)

lemma length_line_from_chars: "length_line ds n \<longleftrightarrow> from_chars 0 ds = (FC_ok, n, [])"
proof
  assume "length_line ds n"
  then show "from_chars 0 ds = (FC_ok, n, [])"
    by (simp add: length_line_def from_chars_def Let_def list_all_iff takeWhile_eq_all_conv [THEN iffD2])
next
  assume "from_chars 0 ds = (FC_ok, n, [])"
  then show "length_line ds n" using from_chars_all [of 0 ds n] by (simp add: length_line_def)
qed

lemma length_line_dec: "n < 2 ^ 64 \<Longrightarrow> length_line (dec_string n) n"
  using from_chars_dec_string [of n "[]" 0] by (simp add: length_line_from_chars)

text \<open>The parser behind a complete length line.\<close>

definition ingress_handoff :: "(string \<Rightarrow> ptree option) \<Rightarrow> string \<Rightarrow> ExternalFrontHandoff option" where
  "ingress_handoff rj env =
     (if envelope_parsed (parse_json rj env)
      then br_handoff (build_trusted_internal_handoff (the (er_input (parse_json rj env)))) else None)"

lemma envelope_parsed_builds:
  assumes "envelope_parsed (parse_json rj env)"
  shows "built (build_trusted_internal_handoff (the (er_input (parse_json rj env))))"
  using assms envelope_parsed_input [OF assms] by (auto simp: envelope_parsed_iff built_trusted_internal_iff)

lemma ingress_handoff_None_iff: "ingress_handoff rj env = None \<longleftrightarrow> \<not> envelope_parsed (parse_json rj env)"
  using envelope_parsed_builds [of rj env] by (auto simp: ingress_handoff_def built_def)

lemma parse_ingress_line:
  assumes "length_line ds n"
  shows "parse_ingress rj (ds @ newline # rest) =
    (if length rest < n then ingress_rejected RejectedIncompleteFrame
     else if length rest = n then ingress_rejected RejectedMissingPayload
     else case ingress_handoff rj (take n rest) of
        None \<Rightarrow> (ingress_rejected RejectedInvalidEnvelope)\<lparr>ig_reason := er_reason (parse_json rj (take n rest))\<rparr>
      | Some h \<Rightarrow> \<lparr>ig_status = IngressParsed,
                  ig_reason = trusted_front_ingress_parse_status_name IngressParsed,
                  ig_handoff = Some h, downstream_payload = drop n rest\<rparr>)"
  using assms find_newline [OF length_line_no_newline [OF assms], of rest]
    envelope_parsed_builds [of rj "take n rest"]
  by (auto simp: parse_ingress_def Let_def length_line_from_chars ingress_handoff_def built_def)

lemma parse_ingress_bad_line:
  assumes "newline \<notin> set ds" and "\<nexists>n. length_line ds n"
  shows "parse_ingress rj (ds @ newline # rest) = ingress_rejected RejectedInvalidLength"
  using assms find_newline [OF assms(1), of rest]
  by (auto simp: parse_ingress_def length_line_from_chars split: prod.split)

lemma parse_ingress_no_line: "newline \<notin> set p \<Longrightarrow> parse_ingress rj p = ingress_rejected RejectedIncompleteFrame"
  by (simp add: parse_ingress_def find_newline_None [THEN iffD2])

text \<open>Every input is of one of the three kinds the lemmas above cover.\<close>

lemma ingress_cases:
  obtains (no_line) "newline \<notin> set p"
  | (bad_line) ds rest where "p = ds @ newline # rest" "newline \<notin> set ds" "\<nexists>n. length_line ds n"
  | (line) ds n rest where "p = ds @ newline # rest" "length_line ds n"
proof (cases "newline \<in> set p")
  case True
  then obtain ds rest where "p = ds @ newline # rest" "newline \<notin> set ds"
    by (meson split_list_first)
  then show ?thesis using bad_line line by blast
qed (rule no_line)

lemma parse_ingress_complete:
  assumes "length_line ds (length env)" and "downstream \<noteq> []" and "ingress_handoff rj env = Some h"
  shows "parse_ingress rj (ingress_frame ds env downstream) =
    \<lparr>ig_status = IngressParsed, ig_reason = trusted_front_ingress_parse_status_name IngressParsed,
     ig_handoff = Some h, downstream_payload = downstream\<rparr>"
  using assms by (simp add: ingress_frame_def parse_ingress_line)

lemma parse_ingress_sound:
  assumes "ingress_parsed (parse_ingress rj p)"
  shows "\<exists>ds env h. p = ingress_frame ds env (downstream_payload (parse_ingress rj p)) \<and>
    length_line ds (length env) \<and> downstream_payload (parse_ingress rj p) \<noteq> [] \<and>
    ingress_handoff rj env = Some h \<and> ig_handoff (parse_ingress rj p) = Some h"
proof (cases rule: ingress_cases [of p])
  case no_line
  with assms show ?thesis by (simp add: parse_ingress_no_line ingress_parsed_def ingress_rejected_def)
next
  case (bad_line ds rest)
  with assms show ?thesis by (simp add: parse_ingress_bad_line ingress_parsed_def ingress_rejected_def)
next
  case (line ds n rest)
  note eq = parse_ingress_line [OF line(2), of rj rest, folded line(1)]
  from assms have n: "n < length rest"
    by (auto simp: eq ingress_parsed_def ingress_rejected_def split: if_splits)
  with assms obtain h where h: "ingress_handoff rj (take n rest) = Some h"
    by (auto simp: eq ingress_parsed_def ingress_rejected_def split: option.splits)
  have "p = ingress_frame ds (take n rest) (drop n rest)" "length_line ds (length (take n rest))"
    using line n by (simp_all add: ingress_frame_def)
  then show ?thesis using h n eq by (intro exI [of _ ds] exI [of _ "take n rest"] exI [of _ h]) simp
qed

lemma parse_ingress_handoff_parsed:
  assumes "ig_handoff (parse_ingress rj p) = Some h"
  shows "ingress_parsed (parse_ingress rj p)"
proof (cases rule: ingress_cases [of p])
  case no_line
  with assms show ?thesis by (simp add: parse_ingress_no_line ingress_rejected_def)
next
  case (bad_line ds rest)
  with assms show ?thesis by (simp add: parse_ingress_bad_line ingress_rejected_def)
next
  case (line ds n rest)
  note eq = parse_ingress_line [OF line(2), of rj rest, folded line(1)]
  from assms show ?thesis
    by (auto simp: eq ingress_parsed_def ingress_rejected_def split: if_splits option.splits)
qed

text \<open>What the listener accepts is a handoff the trust policy trusts.\<close>

interpretation ingress_source: trusted_source "\<lambda>p. ig_handoff (parse_ingress rj p)" for rj
proof unfold_locales
  fix p h
  assume h: "ig_handoff (parse_ingress rj p) = Some h"
  then have "ingress_parsed (parse_ingress rj p)" by (rule parse_ingress_handoff_parsed)
  from parse_ingress_sound [OF this] h obtain i where "br_handoff (build_trusted_internal_handoff i) = Some h"
    by (auto simp: ingress_handoff_def split: if_splits)
  then show "\<exists>fc. ho_context h = Some fc \<and> is_trusted fc" and "source_kind h \<noteq> Unknown_source"
    by (rule internal_builder.produced_context, rule internal_builder.produced_kind)
qed

text \<open>More bytes never change an accepted frame: they are appended to what follows it.  A frame that
  is not complete yet is reported as such at every length but one.\<close>

lemma parse_ingress_append:
  assumes "ingress_parsed (parse_ingress rj p)"
  shows "parse_ingress rj (p @ q) =
    (parse_ingress rj p)\<lparr>downstream_payload := downstream_payload (parse_ingress rj p) @ q\<rparr>"
proof -
  from parse_ingress_sound [OF assms] obtain ds env h where
    p: "p = ingress_frame ds env (downstream_payload (parse_ingress rj p))" and
    ok: "length_line ds (length env)" "downstream_payload (parse_ingress rj p) \<noteq> []" "ingress_handoff rj env = Some h"
    by blast
  let ?d = "downstream_payload (parse_ingress rj p)"
  have "p @ q = ingress_frame ds env (?d @ q)" using p unfolding ingress_frame_def by (metis append.assoc append_Cons)
  then have "parse_ingress rj (p @ q) = parse_ingress rj (ingress_frame ds env (?d @ q))" by simp
  also have "\<dots> = (parse_ingress rj (ingress_frame ds env ?d))\<lparr>downstream_payload := ?d @ q\<rparr>"
    using ok by (simp add: parse_ingress_complete)
  also have "parse_ingress rj (ingress_frame ds env ?d) = parse_ingress rj p" using p by simp
  finally show ?thesis .
qed

lemma parse_ingress_prefix:
  assumes "length_line ds (length env)" and "k < length ds + 1 + length env"
  shows "parse_ingress rj (take k (ingress_frame ds env downstream)) = ingress_rejected RejectedIncompleteFrame"
proof (cases "k \<le> length ds")
  case True
  then have "newline \<notin> set (take k (ingress_frame ds env downstream))"
    using length_line_no_newline [OF assms(1)] by (auto simp: ingress_frame_def dest: in_set_takeD)
  then show ?thesis by (rule parse_ingress_no_line)
next
  case False
  then have "take k (ingress_frame ds env downstream) = ds @ newline # take (k - length ds - 1) (env @ downstream)"
    by (simp add: ingress_frame_def take_Cons')
  moreover have "length (take (k - length ds - 1) (env @ downstream)) < length env"
    using False assms(2) by simp
  ultimately show ?thesis by (simp only: parse_ingress_line [OF assms(1)] if_True)
qed

lemma parse_ingress_boundary:
  assumes "length_line ds (length env)"
  shows "parse_ingress rj (take (length ds + 1 + length env) (ingress_frame ds env downstream)) =
    ingress_rejected RejectedMissingPayload"
  using assms parse_ingress_line [OF assms, of rj env] by (simp add: ingress_frame_def take_Cons')

section \<open>The configured source\<close>

lemma stub_evaluate_input: "st_input (stub_evaluate rj ef) = stub_maybe_build_input rj ef"
  by (auto simp: stub_evaluate_def stub_maybe_build_input_def Let_def split: option.split)

end
