(* ===== verification/Session_Gate.thy ===== *)
theory Session_Gate
  imports Trojan_Request Trusted_Front
begin

text \<open>
  The decision the server takes on the first bytes of a connection: \<open>src/core/session_gate\<close>,
  the two inbounds that feed it (\<open>embedded_tls_edge\<close>, \<open>embedded_tls_inbound\<close>,
  \<open>external_front_inbound\<close>), \<open>server_ingress_selector\<close> and the plan
  \<open>relay_executor\<close> makes of the decision, with the endpoint choice of
  \<open>outbound_dialer\<close>.

  The external authenticator is an argument: absent, or the answer it gives for a password
  hash.  The ALPN protocol OpenSSL selected is an argument too.
\<close>

section \<open>The gate\<close>

datatype Path = AUTHENTICATED_TCP | AUTHENTICATED_UDP | FALLBACK

record SessionDecision =
  sd_path :: Path
  valid_trojan_request :: bool
  authenticated :: bool
  used_external_authenticator :: bool
  sd_request :: TrojanRequest
  sd_target :: ConnectTarget
  outbound_payload :: string
  auth_record_password :: string

text \<open>\<open>TrojanRequest()\<close>: a value-initialised object.  Its enumerations hold 0, which names no
  enumerator; no result depends on them.\<close>

definition blank_request :: TrojanRequest where
  "blank_request = \<lparr>req_password = '''', req_command = CONNECT_cmd,
     req_address = \<lparr>address_type = IPv4, address = '''', port = 0\<rparr>, req_payload = ''''\<rparr>"

definition gate_evaluate :: "Config \<Rightarrow> (string \<Rightarrow> bool) option \<Rightarrow> SessionGateInput \<Rightarrow> SessionDecision cxx" where
  "gate_evaluate cfg auth input =
     bind_exn (trojan_parse blank_request (gi_initial_data input)) (\<lambda>(request, parsed).
       let valid = (parsed \<noteq> -1);
           by_config = (valid \<and> map_of (password cfg) (req_password request) \<noteq> None);
           by_auth = (valid \<and> \<not> by_config \<and>
             (case auth of None \<Rightarrow> False | Some check \<Rightarrow> check (req_password request)));
           result = \<lparr>sd_path = FALLBACK, valid_trojan_request = valid,
             authenticated = (by_config \<or> by_auth), used_external_authenticator = by_auth,
             sd_request = request, sd_target = \<lparr>ct_host = '''', ct_port = 0, ct_is_fallback = False\<rparr>,
             outbound_payload = '''',
             auth_record_password = (if by_auth then req_password request else '''')\<rparr>
       in if valid_trojan_request result \<and> authenticated result
          then Inr (result\<lparr>
            sd_target := \<lparr>ct_host = address (req_address request), ct_port = port (req_address request),
                          ct_is_fallback = False\<rparr>,
            outbound_payload := req_payload request,
            sd_path := (if req_command request = UDP_ASSOCIATE then AUTHENTICATED_UDP else AUTHENTICATED_TCP)\<rparr>)
          else Inr (result\<lparr>
            sd_target := \<lparr>ct_host = remote_addr cfg,
              ct_port =
                (if selected_alpn (gi_context input) \<noteq> []
                 then (case map_of (ssl_alpn_port_override (ssl cfg)) (selected_alpn (gi_context input)) of
                         None \<Rightarrow> remote_port cfg
                       | Some p \<Rightarrow> p)
                 else remote_port cfg),
              ct_is_fallback = True\<rparr>,
            outbound_payload := gi_initial_data input,
            sd_path := FALLBACK\<rparr>))"

section \<open>The inbounds\<close>

text \<open>\<open>EmbeddedTlsEdgeContextBuilder\<close> and \<open>EmbeddedTlsInbound\<close>; \<open>alpn\<close> is what
  \<open>SSL_get0_alpn_selected\<close> yields for the connection (a null pointer is \<open>None\<close>).\<close>

definition tls_build_context :: "endpoint \<Rightarrow> string option \<Rightarrow> SessionContext" where
  "tls_build_context ep alpn = default_context\<lparr>
     source_ip := ep_ip ep,
     source_port := ep_port ep,
     tls_handshake_completed := True,
     inbound_mode := EmbeddedTls,
     selected_alpn := (case alpn of None \<Rightarrow> '''' | Some a \<Rightarrow> a)\<rparr>"

definition tls_build_gate_input :: "endpoint \<Rightarrow> string option \<Rightarrow> string \<Rightarrow> SessionGateInput" where
  "tls_build_gate_input ep alpn data = \<lparr>gi_context = tls_build_context ep alpn, gi_initial_data = data\<rparr>"

definition tls_evaluate_initial_data ::
    "Config \<Rightarrow> (string \<Rightarrow> bool) option \<Rightarrow> endpoint \<Rightarrow> string option \<Rightarrow> string \<Rightarrow> SessionDecision cxx" where
  "tls_evaluate_initial_data cfg auth ep alpn data = gate_evaluate cfg auth (tls_build_gate_input ep alpn data)"

text \<open>\<open>ExternalFrontInbound\<close>.\<close>

definition should_apply_client_identity :: "ExternalFrontValidationStatus \<Rightarrow> bool" where
  "should_apply_client_identity v \<longleftrightarrow> v = Trusted"

definition should_apply_transport_context :: "ExternalFrontValidationStatus \<Rightarrow> bool" where
  "should_apply_transport_context v \<longleftrightarrow> v = Trusted"

definition front_build_context :: "ExternalFrontContext \<Rightarrow> SessionContext" where
  "front_build_context fc =
     (let context = default_context\<lparr>inbound_mode := ExternalFront\<rparr>;
          v = validate fc;
          context = (if should_apply_client_identity v
                     then context\<lparr>source_ip := original_client_ip fc, source_port := original_client_port fc\<rparr>
                     else context)
      in if should_apply_transport_context v
         then context\<lparr>selected_alpn := negotiated_alpn fc, tls_handshake_completed := True\<rparr>
         else context)"

definition front_build_gate_input :: "ExternalFrontContext \<Rightarrow> string \<Rightarrow> SessionGateInput" where
  "front_build_gate_input fc data = \<lparr>gi_context = front_build_context fc, gi_initial_data = data\<rparr>"

text \<open>The selector always builds the inbound with a gate, so the null check of
  \<open>evaluate_initial_data\<close> cannot fire there; \<open>gate\<close> is \<open>None\<close> for the default-constructed one.\<close>

definition front_evaluate_initial_data ::
    "(SessionGateInput \<Rightarrow> SessionDecision cxx) option \<Rightarrow> ExternalFrontContext \<Rightarrow> string \<Rightarrow> SessionDecision cxx" where
  "front_evaluate_initial_data gate fc data =
     (case gate of
        None \<Rightarrow> Inl (Logic_error ''ExternalFrontInbound requires configured SessionGate'')
      | Some g \<Rightarrow> g (front_build_gate_input fc data))"

section \<open>The ingress selector\<close>

datatype ObservationStatus =
    EmbeddedTlsDefault
  | ExternalFrontDisabled
  | ExternalFrontTrusted
  | ExternalFrontRejected

record Observation =
  ob_status :: ObservationStatus
  ob_reason :: string

record Selection =
  sel_mode :: InboundMode
  sel_front_context :: "ExternalFrontContext option"

definition observe_default :: Observation where
  "observe_default = \<lparr>ob_status = EmbeddedTlsDefault, ob_reason = ''embedded_tls_default''\<rparr>"

definition observe_external_front :: "Config \<Rightarrow> ExternalFrontContext \<Rightarrow> Observation" where
  "observe_external_front cfg fc =
     (if \<not> ef_enabled (external_front cfg)
      then \<lparr>ob_status = ExternalFrontDisabled, ob_reason = ''external_front_disabled''\<rparr>
      else if validate fc \<noteq> Trusted
      then \<lparr>ob_status = ExternalFrontRejected, ob_reason = external_front_validation_status_name (validate fc)\<rparr>
      else \<lparr>ob_status = ExternalFrontTrusted, ob_reason = external_front_validation_status_name (validate fc)\<rparr>)"

definition select_default :: Selection where
  "select_default = \<lparr>sel_mode = EmbeddedTls, sel_front_context = None\<rparr>"

definition select_external_front :: "Config \<Rightarrow> ExternalFrontContext \<Rightarrow> Selection" where
  "select_external_front cfg fc =
     (if ob_status (observe_external_front cfg fc) \<noteq> ExternalFrontTrusted then select_default
      else \<lparr>sel_mode = ExternalFront, sel_front_context = Some fc\<rparr>)"

definition selector_evaluate ::
    "Config \<Rightarrow> (string \<Rightarrow> bool) option \<Rightarrow> Selection \<Rightarrow> endpoint \<Rightarrow> string option \<Rightarrow> string \<Rightarrow> SessionDecision cxx" where
  "selector_evaluate cfg auth sel ep alpn data =
     (if sel_mode sel = ExternalFront
      then (case sel_front_context sel of
              None \<Rightarrow> Inl (Logic_error ''external front selection requires external front context'')
            | Some fc \<Rightarrow> front_evaluate_initial_data (Some (gate_evaluate cfg auth)) fc data)
      else tls_evaluate_initial_data cfg auth ep alpn data)"

section \<open>The relay plan\<close>

definition build_execution_plan :: "SessionDecision \<Rightarrow> RelayExecutionPlan" where
  "build_execution_plan d =
     (let plan = \<lparr>rp_mode = RejectAndClose, rp_target = sd_target d,
                  initial_outbound_payload = outbound_payload d, log_message = '''',
                  log_as_warning = False, requires_fallback_slot = False\<rparr>;
          requested = address (req_address (sd_request d)) @ '':'' @
                      dec_string (unat (port (req_address (sd_request d))))
      in if sd_path d = AUTHENTICATED_UDP
         then plan\<lparr>rp_mode := StartUdpForward, log_message := ''requested UDP associate to '' @ requested\<rparr>
         else if sd_path d = AUTHENTICATED_TCP
         then plan\<lparr>rp_mode := StartTcpForward, log_message := ''requested connection to '' @ requested\<rparr>
         else plan\<lparr>rp_mode := StartTcpForward,
                   log_message := ''not trojan request, connecting to '' @ ct_host (sd_target d) @ '':'' @
                                  dec_string (unat (ct_port (sd_target d))),
                   log_as_warning := True, requires_fallback_slot := True\<rparr>)"

text \<open>The iterator both \<open>OutboundDialer::resolve_tcp\<close> and \<open>ServerSession::choose_udp_target_endpoint\<close>
  pick: the first result, or the first IPv4 one if that is preferred and there is one.\<close>

fun first_v4 :: "endpoint list \<Rightarrow> endpoint option" where
  "first_v4 [] = None"
| "first_v4 (e # es) = (if ia_is_v4 (ep_address e) then Some e else first_v4 es)"

definition choose_endpoint :: "Config \<Rightarrow> endpoint list \<Rightarrow> endpoint option" where
  "choose_endpoint cfg results =
     (case results of
        [] \<Rightarrow> None
      | e # es \<Rightarrow>
         if tcp_prefer_ipv4 (tcp cfg)
         then (case first_v4 results of None \<Rightarrow> Some e | Some v \<Rightarrow> Some v)
         else Some e)"

section \<open>Lemmas\<close>

text \<open>Who may use the proxy: the holders of a configured password and those the authenticator
  vouches for.\<close>

definition authorised :: "Config \<Rightarrow> (string \<Rightarrow> bool) option \<Rightarrow> string \<Rightarrow> bool" where
  "authorised cfg auth pw \<longleftrightarrow> map_of (password cfg) pw \<noteq> None \<or> (\<exists>check. auth = Some check \<and> check pw)"

definition fallback_port :: "Config \<Rightarrow> string \<Rightarrow> u16" where
  "fallback_port cfg alpn =
     (case map_of (ssl_alpn_port_override (ssl cfg)) alpn of
        Some p \<Rightarrow> if alpn = [] then remote_port cfg else p
      | None \<Rightarrow> remote_port cfg)"

definition fallback_target :: "Config \<Rightarrow> string \<Rightarrow> ConnectTarget" where
  "fallback_target cfg alpn =
     \<lparr>ct_host = remote_addr cfg, ct_port = fallback_port cfg alpn, ct_is_fallback = True\<rparr>"

definition request_target :: "TrojanRequest \<Rightarrow> ConnectTarget" where
  "request_target r =
     \<lparr>ct_host = address (req_address r), ct_port = port (req_address r), ct_is_fallback = False\<rparr>"

lemma gate_total: "\<exists>d. gate_evaluate cfg auth input = Inr d"
  using trojan_parse_no_exn [of blank_request "gi_initial_data input"]
  by (auto simp: gate_evaluate_def Let_def split: prod.split)

lemma request_parses:
  assumes "trojan_request r data" and "length data < 2 ^ 31"
  shows "\<exists>v. trojan_parse blank_request data = Inr (r, v) \<and> v \<noteq> -1"
  using trojan_parse_complete [OF assms(1), of blank_request] int_of_size_small [OF assms(2)] by simp

lemma non_request_parses:
  assumes "\<nexists>r. trojan_request r data"
  shows "\<exists>r. trojan_parse blank_request data = Inr (r, -1)"
proof -
  obtain r v where "trojan_parse blank_request data = Inr (r, v)"
    using trojan_parse_no_exn [of blank_request data] by force
  with trojan_parse_sound [of blank_request data r v] assms show ?thesis by auto
qed

lemma gate_accepts:
  assumes "trojan_request r (gi_initial_data input)" and "length (gi_initial_data input) < 2 ^ 31"
    and "authorised cfg auth (req_password r)"
  shows "\<exists>d. gate_evaluate cfg auth input = Inr d \<and> valid_trojan_request d \<and> authenticated d \<and>
    sd_request d = r \<and>
    sd_path d = (case req_command r of UDP_ASSOCIATE \<Rightarrow> AUTHENTICATED_UDP | CONNECT_cmd \<Rightarrow> AUTHENTICATED_TCP) \<and>
    sd_target d = request_target r \<and> outbound_payload d = req_payload r \<and>
    used_external_authenticator d = (map_of (password cfg) (req_password r) = None) \<and>
    auth_record_password d = (if map_of (password cfg) (req_password r) = None then req_password r else '''')"
  using request_parses [OF assms(1,2)] assms(3)
  by (auto simp: gate_evaluate_def Let_def authorised_def request_target_def split: Command.split)

lemma gate_falls_back:
  assumes "\<forall>r. trojan_request r (gi_initial_data input) \<longrightarrow> \<not> authorised cfg auth (req_password r)"
    and "length (gi_initial_data input) < 2 ^ 31"
  shows "\<exists>d. gate_evaluate cfg auth input = Inr d \<and> sd_path d = FALLBACK \<and> \<not> authenticated d \<and>
    valid_trojan_request d = (\<exists>r. trojan_request r (gi_initial_data input)) \<and>
    sd_target d = fallback_target cfg (selected_alpn (gi_context input)) \<and>
    outbound_payload d = gi_initial_data input \<and> auth_record_password d = ''''"
proof (cases "\<exists>r. trojan_request r (gi_initial_data input)")
  case True
  then obtain r where r: "trojan_request r (gi_initial_data input)" by blast
  with assms(1) have "\<not> authorised cfg auth (req_password r)" by blast
  with request_parses [OF r assms(2)] r show ?thesis
    by (auto simp: gate_evaluate_def Let_def authorised_def fallback_target_def fallback_port_def
        split: option.splits)
next
  case False
  with non_request_parses [of "gi_initial_data input"] show ?thesis
    by (auto simp: gate_evaluate_def Let_def fallback_target_def fallback_port_def split: option.split)
qed

lemma gate_path_fallback_iff:
  assumes "gate_evaluate cfg auth input = Inr d" and "length (gi_initial_data input) < 2 ^ 31"
  shows "sd_path d \<noteq> FALLBACK \<longleftrightarrow>
    (\<exists>r. trojan_request r (gi_initial_data input) \<and> authorised cfg auth (req_password r))"
  using assms gate_accepts [of _ input cfg auth] gate_falls_back [of input cfg auth]
  by (fastforce split: Command.splits)

lemma trojan_request_unique:
  assumes "trojan_request r data" and "trojan_request r' data"
  shows "r = r'"
  using trojan_parse_complete [OF assms(1), of blank_request]
    trojan_parse_complete [OF assms(2), of blank_request] by simp

text \<open>The selector takes the external-front path exactly for trusted metadata in an enabled
  configuration, and then never throws.\<close>

lemma select_external_front_iff:
  "sel_mode (select_external_front cfg fc) = ExternalFront \<longleftrightarrow> ef_enabled (external_front cfg) \<and> is_trusted fc"
  by (auto simp: select_external_front_def observe_external_front_def select_default_def is_trusted_def)

lemma select_external_front_context:
  "sel_mode (select_external_front cfg fc) = ExternalFront \<Longrightarrow>
   sel_front_context (select_external_front cfg fc) = Some fc"
  by (auto simp: select_external_front_def select_default_def split: if_splits)

lemma selector_total:
  assumes "sel = select_default \<or> sel = select_external_front cfg fc"
  shows "\<exists>d. selector_evaluate cfg auth sel ep alpn data = Inr d"
  using assms select_external_front_context [of cfg fc] gate_total [of cfg auth]
  by (auto simp: selector_evaluate_def front_evaluate_initial_data_def tls_evaluate_initial_data_def
      select_default_def)

lemma plan_fallback_iff: "requires_fallback_slot (build_execution_plan d) \<longleftrightarrow> sd_path d = FALLBACK"
  by (cases "sd_path d") (simp_all add: build_execution_plan_def Let_def)

lemma plan_mode: "rp_mode (build_execution_plan d) =
    (if sd_path d = AUTHENTICATED_UDP then StartUdpForward else StartTcpForward)"
  by (simp add: build_execution_plan_def Let_def)

lemma plan_target [simp]:
  "rp_target (build_execution_plan d) = sd_target d"
  "initial_outbound_payload (build_execution_plan d) = outbound_payload d"
  by (simp_all add: build_execution_plan_def Let_def)

lemma first_v4_find: "first_v4 es = find (\<lambda>e. ia_is_v4 (ep_address e)) es"
  by (induction es) auto

lemma choose_endpoint_spec:
  "choose_endpoint cfg results =
     (if results = [] then None
      else if tcp_prefer_ipv4 (tcp cfg) \<and> (\<exists>e \<in> set results. ia_is_v4 (ep_address e))
      then find (\<lambda>e. ia_is_v4 (ep_address e)) results
      else Some (hd results))"
proof (cases "\<exists>e \<in> set results. ia_is_v4 (ep_address e)")
  case True
  then have "find (\<lambda>e. ia_is_v4 (ep_address e)) results \<noteq> None" by (auto simp: find_None_iff)
  with True show ?thesis by (auto simp: choose_endpoint_def first_v4_find split: list.split)
next
  case False
  then have "find (\<lambda>e. ia_is_v4 (ep_address e)) results = None" by (auto simp: find_None_iff)
  with False show ?thesis by (auto simp: choose_endpoint_def first_v4_find split: list.split)
qed

end
