(* ===== verification/Session_Runtime.thy ===== *)
theory Session_Runtime
  imports Session_Gate
begin

text \<open>
  What every server session is built from: the buffers of \<open>src/session/session.{h,cpp}\<close>, the
  two callback bundles \<open>src/core/session_admission_runtime\<close> and
  \<open>src/core/session_lifecycle_runtime\<close>, and the authenticator as the sessions see it.

  The callbacks are \<open>std::function\<close> members that may be empty; they act on the state of
  whoever supplied them (the service), the type parameter \<open>'w\<close>.
\<close>

section \<open>Buffers\<close>

definition DEFAULT_BUFFER_SIZE :: nat where "DEFAULT_BUFFER_SIZE = 16384"
definition MAX_BUFFER_SIZE :: nat where "MAX_BUFFER_SIZE = 65536"
definition MAX_LENGTH :: nat where "MAX_LENGTH = DEFAULT_BUFFER_SIZE"

text \<open>\<open>Session::resize_buffer\<close>, on the size of the vector.\<close>

definition resize_buffer :: "nat \<Rightarrow> nat \<Rightarrow> nat" where
  "resize_buffer sz required =
     (if required > sz \<and> required \<le> MAX_BUFFER_SIZE
      then min MAX_BUFFER_SIZE (max (sz * 2) required)
      else sz)"

text \<open>What the receive handlers do with the buffer first: \<open>length > size * 0.75\<close> asks for twice the
  length.  The product is exact in a \<open>double\<close>, so the comparison is one of integers.\<close>

definition grow_after_read :: "nat \<Rightarrow> nat \<Rightarrow> nat" where
  "grow_after_read sz len = (if 4 * len > 3 * sz then resize_buffer sz (len * 2) else sz)"

definition valid_size :: "nat \<Rightarrow> bool" where
  "valid_size n \<longleftrightarrow> n = 16384 \<or> n = 32768 \<or> n = 65536"

lemma grow_after_read_valid: "valid_size sz \<Longrightarrow> len \<le> sz \<Longrightarrow> valid_size (grow_after_read sz len)"
  by (auto simp: valid_size_def grow_after_read_def resize_buffer_def MAX_BUFFER_SIZE_def)

lemma grow_after_read_mono: "sz \<le> MAX_BUFFER_SIZE \<Longrightarrow> sz \<le> grow_after_read sz len"
  by (auto simp: grow_after_read_def resize_buffer_def)

section \<open>Callbacks\<close>

record 'w Authenticator =
  au_auth :: "string \<Rightarrow> 'w \<Rightarrow> bool"
  au_record :: "string \<Rightarrow> u64 \<Rightarrow> u64 \<Rightarrow> 'w \<Rightarrow> 'w"

record 'w SessionAdmissionRuntime =
  cb_record_auth_success :: "('w \<Rightarrow> 'w) option"
  cb_record_auth_failure :: "(endpoint \<Rightarrow> 'w \<Rightarrow> 'w) option"
  cb_acquire_fallback_slot :: "('w \<Rightarrow> bool \<times> 'w) option"

record 'w SessionLifecycleRuntime =
  cb_release_connection_slot :: "(endpoint \<Rightarrow> 'w \<Rightarrow> 'w) option"
  cb_release_fallback_slot :: "('w \<Rightarrow> 'w) option"

definition call0 :: "('w \<Rightarrow> 'w) option \<Rightarrow> 'w \<Rightarrow> 'w" where
  "call0 f w = (case f of None \<Rightarrow> w | Some g \<Rightarrow> g w)"

definition call1 :: "('a \<Rightarrow> 'w \<Rightarrow> 'w) option \<Rightarrow> 'a \<Rightarrow> 'w \<Rightarrow> 'w" where
  "call1 f x w = (case f of None \<Rightarrow> w | Some g \<Rightarrow> g x w)"

text \<open>\<open>SessionAdmissionRuntime::apply_auth_result\<close>: the session's \<open>auth_password\<close> and the state of
  the service afterwards.\<close>

definition apply_auth_result ::
    "'w SessionAdmissionRuntime \<Rightarrow> endpoint \<Rightarrow> SessionDecision \<Rightarrow> string \<Rightarrow> 'w \<Rightarrow> string \<times> 'w" where
  "apply_auth_result rt ep d auth_password w =
     (if valid_trojan_request d \<and> authenticated d
      then (if used_external_authenticator d
            then (auth_record_password d, call0 (cb_record_auth_success rt) w)
            else (auth_password, call0 (cb_record_auth_success rt) w))
      else if valid_trojan_request d
      then (auth_password, call1 (cb_record_auth_failure rt) ep w)
      else (auth_password, w))"

text \<open>\<open>SessionAdmissionRuntime::try_acquire_fallback_slot\<close>: the result, the flag and the state of the
  service afterwards.\<close>

definition try_acquire_fallback_slot ::
    "'w SessionAdmissionRuntime \<Rightarrow> bool \<Rightarrow> 'w \<Rightarrow> bool \<times> bool \<times> 'w" where
  "try_acquire_fallback_slot rt flag w =
     (case cb_acquire_fallback_slot rt of
        None \<Rightarrow> (True, flag, w)
      | Some acquire \<Rightarrow> (case acquire w of (ok, w') \<Rightarrow> (ok, ok, w')))"

text \<open>\<open>SessionLifecycleRuntime::release_slots\<close>: the two flags and the state of the service
  afterwards.\<close>

definition release_slots ::
    "'w SessionLifecycleRuntime \<Rightarrow> endpoint \<Rightarrow> bool \<Rightarrow> bool \<Rightarrow> 'w \<Rightarrow> bool \<times> bool \<times> 'w" where
  "release_slots rt ep conn fb w =
     (let (conn, w) =
            (case cb_release_connection_slot rt of
               Some release \<Rightarrow> if conn then (False, release ep w) else (conn, w)
             | None \<Rightarrow> (conn, w));
          (fb, w) =
            (case cb_release_fallback_slot rt of
               Some release \<Rightarrow> if fb then (False, release w) else (fb, w)
             | None \<Rightarrow> (fb, w))
      in (conn, fb, w))"

definition record_usage :: "'w Authenticator option \<Rightarrow> string \<Rightarrow> u64 \<Rightarrow> u64 \<Rightarrow> 'w \<Rightarrow> 'w" where
  "record_usage auth auth_password recv_len sent_len w =
     (case auth of
        Some a \<Rightarrow> if auth_password \<noteq> [] then au_record a auth_password recv_len sent_len w else w
      | None \<Rightarrow> w)"

end
