(* ===== verification/Framing.thy ===== *)
theory Framing
  imports Prelude
begin

text \<open>
  Frames on a byte stream.  Several session types keep a buffer of bytes read so far and
  repeatedly decode one frame from its front.  The interface of such a decoder is a
  locale: a decoded frame is a non-empty prefix of the buffer and stays decoded, with
  the same result, when more bytes arrive.  From it follows what the sessions rely on:
  how the stream was cut into reads does not change the frames that come out.
\<close>

section \<open>Draining a buffer\<close>

text \<open>All frames at the front of a buffer, and the bytes that are left.\<close>

function drain :: "(string \<Rightarrow> ('p \<times> nat) option) \<Rightarrow> string \<Rightarrow> 'p list \<times> string" where
  "drain dec s =
     (case dec s of
        None \<Rightarrow> ([], s)
      | Some (p, n) \<Rightarrow>
          (if 0 < n \<and> n \<le> length s
           then (case drain dec (drop n s) of (ps, rest) \<Rightarrow> (p # ps, rest))
           else ([], s)))"
  by pat_completeness auto
termination
  by (relation "measure (\<lambda>(dec, s). length s)") auto

declare drain.simps [simp del]

text \<open>The same, fed one read at a time.\<close>

fun feed :: "(string \<Rightarrow> ('p \<times> nat) option) \<Rightarrow> string \<Rightarrow> string list \<Rightarrow> 'p list \<times> string" where
  "feed dec buf [] = ([], buf)"
| "feed dec buf (c # cs) =
     (case drain dec (buf @ c) of (ps, rest) \<Rightarrow>
        (case feed dec rest cs of (qs, rest') \<Rightarrow> (ps @ qs, rest')))"

section \<open>The interface\<close>

locale frame_decoder =
  fixes decode :: "string \<Rightarrow> ('p \<times> nat) option"
  assumes decode_bound: "decode s = Some (p, n) \<Longrightarrow> 0 < n \<and> n \<le> length s"
    and decode_stable: "decode s = Some (p, n) \<Longrightarrow> decode (s @ t) = Some (p, n)"
begin

lemma drain_None: "decode s = None \<Longrightarrow> drain decode s = ([], s)"
  by (simp add: drain.simps)

lemma drain_Some:
  "decode s = Some (p, n) \<Longrightarrow>
     drain decode s = (p # fst (drain decode (drop n s)), snd (drain decode (drop n s)))"
  using decode_bound by (subst drain.simps) (auto split: prod.split)

text \<open>What is left after draining holds no further frame.\<close>

lemma drain_rest: "decode (snd (drain decode s)) = None"
proof (induction s rule: length_induct)
  case (1 s)
  show ?case
  proof (cases "decode s")
    case None
    then show ?thesis by (simp add: drain_None)
  next
    case (Some x)
    obtain p n where x: "x = (p, n)" by fastforce
    with Some have "0 < n" "n \<le> length s" using decode_bound by auto
    then have "length (drop n s) < length s" by simp
    with 1 have "decode (snd (drain decode (drop n s))) = None" by blast
    with Some x show ?thesis by (simp add: drain_Some)
  qed
qed

text \<open>Bytes that arrive later extend the result of the earlier ones.\<close>

lemma drain_append:
  "drain decode (s @ t) =
     (fst (drain decode s) @ fst (drain decode (snd (drain decode s) @ t)),
      snd (drain decode (snd (drain decode s) @ t)))"
proof (induction s rule: length_induct)
  case (1 s)
  show ?case
  proof (cases "decode s")
    case None
    then show ?thesis by (simp add: drain_None)
  next
    case (Some x)
    obtain p n where x: "x = (p, n)" by fastforce
    with Some have n: "0 < n" "n \<le> length s" using decode_bound by auto
    with Some x have "decode (s @ t) = Some (p, n)" using decode_stable by simp
    then have "drain decode (s @ t) =
        (p # fst (drain decode (drop n s @ t)), snd (drain decode (drop n s @ t)))"
      using n by (simp add: drain_Some)
    moreover from n have "length (drop n s) < length s" by simp
    ultimately show ?thesis using 1 Some x by (simp add: drain_Some)
  qed
qed

text \<open>Feeding a stream in pieces gives the frames of the whole stream, in order, and leaves
  the same bytes.\<close>

lemma feed_eq_drain:
  "decode buf = None \<Longrightarrow> feed decode buf cs = drain decode (buf @ concat cs)"
proof (induction cs arbitrary: buf)
  case Nil
  then show ?case by (simp add: drain_None)
next
  case (Cons c cs)
  let ?d = "drain decode (buf @ c)"
  have "feed decode (snd ?d) cs = drain decode (snd ?d @ concat cs)"
    by (rule Cons.IH) (rule drain_rest)
  then show ?case
    using drain_append [of "buf @ c" "concat cs"] by (simp add: split_beta)
qed

end

end
