(* ===== verification/Udp_Packet.thy ===== *)
theory Udp_Packet
  imports Socks5_Address Framing
begin

text \<open>
  \<open>src/proto/udppacket.{h,cpp}\<close>: UDP datagrams framed on the tunnel's byte stream (address
  field, 16-bit length, line end, payload).
\<close>

section \<open>Data and operations\<close>

record UDPPacket =
  pkt_address :: SOCKS5Address
  pkt_length :: u16
  pkt_payload :: string

text \<open>\<open>UDPPacket::parse\<close>: the object afterwards, and \<open>Some udp_packet_len\<close> where the code
  returns \<open>true\<close>.\<close>

definition udp_parse ::
    "(nat \<Rightarrow> char) \<Rightarrow> UDPPacket \<Rightarrow> string \<Rightarrow> (UDPPacket \<times> nat option) cxx" where
  "udp_parse beyond self data =
     (if length data = 0 then Inr (self, None)
      else (let (addr, is_addr_valid) = socks5_parse beyond (pkt_address self) data;
                self = self\<lparr>pkt_address := addr\<rparr>
            in case is_addr_valid of
              None \<Rightarrow> Inr (self, None)
            | Some address_len \<Rightarrow>
               (if length data < address_len + 2 then Inr (self, None)
                else
                  (let len = be16 (view_at beyond data address_len)
                               (view_at beyond data (address_len + 1));
                       self = self\<lparr>pkt_length := len\<rparr>
                   in if length data < address_len + 4 + unat len then Inr (self, None)
                      else bind_exn (substr data (address_len + 2) 2) (\<lambda>sep.
                        if sep \<noteq> crlf then Inr (self, None)
                        else bind_exn (substr data (address_len + 4) (unat len)) (\<lambda>pl.
                          Inr (self\<lparr>pkt_payload := pl\<rparr>, Some (address_len + 4 + unat len))))))))"

text \<open>The two overloads of \<open>UDPPacket::generate\<close>.\<close>

definition udp_generate :: "endpoint \<Rightarrow> string \<Rightarrow> string" where
  "udp_generate e pl =
     socks5_generate e @ [size_hi_byte (length pl), size_lo_byte (length pl)] @ crlf @ pl"

definition udp_generate_domain :: "string \<Rightarrow> u16 \<Rightarrow> string \<Rightarrow> string" where
  "udp_generate_domain name p pl =
     domain_field name p @ [size_hi_byte (length pl), size_lo_byte (length pl)] @ crlf @ pl"

section \<open>The grammar of UDP frames\<close>

inductive udp_frame :: "UDPPacket \<Rightarrow> string \<Rightarrow> bool" where
  udp_frameI: "address_field a f \<Longrightarrow> length pl = unat (be16 h l) \<Longrightarrow>
     udp_frame \<lparr>pkt_address = a, pkt_length = be16 h l, pkt_payload = pl\<rparr>
       (f @ [h, l] @ crlf @ pl)"

inductive_cases udp_frameE: "udp_frame p f"

lemma udp_parse_complete:
  assumes "udp_frame p f"
  shows "udp_parse beyond self (f @ rest) = Inr (p, Some (length f))"
  using assms
proof cases
  case (udp_frameI a af pl h l)
  have parse: "socks5_parse beyond (pkt_address self) (f @ rest) = (a, Some (length af))"
    using udp_frameI by (simp add: socks5_parse_complete)
  have "f @ rest = af @ h # l # crlf @ pl @ rest" using udp_frameI by simp
  then have "view_at beyond (f @ rest) (length af) = h" "view_at beyond (f @ rest) (length af + 1) = l"
    by (simp_all add: nth_append)
  with parse udp_frameI show ?thesis
    by (cases self) (simp add: udp_parse_def Let_def)
qed

lemma udp_parse_sound:
  assumes "udp_parse beyond self data = Inr (p, Some n)"
  shows "\<exists>f rest. data = f @ rest \<and> udp_frame p f \<and> n = length f"
proof -
  obtain a v where sp: "socks5_parse beyond (pkt_address self) data = (a, v)" by fastforce
  with assms obtain k where v: "v = Some k"
    by (auto simp: udp_parse_def Let_def split: option.splits if_splits)
  with sp obtain f r where f: "data = f @ r" "address_field a f" "k = length f"
    using socks5_parse_sound by blast
  have "k + 2 \<le> length data" "length data \<noteq> 0"
    using assms sp v by (auto simp: udp_parse_def Let_def split: if_splits)
  with f obtain h l t where r: "r = h # l # t"
    by (auto simp: Suc_le_length_iff numeral_eq_Suc)
  have at: "view_at beyond data k = h" "view_at beyond data (Suc k) = l"
    using f r by (simp_all add: nth_append)
  let ?m = "unat (be16 h l)"
  have "2 + ?m \<le> length t" and sep: "take 2 t = crlf"
    and pl: "n = k + 4 + ?m"
    using assms sp v f r at
    by (auto simp: udp_parse_def Let_def bind_exn_Inr_iff substr_def split: if_splits)
  then have "t = crlf @ take ?m (drop 2 t) @ drop (2 + ?m) t"
    by (metis append_take_drop_id drop_drop add.commute)
  moreover have "length (take ?m (drop 2 t)) = ?m" using \<open>2 + ?m \<le> length t\<close> by simp
  ultimately obtain pl rest where t: "t = crlf @ pl @ rest" "length pl = ?m" by metis
  let ?f = "f @ [h, l] @ crlf @ pl" and ?p = "\<lparr>pkt_address = a, pkt_length = be16 h l, pkt_payload = pl\<rparr>"
  have uf: "udp_frame ?p ?f" using f t by (intro udp_frameI) simp_all
  moreover have d: "data = ?f @ rest" using f r t by simp
  ultimately have "udp_parse beyond self data = Inr (?p, Some (length ?f))"
    by (metis udp_parse_complete)
  with assms have "p = ?p" "n = length ?f" by simp_all
  with uf d show ?thesis by blast
qed

text \<open>The parser never throws: each \<open>substr\<close> it takes is in range.\<close>

lemma udp_parse_no_exn: "\<exists>r. udp_parse beyond self data = Inr r"
  by (auto simp: udp_parse_def Let_def split: prod.split option.split)

lemma udp_parse_beyond: "udp_parse b self data = udp_parse b' self data"
proof -
  have e: "socks5_parse b (pkt_address self) data = socks5_parse b' (pkt_address self) data"
    by (rule socks5_parse_beyond)
  obtain a v where sp: "socks5_parse b' (pkt_address self) data = (a, v)" by fastforce
  show ?thesis
  proof (cases v)
    case None
    then show ?thesis by (simp add: udp_parse_def e sp)
  next
    case (Some k)
    then have "view_at b data k = view_at b' data k" "view_at b data (Suc k) = view_at b' data (Suc k)"
      if "k + 2 \<le> length data"
      using that by (simp_all add: view_at_def)
    with Some show ?thesis by (auto simp: udp_parse_def e sp Let_def)
  qed
qed

section \<open>UDP frames as a stream\<close>

definition blank_packet :: UDPPacket where
  "blank_packet = \<lparr>pkt_address = \<lparr>address_type = IPv4, address = [], port = 0\<rparr>,
     pkt_length = 0, pkt_payload = []\<rparr>"

text \<open>Parsing into a fresh packet object, as every caller does.\<close>

definition udp_decode :: "string \<Rightarrow> (UDPPacket \<times> nat) option" where
  "udp_decode data =
     (case udp_parse nul_terminated blank_packet data of
        Inr (p, Some n) \<Rightarrow> Some (p, n)
      | _ \<Rightarrow> None)"

lemma udp_decode_iff:
  "udp_decode data = Some (p, n) \<longleftrightarrow> (\<exists>f rest. data = f @ rest \<and> udp_frame p f \<and> n = length f)"
proof
  assume "udp_decode data = Some (p, n)"
  then have "udp_parse nul_terminated blank_packet data = Inr (p, Some n)"
    by (auto simp: udp_decode_def split: sum.splits option.splits prod.splits)
  then show "\<exists>f rest. data = f @ rest \<and> udp_frame p f \<and> n = length f" by (rule udp_parse_sound)
next
  assume "\<exists>f rest. data = f @ rest \<and> udp_frame p f \<and> n = length f"
  then show "udp_decode data = Some (p, n)"
    by (auto simp: udp_decode_def udp_parse_complete)
qed

lemma udp_frame_length:
  assumes "udp_frame p f"
  shows "9 \<le> length f" "length f \<le> 259 + 4 + unat (pkt_length p)"
proof -
  from assms obtain a af h l pl where f: "f = af @ [h, l] @ crlf @ pl" "address_field a af"
    "length pl = unat (be16 h l)" "pkt_length p = be16 h l"
    by cases simp
  with address_field_length [OF f(2)] show "9 \<le> length f" "length f \<le> 259 + 4 + unat (pkt_length p)"
    by simp_all
qed

interpretation udp_stream: frame_decoder udp_decode
proof
  fix s t p n
  assume "udp_decode s = Some (p, n)"
  then obtain f rest where f: "s = f @ rest" "udp_frame p f" "n = length f"
    by (auto simp: udp_decode_iff)
  then show "0 < n \<and> n \<le> length s" using udp_frame_length(1) [OF f(2)] by auto
  from f have "s @ t = f @ (rest @ t)" by simp
  with f show "udp_decode (s @ t) = Some (p, n)" unfolding udp_decode_iff by blast
qed

text \<open>The generated frames.\<close>

lemma udp_generate_domain_frame:
  assumes "name \<noteq> []" "length name \<le> 255" "length pl < 65536"
  shows "udp_frame \<lparr>pkt_address = \<lparr>address_type = DOMAINNAME, address = name, port = p\<rparr>,
     pkt_length = of_nat (length pl), pkt_payload = pl\<rparr> (udp_generate_domain name p pl)"
proof -
  have u: "unat (be16 (size_hi_byte (length pl)) (size_lo_byte (length pl))) = length pl"
    using assms(3) by (rule unat_be16_size)
  with be16_size [OF assms(3)] udp_frameI [OF domain_field_is_field [OF assms(1,2)], of pl "size_hi_byte (length pl)" "size_lo_byte (length pl)"]
  show ?thesis by (simp add: udp_generate_domain_def)
qed

lemma udp_generate_frame:
  assumes "wf_address (ep_address e)" "\<not> is_unspecified (ep_address e)" "length pl < 65536"
  shows "udp_frame \<lparr>pkt_address = endpoint_field_address e,
     pkt_length = of_nat (length pl), pkt_payload = pl\<rparr> (udp_generate e pl)"
proof -
  have u: "unat (be16 (size_hi_byte (length pl)) (size_lo_byte (length pl))) = length pl"
    using assms(3) by (rule unat_be16_size)
  with be16_size [OF assms(3)] udp_frameI [OF socks5_generate_field [OF assms(1,2)], of pl "size_hi_byte (length pl)" "size_lo_byte (length pl)"]
  show ?thesis by (simp add: udp_generate_def)
qed

end
