(* ===== verification/Asio.thy ===== *)
theory Asio
  imports Prelude
begin

text \<open>
  What all sessions share of Boost.Asio: how an asynchronous operation ends, what an observer
  at the sockets of a session sees, and when the bytes of one direction are relayed
  faithfully.
\<close>

section \<open>Operations and observations\<close>

datatype completion =
    Aborted
  | Failed string
  | Done
  | Received string
  | Datagram string endpoint
  | Resolved "endpoint list"

text \<open>What an observer at the sockets notes: the bytes to relay in each direction (those a receive
  handler accepted), the bytes written so far and the progress of the write in flight.\<close>

record io_trace =
  tr_up :: string
  tr_down :: string
  tr_in_wire :: string
  tr_out_wire :: string
  tr_in_off :: nat
  tr_out_off :: nat

definition empty_trace :: io_trace where
  "empty_trace = \<lparr>tr_up = '''', tr_down = '''', tr_in_wire = '''', tr_out_wire = '''', tr_in_off = 0, tr_out_off = 0\<rparr>"

definition remove_nth :: "nat \<Rightarrow> 'a list \<Rightarrow> 'a list" where
  "remove_nth i xs = take i xs @ drop (Suc i) xs"

section \<open>One direction of a relay\<close>

text \<open>One direction: \<open>everything\<close> is to be relayed, \<open>wire\<close> has been written, and a write of \<open>data\<close> that
  got as far as \<open>off\<close> is in progress or not.\<close>

definition flow :: "string \<Rightarrow> string \<Rightarrow> nat \<Rightarrow> string \<Rightarrow> completion option option \<Rightarrow> bool" where
  "flow everything wire off data w \<longleftrightarrow>
     (case w of
        None \<Rightarrow> wire = everything \<and> off = 0
      | Some c \<Rightarrow> off \<le> length data \<and> (c = Some Done \<longrightarrow> off = length data) \<and>
          (\<exists>before. everything = before @ data \<and> wire = before @ take off data))"

definition is_prefix :: "'a list \<Rightarrow> 'a list \<Rightarrow> bool" where
  "is_prefix xs ys \<longleftrightarrow> (\<exists>zs. ys = xs @ zs)"

lemma flow_prefix: "flow everything wire off data w \<Longrightarrow> is_prefix wire everything"
  by (auto simp: flow_def is_prefix_def split: option.splits) (metis append_take_drop_id)

lemma flow_progress:
  assumes "flow everything wire off data (Some None)" and "off + k \<le> length data"
  shows "flow everything (wire @ take k (drop off data)) (off + k) data (Some None)"
  using assms by (auto simp: flow_def take_add)

section \<open>Lists of operations\<close>

lemma remove_nth_filter:
  assumes "i < length xs"
  shows "\<not> P (xs ! i) \<Longrightarrow> filter P (remove_nth i xs) = filter P xs"
    and "P (xs ! i) \<Longrightarrow> filter P xs = [x] \<Longrightarrow> xs ! i = x \<and> filter P (remove_nth i xs) = []"
proof -
  have xs: "filter P xs = filter P (take i xs) @ filter P [xs ! i] @ filter P (drop (Suc i) xs)"
    using id_take_nth_drop [OF assms] by (metis append_Cons append_Nil filter_append)
  show "\<not> P (xs ! i) \<Longrightarrow> filter P (remove_nth i xs) = filter P xs"
    using xs by (simp add: remove_nth_def)
  show "P (xs ! i) \<Longrightarrow> filter P xs = [x] \<Longrightarrow> xs ! i = x \<and> filter P (remove_nth i xs) = []"
    using xs by (auto simp: remove_nth_def append_eq_Cons_conv Cons_eq_append_conv)
qed

lemma update_filter:
  assumes "i < length xs"
  shows "\<not> P (xs ! i) \<Longrightarrow> \<not> P y \<Longrightarrow> filter P (xs[i := y]) = filter P xs"
    and "P (xs ! i) \<Longrightarrow> P y \<Longrightarrow> filter P xs = [x] \<Longrightarrow> xs ! i = x \<and> filter P (xs[i := y]) = [y]"
proof -
  have xs: "filter P xs = filter P (take i xs) @ filter P [xs ! i] @ filter P (drop (Suc i) xs)"
    using id_take_nth_drop [OF assms] by (metis append_Cons append_Nil filter_append)
  have ys: "filter P (xs[i := y]) = filter P (take i xs) @ filter P [y] @ filter P (drop (Suc i) xs)"
    using upd_conv_take_nth_drop [OF assms] by (metis append_Cons append_Nil filter_append)
  show "\<not> P (xs ! i) \<Longrightarrow> \<not> P y \<Longrightarrow> filter P (xs[i := y]) = filter P xs" using xs ys by simp
  show "P (xs ! i) \<Longrightarrow> P y \<Longrightarrow> filter P xs = [x] \<Longrightarrow> xs ! i = x \<and> filter P (xs[i := y]) = [y]"
    using xs ys by (auto simp: append_eq_Cons_conv Cons_eq_append_conv)
qed

end
