(* ===== verification/Server_Session.thy ===== *)
theory Server_Session
  imports Session_Runtime Udp_Packet Asio
begin

text \<open>
  \<open>src/session/serversession.{h,cpp}\<close>, with the asynchronous halves of
  \<open>src/core/relay_executor.cpp\<close> and \<open>src/core/outbound_dialer.cpp\<close>.

  An asynchronous operation the session starts is an entry of \<open>pending\<close>: first in flight
  (\<open>None\<close>), then with its completion, which waits in the queue of the \<open>io_context\<close> until the
  handler runs.  Cancelling an I/O object gives the operations in flight on it the
  completion \<open>Aborted\<close> and, as in Asio, does nothing to completions already queued.  The
  handlers are functions on the session and the state \<open>'w\<close> of the service behind the
  callbacks; the step relation lets the environment complete operations and the
  \<open>io_context\<close> run handlers in any order.  Log lines and the start time they print are
  left out; socket options are taken to be set without an exception.

  A read buffer is its size, the bytes a read delivered are the argument of the receive
  handler.  The write buffers are members that a write in flight refers to.
\<close>

section \<open>State\<close>

datatype Status = HANDSHAKE | FORWARD_TCP | UDP_FORWARD | DESTROY

datatype BootstrapMode = StandardTls | TrustedFrontIngress | TrustedFrontIngressMtls

datatype io_object = In_socket | Out_socket | Udp_socket | Tcp_resolver | Udp_resolver | Timer

text \<open>The operations in progress, with what their handlers captured.\<close>

datatype async_op =
    Handshake
  | Plain_http_write
  | Bootstrap_read
  | In_read
  | In_write
  | Out_read
  | Out_write nat bool
  | Udp_read
  | Udp_write endpoint nat
  | Tcp_resolve ConnectTarget
  | Tcp_connect endpoint ConnectTarget
  | Udp_resolve string nat string u16
  | Ssl_shutdown
  | Shutdown_timer

fun op_object :: "async_op \<Rightarrow> io_object" where
  "op_object Handshake = In_socket"
| "op_object Plain_http_write = In_socket"
| "op_object Bootstrap_read = In_socket"
| "op_object In_read = In_socket"
| "op_object In_write = In_socket"
| "op_object Out_read = Out_socket"
| "op_object (Out_write n acc) = Out_socket"
| "op_object Udp_read = Udp_socket"
| "op_object (Udp_write ep n) = Udp_socket"
| "op_object (Tcp_resolve t) = Tcp_resolver"
| "op_object (Tcp_connect ep t) = Out_socket"
| "op_object (Udp_resolve pl n a p) = Udp_resolver"
| "op_object Ssl_shutdown = In_socket"
| "op_object Shutdown_timer = Timer"

record ServerSession =
  status :: Status
  bootstrap_mode :: BootstrapMode
  external_front_handoff :: "ExternalFrontHandoff option"
  trusted_front_bootstrap_buffer :: string
  connection_slot_acquired :: bool
  fallback_slot_acquired :: bool
  auth_password :: string
  in_read_size :: nat
  out_read_size :: nat
  udp_read_size :: nat
  in_write_data :: string
  out_write_data :: string
  udp_write_data :: string
  recv_len :: u64
  sent_len :: u64
  out_write_buf :: string
  udp_data_buf :: string
  in_endpoint :: endpoint
  in_open :: bool
  out_open :: bool
  udp_open :: bool
  pending :: "(async_op \<times> completion option) list"

text \<open>What the constructor of a session captures.  \<open>se_alpn\<close> is the protocol the TLS library
  selected on the connection.\<close>

record 'w session_env =
  se_config :: Config
  se_auth :: "'w Authenticator option"
  se_plain_http_response :: string
  se_admission :: "'w SessionAdmissionRuntime"
  se_lifecycle :: "'w SessionLifecycleRuntime"
  se_read_json :: "string \<Rightarrow> ptree option"
  se_alpn :: "string option"

definition no_endpoint :: endpoint where
  "no_endpoint = \<lparr>ep_address = \<lparr>ia_is_v4 = True, ia_bytes = replicate 4 (CHR 0x00), ia_text = ''0.0.0.0''\<rparr>,
     ep_port = 0\<rparr>"

text \<open>A session as the constructor leaves it, with the accepted socket open.\<close>

definition new_session :: ServerSession where
  "new_session = \<lparr>status = HANDSHAKE, bootstrap_mode = StandardTls, external_front_handoff = None,
     trusted_front_bootstrap_buffer = '''', connection_slot_acquired = False,
     fallback_slot_acquired = False, auth_password = '''',
     in_read_size = DEFAULT_BUFFER_SIZE, out_read_size = DEFAULT_BUFFER_SIZE,
     udp_read_size = DEFAULT_BUFFER_SIZE, in_write_data = '''', out_write_data = '''',
     udp_write_data = '''', recv_len = 0, sent_len = 0, out_write_buf = '''', udp_data_buf = '''',
     in_endpoint = no_endpoint, in_open = True, out_open = False, udp_open = False, pending = []\<rparr>"

definition enable_trusted_front_ingress_mode :: "bool \<Rightarrow> ServerSession \<Rightarrow> ServerSession" where
  "enable_trusted_front_ingress_mode use_mtls s =
     s\<lparr>bootstrap_mode := (if use_mtls then TrustedFrontIngressMtls else TrustedFrontIngress)\<rparr>"

definition set_external_front_handoff :: "ExternalFrontHandoff \<Rightarrow> ServerSession \<Rightarrow> ServerSession" where
  "set_external_front_handoff h s = s\<lparr>external_front_handoff := Some h\<rparr>"

definition clear_external_front_handoff :: "ServerSession \<Rightarrow> ServerSession" where
  "clear_external_front_handoff s = s\<lparr>external_front_handoff := None\<rparr>"

section \<open>Operations in flight\<close>

definition start_op :: "async_op \<Rightarrow> ServerSession \<Rightarrow> ServerSession" where
  "start_op op s = s\<lparr>pending := pending s @ [(op, None)]\<rparr>"

definition abort_on :: "io_object \<Rightarrow> async_op \<times> completion option \<Rightarrow> async_op \<times> completion option" where
  "abort_on obj p = (if op_object (fst p) = obj \<and> snd p = None then (fst p, Some Aborted) else p)"

definition cancel_io :: "io_object \<Rightarrow> ServerSession \<Rightarrow> ServerSession" where
  "cancel_io obj s = s\<lparr>pending := map (abort_on obj) (pending s)\<rparr>"

definition in_async_read :: "ServerSession \<Rightarrow> ServerSession" where
  "in_async_read s = start_op In_read s"

definition trusted_front_ingress_async_read :: "ServerSession \<Rightarrow> ServerSession" where
  "trusted_front_ingress_async_read s = start_op Bootstrap_read s"

definition in_async_write_buffer :: "string \<Rightarrow> ServerSession \<Rightarrow> ServerSession" where
  "in_async_write_buffer data s = start_op In_write (s\<lparr>in_write_data := data\<rparr>)"

definition out_async_read :: "ServerSession \<Rightarrow> ServerSession" where
  "out_async_read s = start_op Out_read s"

definition out_async_write_buffer :: "string \<Rightarrow> bool \<Rightarrow> ServerSession \<Rightarrow> ServerSession" where
  "out_async_write_buffer data account s =
     start_op (Out_write (length data) account) (s\<lparr>out_write_data := data\<rparr>)"

definition udp_async_read :: "ServerSession \<Rightarrow> ServerSession" where
  "udp_async_read s = start_op Udp_read s"

definition udp_async_write :: "string \<Rightarrow> endpoint \<Rightarrow> nat \<Rightarrow> ServerSession \<Rightarrow> ServerSession" where
  "udp_async_write data ep accounted s = start_op (Udp_write ep accounted) (s\<lparr>udp_write_data := data\<rparr>)"

section \<open>Closing\<close>

definition cancel_runtime_io :: "ServerSession \<Rightarrow> ServerSession" where
  "cancel_runtime_io s = cancel_io Udp_resolver (cancel_io Tcp_resolver s)"

definition close_outbound_sockets :: "ServerSession \<Rightarrow> ServerSession" where
  "close_outbound_sockets s =
     (let s = (if out_open s then (cancel_io Out_socket s)\<lparr>out_open := False\<rparr> else s)
      in if udp_open s then (cancel_io Udp_socket s)\<lparr>udp_open := False\<rparr> else s)"

definition close_in_socket :: "ServerSession \<Rightarrow> ServerSession" where
  "close_in_socket s = (cancel_io In_socket s)\<lparr>in_open := False\<rparr>"

definition shutdown_inbound_tls :: "ServerSession \<Rightarrow> ServerSession" where
  "shutdown_inbound_tls s =
     (if \<not> in_open s then s
      else if bootstrap_mode s = TrustedFrontIngress then close_in_socket s
      else start_op Shutdown_timer (cancel_io Timer (start_op Ssl_shutdown (cancel_io In_socket s))))"

text \<open>The callback shared by the TLS shutdown and its timeout.\<close>

definition ssl_shutdown_cb :: "completion \<Rightarrow> ServerSession \<Rightarrow> ServerSession" where
  "ssl_shutdown_cb c s = (if c = Aborted then s else close_in_socket (cancel_io Timer s))"

definition destroy :: "'w session_env \<Rightarrow> ServerSession \<times> 'w \<Rightarrow> ServerSession \<times> 'w" where
  "destroy e = (\<lambda>(s, w).
     if status s = DESTROY then (s, w)
     else
       (let s = s\<lparr>status := DESTROY\<rparr>;
            (conn, fb, w) = release_slots (se_lifecycle e) (in_endpoint s)
               (connection_slot_acquired s) (fallback_slot_acquired s) w;
            s = s\<lparr>connection_slot_acquired := conn, fallback_slot_acquired := fb\<rparr>;
            w = record_usage (se_auth e) (auth_password s) (recv_len s) (sent_len s) w
        in (shutdown_inbound_tls (close_outbound_sockets (cancel_runtime_io s)), w)))"

section \<open>UDP\<close>

datatype UdpDispatchDecision = Proceed | WaitForMoreData | DestroySession

record UdpDispatchRequest =
  ur_payload :: string
  ur_packet_length :: nat
  ur_query_addr :: string
  ur_query_port :: u16

definition try_parse_udp_packet ::
    "ServerSession \<Rightarrow> UdpDispatchDecision \<times> UdpDispatchRequest option \<times> ServerSession" where
  "try_parse_udp_packet s =
     (case udp_decode (udp_data_buf s) of
        None \<Rightarrow>
          if length (udp_data_buf s) > MAX_LENGTH then (DestroySession, None, s)
          else (WaitForMoreData, None, s)
      | Some (packet, packet_len) \<Rightarrow>
          (Proceed,
           Some \<lparr>ur_payload = pkt_payload packet, ur_packet_length = unat (pkt_length packet),
                 ur_query_addr = address (pkt_address packet), ur_query_port = port (pkt_address packet)\<rparr>,
           s\<lparr>udp_data_buf := drop packet_len (udp_data_buf s)\<rparr>))"

definition udp_sent :: "'w session_env \<Rightarrow> ServerSession \<times> 'w \<Rightarrow> ServerSession \<times> 'w" where
  "udp_sent e = (\<lambda>(s, w).
     if status s = UDP_FORWARD
     then (case try_parse_udp_packet s of
             (WaitForMoreData, _, s) \<Rightarrow> (in_async_read s, w)
           | (DestroySession, _, s) \<Rightarrow> destroy e (s, w)
           | (Proceed, Some r, s) \<Rightarrow>
               (start_op (Udp_resolve (ur_payload r) (ur_packet_length r) (ur_query_addr r) (ur_query_port r)) s, w)
           | (Proceed, None, s) \<Rightarrow> (s, w))
     else (s, w))"

text \<open>\<open>open_ok\<close>: the result of opening a socket.\<close>

definition ensure_udp_socket_open :: "'w session_env \<Rightarrow> bool \<Rightarrow> ServerSession \<times> 'w \<Rightarrow> ServerSession \<times> 'w" where
  "ensure_udp_socket_open e open_ok = (\<lambda>(s, w).
     if udp_open s then (s, w)
     else if \<not> open_ok then destroy e (s, w)
     else (udp_async_read (s\<lparr>udp_open := True\<rparr>), w))"

definition dispatch_udp_payload ::
    "'w session_env \<Rightarrow> bool \<Rightarrow> string \<Rightarrow> nat \<Rightarrow> endpoint \<Rightarrow> ServerSession \<times> 'w \<Rightarrow> ServerSession \<times> 'w" where
  "dispatch_udp_payload e open_ok payload packet_length ep sw =
     (case ensure_udp_socket_open e open_ok sw of (s, w) \<Rightarrow>
        if \<not> udp_open s then (s, w)
        else (udp_async_write payload ep packet_length s, w))"

definition udp_resolved ::
    "'w session_env \<Rightarrow> bool \<Rightarrow> string \<Rightarrow> nat \<Rightarrow> completion \<Rightarrow> ServerSession \<times> 'w \<Rightarrow> ServerSession \<times> 'w" where
  "udp_resolved e open_ok payload packet_length c sw =
     (case c of
        Resolved results \<Rightarrow>
          (case choose_endpoint (se_config e) results of
             None \<Rightarrow> destroy e sw
           | Some ep \<Rightarrow> dispatch_udp_payload e open_ok payload packet_length ep sw)
      | _ \<Rightarrow> destroy e sw)"

definition udp_recv :: "string \<Rightarrow> endpoint \<Rightarrow> ServerSession \<Rightarrow> ServerSession" where
  "udp_recv data ep s =
     (let s = s\<lparr>udp_read_size := grow_after_read (udp_read_size s) (length data)\<rparr>
      in if status s = UDP_FORWARD
         then in_async_write_buffer (udp_generate ep data)
                (s\<lparr>recv_len := recv_len s + of_nat (length data)\<rparr>)
         else s)"

section \<open>The first bytes\<close>

definition select_ingress :: "'w session_env \<Rightarrow> ServerSession \<Rightarrow> Selection" where
  "select_ingress e s =
     (case external_front_handoff s of
        Some h \<Rightarrow>
          (case ho_context h of
             Some fc \<Rightarrow> select_external_front (se_config e) fc
           | None \<Rightarrow> select_default)
      | None \<Rightarrow> select_default)"

text \<open>\<open>RelayExecutor::begin_tcp_relay\<close> with the callbacks \<open>connect_outbound\<close> passes.\<close>

definition begin_tcp_relay ::
    "'w session_env \<Rightarrow> ConnectTarget \<Rightarrow> bool \<Rightarrow> ServerSession \<times> 'w \<Rightarrow> bool \<times> ServerSession \<times> 'w" where
  "begin_tcp_relay e target needs_slot = (\<lambda>(s, w).
     let (granted, s, w) =
           (if needs_slot
            then (case try_acquire_fallback_slot (se_admission e) (fallback_slot_acquired s) w of
                    (ok, flag, w) \<Rightarrow> (ok, s\<lparr>fallback_slot_acquired := flag\<rparr>, w))
            else (True, s, w))
     in if \<not> granted then (False, destroy e (s, w))
        else (True, start_op (Tcp_resolve target) s, w))"

definition connect_outbound ::
    "'w session_env \<Rightarrow> ConnectTarget \<Rightarrow> bool \<Rightarrow> ServerSession \<times> 'w \<Rightarrow> ServerSession \<times> 'w" where
  "connect_outbound e target needs_slot sw = snd (begin_tcp_relay e target needs_slot sw)"

text \<open>The continuations of \<open>OutboundDialer::resolve_tcp\<close> and \<open>connect_tcp\<close>.\<close>

definition tcp_resolved ::
    "'w session_env \<Rightarrow> bool \<Rightarrow> ConnectTarget \<Rightarrow> completion \<Rightarrow> ServerSession \<times> 'w \<Rightarrow> ServerSession \<times> 'w" where
  "tcp_resolved e open_ok target c = (\<lambda>(s, w).
     case c of
       Resolved results \<Rightarrow>
         (case choose_endpoint (se_config e) results of
            None \<Rightarrow> destroy e (s, w)
          | Some ep \<Rightarrow>
              if \<not> open_ok then destroy e (s, w)
              else (start_op (Tcp_connect ep target) (s\<lparr>out_open := True\<rparr>), w))
     | _ \<Rightarrow> destroy e (s, w))"

definition tcp_connected :: "ServerSession \<Rightarrow> ServerSession" where
  "tcp_connected s =
     (let s = out_async_read (s\<lparr>status := FORWARD_TCP\<rparr>)
      in if out_write_buf s \<noteq> [] then out_async_write_buffer (out_write_buf s) True s
         else in_async_read s)"

definition start_udp_forward ::
    "'w session_env \<Rightarrow> RelayExecutionPlan \<Rightarrow> ServerSession \<times> 'w \<Rightarrow> ServerSession \<times> 'w" where
  "start_udp_forward e plan = (\<lambda>(s, w).
     udp_sent e (s\<lparr>out_write_buf := initial_outbound_payload plan, status := UDP_FORWARD,
                   udp_data_buf := initial_outbound_payload plan\<rparr>, w))"

definition execute_plan ::
    "'w session_env \<Rightarrow> RelayExecutionPlan \<Rightarrow> ServerSession \<times> 'w \<Rightarrow> ServerSession \<times> 'w" where
  "execute_plan e plan = (\<lambda>(s, w).
     if rp_mode plan = StartUdpForward then start_udp_forward e plan (s, w)
     else
       (let s = s\<lparr>out_write_buf := initial_outbound_payload plan\<rparr>
        in if rp_mode plan = StartTcpForward
           then connect_outbound e (rp_target plan) (requires_fallback_slot plan) (s, w)
           else destroy e (s, w)))"

text \<open>An exception of the selector would leave the handler here; with a selection of
  \<open>select_ingress\<close> there is none (\<open>selector_total\<close>).\<close>

definition handle_handshake_payload ::
    "'w session_env \<Rightarrow> string \<Rightarrow> ServerSession \<times> 'w \<Rightarrow> ServerSession \<times> 'w" where
  "handle_handshake_payload e data = (\<lambda>(s, w).
     case selector_evaluate (se_config e) (map_option (\<lambda>a pw. au_auth a pw w) (se_auth e))
            (select_ingress e s) (in_endpoint s) (se_alpn e) data of
       Inl exn \<Rightarrow> (s, w)
     | Inr gate_result \<Rightarrow>
         (case apply_auth_result (se_admission e) (in_endpoint s) gate_result (auth_password s) w of
            (pw, w) \<Rightarrow> execute_plan e (build_execution_plan gate_result) (s\<lparr>auth_password := pw\<rparr>, w)))"

section \<open>Handlers\<close>

definition in_recv :: "'w session_env \<Rightarrow> string \<Rightarrow> ServerSession \<times> 'w \<Rightarrow> ServerSession \<times> 'w" where
  "in_recv e data = (\<lambda>(s, w).
     let s = s\<lparr>in_read_size := grow_after_read (in_read_size s) (length data)\<rparr>
     in case status s of
          HANDSHAKE \<Rightarrow> handle_handshake_payload e data (s, w)
        | FORWARD_TCP \<Rightarrow> (out_async_write_buffer data True s, w)
        | UDP_FORWARD \<Rightarrow> udp_sent e (s\<lparr>udp_data_buf := udp_data_buf s @ data\<rparr>, w)
        | DESTROY \<Rightarrow> (s, w))"

definition in_sent :: "ServerSession \<Rightarrow> ServerSession" where
  "in_sent s =
     (case status s of
        FORWARD_TCP \<Rightarrow> out_async_read s
      | UDP_FORWARD \<Rightarrow> udp_async_read s
      | _ \<Rightarrow> s)"

definition out_recv :: "string \<Rightarrow> ServerSession \<Rightarrow> ServerSession" where
  "out_recv data s =
     (let s = s\<lparr>out_read_size := grow_after_read (out_read_size s) (length data)\<rparr>
      in if status s = FORWARD_TCP
         then in_async_write_buffer data (s\<lparr>recv_len := recv_len s + of_nat (length data)\<rparr>)
         else s)"

definition out_sent :: "ServerSession \<Rightarrow> ServerSession" where
  "out_sent s = (if status s = FORWARD_TCP then in_async_read s else s)"

definition trusted_front_ingress_read ::
    "'w session_env \<Rightarrow> string \<Rightarrow> ServerSession \<times> 'w \<Rightarrow> ServerSession \<times> 'w" where
  "trusted_front_ingress_read e data = (\<lambda>(s, w).
     let buffer = trusted_front_bootstrap_buffer s @ data;
         result = parse_ingress (se_read_json e) buffer
     in if ingress_parsed result
        then handle_handshake_payload e (downstream_payload result)
               (set_external_front_handoff (the (ig_handoff result))
                  (s\<lparr>trusted_front_bootstrap_buffer := ''''\<rparr>), w)
        else if ig_status result = RejectedIncompleteFrame
        then (trusted_front_ingress_async_read (s\<lparr>trusted_front_bootstrap_buffer := buffer\<rparr>), w)
        else destroy e (s\<lparr>trusted_front_bootstrap_buffer := buffer\<rparr>, w))"

text \<open>\<open>start\<close>: \<open>None\<close> is a peer that is gone already.\<close>

definition start :: "'w session_env \<Rightarrow> endpoint option \<Rightarrow> ServerSession \<times> 'w \<Rightarrow> ServerSession \<times> 'w" where
  "start e remote = (\<lambda>(s, w).
     case remote of
       None \<Rightarrow> destroy e (s\<lparr>in_endpoint := no_endpoint\<rparr>, w)
     | Some ep \<Rightarrow>
         (let s = s\<lparr>in_endpoint := ep, connection_slot_acquired := True\<rparr>
          in case bootstrap_mode s of
               TrustedFrontIngress \<Rightarrow> (trusted_front_ingress_async_read s, w)
             | TrustedFrontIngressMtls \<Rightarrow> (start_op Handshake s, w)
             | StandardTls \<Rightarrow> (start_op Handshake s, w)))"

definition handshake_done :: "'w session_env \<Rightarrow> completion \<Rightarrow> ServerSession \<times> 'w \<Rightarrow> ServerSession \<times> 'w" where
  "handshake_done e c = (\<lambda>(s, w).
     if bootstrap_mode s = TrustedFrontIngressMtls
     then (if c = Done then (trusted_front_ingress_async_read s, w) else destroy e (s, w))
     else if c = Done then (in_async_read s, w)
     else if c = Failed ''http request'' \<and> se_plain_http_response e \<noteq> []
     then (start_op Plain_http_write
             (s\<lparr>recv_len := recv_len s + of_nat (length (se_plain_http_response e))\<rparr>), w)
     else destroy e (s, w))"

text \<open>The handler of each operation, applied to its completion.  \<open>open_ok\<close> is what opening a socket
  yields, where the handler opens one.\<close>

fun on_complete ::
    "'w session_env \<Rightarrow> bool \<Rightarrow> async_op \<Rightarrow> completion \<Rightarrow> ServerSession \<times> 'w \<Rightarrow> ServerSession \<times> 'w" where
  "on_complete e ok Handshake c sw = handshake_done e c sw"
| "on_complete e ok Plain_http_write c sw = destroy e sw"
| "on_complete e ok Bootstrap_read c sw =
     (case c of Received data \<Rightarrow> trusted_front_ingress_read e data sw | _ \<Rightarrow> destroy e sw)"
| "on_complete e ok In_read c sw =
     (case c of Received data \<Rightarrow> in_recv e data sw | _ \<Rightarrow> destroy e sw)"
| "on_complete e ok In_write c sw = (if c = Done then apfst in_sent sw else destroy e sw)"
| "on_complete e ok Out_read c sw =
     (case c of Received data \<Rightarrow> apfst (out_recv data) sw | _ \<Rightarrow> destroy e sw)"
| "on_complete e ok (Out_write len account) c sw =
     (if c = Done
      then apfst (\<lambda>s. out_sent (if account then s\<lparr>sent_len := sent_len s + of_nat len\<rparr> else s)) sw
      else destroy e sw)"
| "on_complete e ok Udp_read c sw =
     (case c of Datagram data ep \<Rightarrow> apfst (udp_recv data ep) sw | _ \<Rightarrow> destroy e sw)"
| "on_complete e ok (Udp_write ep accounted) c sw =
     (if c = Done
      then udp_sent e (apfst (\<lambda>s. if accounted > 0 then s\<lparr>sent_len := sent_len s + of_nat accounted\<rparr> else s) sw)
      else destroy e sw)"
| "on_complete e ok (Tcp_resolve target) c sw = tcp_resolved e ok target c sw"
| "on_complete e ok (Tcp_connect ep target) c sw =
     (if c = Done then apfst tcp_connected sw else destroy e sw)"
| "on_complete e ok (Udp_resolve payload len addr p) c sw = udp_resolved e ok payload len c sw"
| "on_complete e ok Ssl_shutdown c sw = apfst (ssl_shutdown_cb c) sw"
| "on_complete e ok Shutdown_timer c sw = apfst (ssl_shutdown_cb c) sw"

end
