(* ===== verification/Server_Session_Steps.thy ===== *)
theory Server_Session_Steps
  imports Server_Session
begin

text \<open>
  The runs of a server session, and what holds in all of them.  The step relation lets the
  environment make progress with an operation in flight, complete it, change the state
  behind the callbacks, and lets the \<open>io_context\<close> run a queued handler.  The invariant has
  two parts: at most one operation in progress towards the target and one towards the
  client (so no buffer is reused while an operation refers to it), and the bytes on the
  wire being a prefix of the bytes to relay.
\<close>

section \<open>Steps\<close>

text \<open>The completions the operating system may report; \<open>Aborted\<close> comes from a cancellation only.\<close>

fun admissible :: "ServerSession \<Rightarrow> io_trace \<Rightarrow> async_op \<Rightarrow> completion \<Rightarrow> bool" where
  "admissible s tr op Aborted = False"
| "admissible s tr op (Failed m) = True"
| "admissible s tr In_write Done = (tr_in_off tr = length (in_write_data s))"
| "admissible s tr (Out_write n acc) Done = (tr_out_off tr = length (out_write_data s))"
| "admissible s tr Handshake Done = True"
| "admissible s tr Plain_http_write Done = True"
| "admissible s tr (Udp_write ep n) Done = True"
| "admissible s tr (Tcp_connect ep t) Done = True"
| "admissible s tr Ssl_shutdown Done = True"
| "admissible s tr Shutdown_timer Done = True"
| "admissible s tr Bootstrap_read (Received d) = (d \<noteq> [] \<and> length d \<le> in_read_size s)"
| "admissible s tr In_read (Received d) = (d \<noteq> [] \<and> length d \<le> in_read_size s)"
| "admissible s tr Out_read (Received d) = (d \<noteq> [] \<and> length d \<le> out_read_size s)"
| "admissible s tr Udp_read (Datagram d ep) = (length d \<le> udp_read_size s)"
| "admissible s tr (Tcp_resolve t) (Resolved es) = True"
| "admissible s tr (Udp_resolve pl n a p) (Resolved es) = True"
| "admissible s tr op c = False"

text \<open>What the observer adds when the handler of an operation runs.\<close>

fun note_run :: "ServerSession \<Rightarrow> async_op \<Rightarrow> completion \<Rightarrow> io_trace \<Rightarrow> io_trace" where
  "note_run s In_read (Received d) tr =
     (if status s = FORWARD_TCP then tr\<lparr>tr_up := tr_up tr @ d\<rparr> else tr)"
| "note_run s Out_read (Received d) tr =
     (if status s = FORWARD_TCP then tr\<lparr>tr_down := tr_down tr @ d\<rparr> else tr)"
| "note_run s Udp_read (Datagram d ep) tr =
     (if status s = UDP_FORWARD then tr\<lparr>tr_down := tr_down tr @ udp_generate ep d\<rparr> else tr)"
| "note_run s In_write c tr = tr\<lparr>tr_in_off := 0\<rparr>"
| "note_run s (Out_write n acc) c tr = tr\<lparr>tr_out_off := 0\<rparr>"
| "note_run s op c tr = tr"

inductive session_step ::
    "'w session_env \<Rightarrow> ServerSession \<times> 'w \<times> io_trace \<Rightarrow> ServerSession \<times> 'w \<times> io_trace \<Rightarrow> bool" for e where
  ready: "i < length (pending s) \<Longrightarrow> pending s ! i = (op, None) \<Longrightarrow> admissible s tr op c \<Longrightarrow>
    session_step e (s, w, tr) (s\<lparr>pending := (pending s)[i := (op, Some c)]\<rparr>, w, tr)"
| in_progress: "(In_write, None) \<in> set (pending s) \<Longrightarrow> tr_in_off tr + k \<le> length (in_write_data s) \<Longrightarrow>
    session_step e (s, w, tr)
      (s, w, tr\<lparr>tr_in_wire := tr_in_wire tr @ take k (drop (tr_in_off tr) (in_write_data s)),
                tr_in_off := tr_in_off tr + k\<rparr>)"
| out_progress: "(Out_write n acc, None) \<in> set (pending s) \<Longrightarrow> tr_out_off tr + k \<le> length (out_write_data s) \<Longrightarrow>
    session_step e (s, w, tr)
      (s, w, tr\<lparr>tr_out_wire := tr_out_wire tr @ take k (drop (tr_out_off tr) (out_write_data s)),
                tr_out_off := tr_out_off tr + k\<rparr>)"
| run: "i < length (pending s) \<Longrightarrow> pending s ! i = (op, Some c) \<Longrightarrow>
    on_complete e ok op c (s\<lparr>pending := remove_nth i (pending s)\<rparr>, w) = (s', w') \<Longrightarrow>
    session_step e (s, w, tr) (s', w', note_run s op c tr)"

text \<open>Seen from one session, the state behind the callbacks changes at any time.\<close>

inductive server_step ::
    "'w session_env \<Rightarrow> ServerSession \<times> 'w \<times> io_trace \<Rightarrow> ServerSession \<times> 'w \<times> io_trace \<Rightarrow> bool" for e where
  own: "session_step e c c' \<Longrightarrow> server_step e c c'"
| service: "server_step e (s, w, tr) (s, w', tr)"

inductive_cases server_stepE: "server_step e (s, w, tr) (s', w', tr')"

text \<open>The sessions the service creates, before they are started.\<close>

definition fresh_session :: "ServerSession \<Rightarrow> bool" where
  "fresh_session s \<longleftrightarrow>
     (\<exists>m h. s = new_session\<lparr>bootstrap_mode := m, external_front_handoff := h\<rparr>)"

definition server_reachable :: "'w session_env \<Rightarrow> ServerSession \<Rightarrow> io_trace \<Rightarrow> bool" where
  "server_reachable e s tr \<longleftrightarrow>
     (\<exists>s0 remote w0 s1 w1 w. fresh_session s0 \<and> start e remote (s0, w0) = (s1, w1) \<and>
        (server_step e)\<^sup>*\<^sup>* (s1, w1, empty_trace) (s, w, tr))"

section \<open>Tokens\<close>

fun is_up :: "async_op \<Rightarrow> bool" where
  "is_up Handshake = True"
| "is_up Plain_http_write = True"
| "is_up Bootstrap_read = True"
| "is_up In_read = True"
| "is_up (Out_write n acc) = True"
| "is_up (Udp_write ep n) = True"
| "is_up (Tcp_resolve t) = True"
| "is_up (Tcp_connect ep t) = True"
| "is_up (Udp_resolve pl n a p) = True"
| "is_up op = False"

fun is_down :: "async_op \<Rightarrow> bool" where
  "is_down In_write = True"
| "is_down Out_read = True"
| "is_down Udp_read = True"
| "is_down op = False"

fun is_closer :: "async_op \<Rightarrow> bool" where
  "is_closer Ssl_shutdown = True"
| "is_closer Shutdown_timer = True"
| "is_closer op = False"

definition ups :: "ServerSession \<Rightarrow> (async_op \<times> completion option) list" where
  "ups s = filter (\<lambda>p. is_up (fst p)) (pending s)"

definition downs :: "ServerSession \<Rightarrow> (async_op \<times> completion option) list" where
  "downs s = filter (\<lambda>p. is_down (fst p)) (pending s)"

definition closers :: "ServerSession \<Rightarrow> (async_op \<times> completion option) list" where
  "closers s = filter (\<lambda>p. is_closer (fst p)) (pending s)"

lemma abort_on_fst [simp]: "fst (abort_on obj p) = fst p"
  by (simp add: abort_on_def)

lemma tokens_simps [simp]:
  "ups (start_op op s) = ups s @ (if is_up op then [(op, None)] else [])"
  "downs (start_op op s) = downs s @ (if is_down op then [(op, None)] else [])"
  "ups (cancel_io obj s) = map (abort_on obj) (ups s)"
  "downs (cancel_io obj s) = map (abort_on obj) (downs s)"
  "closers (start_op op s) = closers s @ (if is_closer op then [(op, None)] else [])"
  "closers (cancel_io obj s) = map (abort_on obj) (closers s)"
  by (simp_all add: ups_def downs_def closers_def start_op_def cancel_io_def filter_map comp_def)

text \<open>The operations allowed as the one token of a direction, by the state of the session.\<close>

fun handshake_op :: "async_op \<Rightarrow> bool" where
  "handshake_op Handshake = True"
| "handshake_op Plain_http_write = True"
| "handshake_op Bootstrap_read = True"
| "handshake_op In_read = True"
| "handshake_op (Tcp_resolve t) = True"
| "handshake_op (Tcp_connect ep t) = True"
| "handshake_op op = False"

fun forward_up :: "async_op \<Rightarrow> bool" where
  "forward_up In_read = True"
| "forward_up (Out_write n acc) = True"
| "forward_up op = False"

fun forward_down :: "async_op \<Rightarrow> bool" where
  "forward_down Out_read = True"
| "forward_down In_write = True"
| "forward_down op = False"

fun udp_up :: "async_op \<Rightarrow> bool" where
  "udp_up In_read = True"
| "udp_up (Udp_resolve pl n a p) = True"
| "udp_up (Udp_write ep n) = True"
| "udp_up op = False"

fun udp_down :: "async_op \<Rightarrow> bool" where
  "udp_down Udp_read = True"
| "udp_down In_write = True"
| "udp_down op = False"

fun is_udp_resolve :: "async_op \<Rightarrow> bool" where
  "is_udp_resolve (Udp_resolve pl n a p) = True"
| "is_udp_resolve op = False"

fun is_tcp_connect :: "async_op \<Rightarrow> bool" where
  "is_tcp_connect (Tcp_connect ep t) = True"
| "is_tcp_connect op = False"

fun is_write :: "async_op \<Rightarrow> bool" where
  "is_write In_write = True"
| "is_write (Out_write n acc) = True"
| "is_write op = False"

definition token :: "(async_op \<Rightarrow> bool) \<Rightarrow> bool \<Rightarrow> (async_op \<times> completion option) list \<Rightarrow> bool" where
  "token P absent ps \<longleftrightarrow> (if absent then ps = [] else (\<exists>op c. ps = [(op, c)] \<and> P op))"

text \<open>The invariant on the operations in progress.  \<open>u\<close> and \<open>d\<close> say that the token of a direction is
  in the hands of the handler that is running.\<close>

definition tok_inv :: "bool \<Rightarrow> bool \<Rightarrow> ServerSession \<Rightarrow> bool" where
  "tok_inv u d s \<longleftrightarrow> (status s \<noteq> DESTROY \<longrightarrow> closers s = []) \<and>
     (case status s of
        HANDSHAKE \<Rightarrow> token handshake_op u (ups s) \<and> downs s = [] \<and> \<not> d \<and> in_open s \<and> \<not> udp_open s \<and>
          list_all (\<lambda>p. is_tcp_connect (fst p) \<longrightarrow> out_open s) (ups s)
      | FORWARD_TCP \<Rightarrow> token forward_up u (ups s) \<and> token forward_down d (downs s) \<and>
          in_open s \<and> out_open s
      | UDP_FORWARD \<Rightarrow> token udp_up u (ups s) \<and> token udp_down (d \<or> \<not> udp_open s) (downs s) \<and>
          (d \<longrightarrow> udp_open s) \<and> in_open s
      | DESTROY \<Rightarrow> (ups s = [] \<or> token (\<lambda>op. forward_up op \<or> udp_up op) False (ups s)) \<and> (u \<longrightarrow> ups s = []) \<and>
          (downs s = [] \<or> token (\<lambda>op. forward_down op \<or> udp_down op) False (downs s)) \<and> (d \<longrightarrow> downs s = []) \<and>
          (list_ex (\<lambda>p. is_udp_resolve (fst p)) (ups s) \<longrightarrow> downs s = []) \<and>
          list_all (\<lambda>p. is_write (fst p) \<longrightarrow> snd p \<noteq> None) (ups s @ downs s))"

section \<open>Frame lemmas\<close>

lemma ups_update [simp]:
  "ups (s\<lparr>status := x_status\<rparr>) = ups s"
  "ups (s\<lparr>bootstrap_mode := x_bootstrap_mode\<rparr>) = ups s"
  "ups (s\<lparr>external_front_handoff := x_external_front_handoff\<rparr>) = ups s"
  "ups (s\<lparr>trusted_front_bootstrap_buffer := x_trusted_front_bootstrap_buffer\<rparr>) = ups s"
  "ups (s\<lparr>connection_slot_acquired := x_connection_slot_acquired\<rparr>) = ups s"
  "ups (s\<lparr>fallback_slot_acquired := x_fallback_slot_acquired\<rparr>) = ups s"
  "ups (s\<lparr>auth_password := x_auth_password\<rparr>) = ups s"
  "ups (s\<lparr>in_read_size := x_in_read_size\<rparr>) = ups s"
  "ups (s\<lparr>out_read_size := x_out_read_size\<rparr>) = ups s"
  "ups (s\<lparr>udp_read_size := x_udp_read_size\<rparr>) = ups s"
  "ups (s\<lparr>in_write_data := x_in_write_data\<rparr>) = ups s"
  "ups (s\<lparr>out_write_data := x_out_write_data\<rparr>) = ups s"
  "ups (s\<lparr>udp_write_data := x_udp_write_data\<rparr>) = ups s"
  "ups (s\<lparr>recv_len := x_recv_len\<rparr>) = ups s"
  "ups (s\<lparr>sent_len := x_sent_len\<rparr>) = ups s"
  "ups (s\<lparr>out_write_buf := x_out_write_buf\<rparr>) = ups s"
  "ups (s\<lparr>udp_data_buf := x_udp_data_buf\<rparr>) = ups s"
  "ups (s\<lparr>in_endpoint := x_in_endpoint\<rparr>) = ups s"
  "ups (s\<lparr>in_open := x_in_open\<rparr>) = ups s"
  "ups (s\<lparr>out_open := x_out_open\<rparr>) = ups s"
  "ups (s\<lparr>udp_open := x_udp_open\<rparr>) = ups s"
  by (simp_all add: ups_def)

lemma downs_update [simp]:
  "downs (s\<lparr>status := x_status\<rparr>) = downs s"
  "downs (s\<lparr>bootstrap_mode := x_bootstrap_mode\<rparr>) = downs s"
  "downs (s\<lparr>external_front_handoff := x_external_front_handoff\<rparr>) = downs s"
  "downs (s\<lparr>trusted_front_bootstrap_buffer := x_trusted_front_bootstrap_buffer\<rparr>) = downs s"
  "downs (s\<lparr>connection_slot_acquired := x_connection_slot_acquired\<rparr>) = downs s"
  "downs (s\<lparr>fallback_slot_acquired := x_fallback_slot_acquired\<rparr>) = downs s"
  "downs (s\<lparr>auth_password := x_auth_password\<rparr>) = downs s"
  "downs (s\<lparr>in_read_size := x_in_read_size\<rparr>) = downs s"
  "downs (s\<lparr>out_read_size := x_out_read_size\<rparr>) = downs s"
  "downs (s\<lparr>udp_read_size := x_udp_read_size\<rparr>) = downs s"
  "downs (s\<lparr>in_write_data := x_in_write_data\<rparr>) = downs s"
  "downs (s\<lparr>out_write_data := x_out_write_data\<rparr>) = downs s"
  "downs (s\<lparr>udp_write_data := x_udp_write_data\<rparr>) = downs s"
  "downs (s\<lparr>recv_len := x_recv_len\<rparr>) = downs s"
  "downs (s\<lparr>sent_len := x_sent_len\<rparr>) = downs s"
  "downs (s\<lparr>out_write_buf := x_out_write_buf\<rparr>) = downs s"
  "downs (s\<lparr>udp_data_buf := x_udp_data_buf\<rparr>) = downs s"
  "downs (s\<lparr>in_endpoint := x_in_endpoint\<rparr>) = downs s"
  "downs (s\<lparr>in_open := x_in_open\<rparr>) = downs s"
  "downs (s\<lparr>out_open := x_out_open\<rparr>) = downs s"
  "downs (s\<lparr>udp_open := x_udp_open\<rparr>) = downs s"
  by (simp_all add: downs_def)

lemma closers_update [simp]:
  "closers (s\<lparr>status := x_status\<rparr>) = closers s"
  "closers (s\<lparr>bootstrap_mode := x_bootstrap_mode\<rparr>) = closers s"
  "closers (s\<lparr>external_front_handoff := x_external_front_handoff\<rparr>) = closers s"
  "closers (s\<lparr>trusted_front_bootstrap_buffer := x_trusted_front_bootstrap_buffer\<rparr>) = closers s"
  "closers (s\<lparr>connection_slot_acquired := x_connection_slot_acquired\<rparr>) = closers s"
  "closers (s\<lparr>fallback_slot_acquired := x_fallback_slot_acquired\<rparr>) = closers s"
  "closers (s\<lparr>auth_password := x_auth_password\<rparr>) = closers s"
  "closers (s\<lparr>in_read_size := x_in_read_size\<rparr>) = closers s"
  "closers (s\<lparr>out_read_size := x_out_read_size\<rparr>) = closers s"
  "closers (s\<lparr>udp_read_size := x_udp_read_size\<rparr>) = closers s"
  "closers (s\<lparr>in_write_data := x_in_write_data\<rparr>) = closers s"
  "closers (s\<lparr>out_write_data := x_out_write_data\<rparr>) = closers s"
  "closers (s\<lparr>udp_write_data := x_udp_write_data\<rparr>) = closers s"
  "closers (s\<lparr>recv_len := x_recv_len\<rparr>) = closers s"
  "closers (s\<lparr>sent_len := x_sent_len\<rparr>) = closers s"
  "closers (s\<lparr>out_write_buf := x_out_write_buf\<rparr>) = closers s"
  "closers (s\<lparr>udp_data_buf := x_udp_data_buf\<rparr>) = closers s"
  "closers (s\<lparr>in_endpoint := x_in_endpoint\<rparr>) = closers s"
  "closers (s\<lparr>in_open := x_in_open\<rparr>) = closers s"
  "closers (s\<lparr>out_open := x_out_open\<rparr>) = closers s"
  "closers (s\<lparr>udp_open := x_udp_open\<rparr>) = closers s"
  by (simp_all add: closers_def)

lemma start_op_fields [simp]:
  "status (start_op op s) = status s"
  "bootstrap_mode (start_op op s) = bootstrap_mode s"
  "external_front_handoff (start_op op s) = external_front_handoff s"
  "trusted_front_bootstrap_buffer (start_op op s) = trusted_front_bootstrap_buffer s"
  "connection_slot_acquired (start_op op s) = connection_slot_acquired s"
  "fallback_slot_acquired (start_op op s) = fallback_slot_acquired s"
  "auth_password (start_op op s) = auth_password s"
  "in_read_size (start_op op s) = in_read_size s"
  "out_read_size (start_op op s) = out_read_size s"
  "udp_read_size (start_op op s) = udp_read_size s"
  "in_write_data (start_op op s) = in_write_data s"
  "out_write_data (start_op op s) = out_write_data s"
  "udp_write_data (start_op op s) = udp_write_data s"
  "recv_len (start_op op s) = recv_len s"
  "sent_len (start_op op s) = sent_len s"
  "out_write_buf (start_op op s) = out_write_buf s"
  "udp_data_buf (start_op op s) = udp_data_buf s"
  "in_endpoint (start_op op s) = in_endpoint s"
  "in_open (start_op op s) = in_open s"
  "out_open (start_op op s) = out_open s"
  "udp_open (start_op op s) = udp_open s"
  by (simp_all add: start_op_def)

lemma cancel_io_fields [simp]:
  "status (cancel_io obj s) = status s"
  "bootstrap_mode (cancel_io obj s) = bootstrap_mode s"
  "external_front_handoff (cancel_io obj s) = external_front_handoff s"
  "trusted_front_bootstrap_buffer (cancel_io obj s) = trusted_front_bootstrap_buffer s"
  "connection_slot_acquired (cancel_io obj s) = connection_slot_acquired s"
  "fallback_slot_acquired (cancel_io obj s) = fallback_slot_acquired s"
  "auth_password (cancel_io obj s) = auth_password s"
  "in_read_size (cancel_io obj s) = in_read_size s"
  "out_read_size (cancel_io obj s) = out_read_size s"
  "udp_read_size (cancel_io obj s) = udp_read_size s"
  "in_write_data (cancel_io obj s) = in_write_data s"
  "out_write_data (cancel_io obj s) = out_write_data s"
  "udp_write_data (cancel_io obj s) = udp_write_data s"
  "recv_len (cancel_io obj s) = recv_len s"
  "sent_len (cancel_io obj s) = sent_len s"
  "out_write_buf (cancel_io obj s) = out_write_buf s"
  "udp_data_buf (cancel_io obj s) = udp_data_buf s"
  "in_endpoint (cancel_io obj s) = in_endpoint s"
  "in_open (cancel_io obj s) = in_open s"
  "out_open (cancel_io obj s) = out_open s"
  "udp_open (cancel_io obj s) = udp_open s"
  by (simp_all add: cancel_io_def)

lemma token_simps [simp]:
  "token P True ps \<longleftrightarrow> ps = []"
  "token P False [] = False"
  "token P False [(op, c)] \<longleftrightarrow> P op"
  "token P False (p # q # ps) = False"
  by (simp_all add: token_def)

lemma token_map:
  assumes "\<And>p. fst (f p) = fst p"
  shows "token P b (map f ps) = token P b ps"
proof (cases "b \<or> length ps \<noteq> 1")
  case True
  then show ?thesis by (auto simp: token_def dest: arg_cong [where f = length])
next
  case False
  then obtain op c where "ps = [(op, c)]" by (cases ps) auto
  moreover obtain c' where "f (op, c) = (op, c')" using assms [of "(op, c)"] by (cases "f (op, c)") auto
  ultimately show ?thesis using False by simp
qed

lemmas starts_defs = in_async_read_def trusted_front_ingress_async_read_def in_async_write_buffer_def
  out_async_read_def out_async_write_buffer_def udp_async_read_def udp_async_write_def

lemmas closing_defs = cancel_runtime_io_def close_outbound_sockets_def close_in_socket_def
  shutdown_inbound_tls_def Let_def

section \<open>The handlers keep the tokens\<close>

text \<open>Closing down: every write is aborted unless its completion is queued already.\<close>

definition closed_down :: "ServerSession \<Rightarrow> ServerSession" where
  "closed_down s = shutdown_inbound_tls (close_outbound_sockets (cancel_runtime_io s))"

definition abort_set :: "io_object set \<Rightarrow> async_op \<times> completion option \<Rightarrow> async_op \<times> completion option" where
  "abort_set S p = (if op_object (fst p) \<in> S \<and> snd p = None then (fst p, Some Aborted) else p)"

lemma abort_set_simps [simp]:
  "abort_on obj = abort_set {obj}"
  "abort_set S (abort_set T p) = abort_set (S \<union> T) p"
  "fst (abort_set S p) = fst p"
  by (auto simp: abort_on_def abort_set_def)

definition closing_objects :: "ServerSession \<Rightarrow> io_object set" where
  "closing_objects s = {Tcp_resolver, Udp_resolver} \<union> (if out_open s then {Out_socket} else {}) \<union>
     (if udp_open s then {Udp_socket} else {}) \<union> (if in_open s then {In_socket} else {}) \<union>
     (if in_open s \<and> bootstrap_mode s \<noteq> TrustedFrontIngress then {Timer} else {})"

lemma closed_down_entries:
  "ups (closed_down s) = map (abort_set (closing_objects s)) (ups s)"
  "downs (closed_down s) = map (abort_set (closing_objects s)) (downs s)"
  by (auto simp: closed_down_def closing_defs closing_objects_def comp_def insert_commute Un_commute
      simp del: abort_set_simps(1) simp: abort_set_simps(1))

lemma closed_down_status [simp]: "status (closed_down s) = status s"
  by (simp add: closed_down_def closing_defs)

lemma destroy_eq:
  "fst (destroy e (s, w)) =
     (if status s = DESTROY then s
      else closed_down (s\<lparr>status := DESTROY,
        connection_slot_acquired := fst (release_slots (se_lifecycle e) (in_endpoint s)
           (connection_slot_acquired s) (fallback_slot_acquired s) w),
        fallback_slot_acquired := fst (snd (release_slots (se_lifecycle e) (in_endpoint s)
           (connection_slot_acquired s) (fallback_slot_acquired s) w))\<rparr>))"
  by (simp add: destroy_def closed_down_def Let_def split_beta)

lemma closing_objects_update [simp]:
  "closing_objects (s\<lparr>status := a, connection_slot_acquired := b, fallback_slot_acquired := c\<rparr>) = closing_objects s"
  by (simp add: closing_objects_def)

lemma token_list_all: "token P False ps \<Longrightarrow> (\<And>op c. P op \<Longrightarrow> Q (op, c)) \<Longrightarrow> list_all Q ps"
  by (auto simp: token_def)

lemma writes_aborted:
  assumes "token P b ps" and "\<And>op. P op \<Longrightarrow> is_write op \<Longrightarrow> op_object op \<in> S"
  shows "list_all (\<lambda>p. is_write (fst p) \<longrightarrow> snd p \<noteq> None) (map (abort_set S) ps)"
  using assms by (auto simp: token_def abort_set_def split: if_splits)

lemma token_mono: "token P b ps \<Longrightarrow> (\<And>op. P op \<Longrightarrow> Q op) \<Longrightarrow> token Q b ps"
  by (auto simp: token_def)

lemma token_not_ex: "token P b ps \<Longrightarrow> (\<And>op. P op \<Longrightarrow> \<not> Q op) \<Longrightarrow> \<not> list_ex (\<lambda>p. Q (fst p)) ps"
  by (auto simp: token_def split: if_splits)

lemma token_absent_or: "token P b ps \<longleftrightarrow> (b \<and> ps = [] \<or> \<not> b \<and> token P False ps)"
  by (simp add: token_def)

lemma write_objects:
  "handshake_op op \<Longrightarrow> is_write op \<Longrightarrow> op_object op \<in> {}"
  "forward_up op \<Longrightarrow> is_write op \<Longrightarrow> op_object op \<in> {Out_socket}"
  "udp_up op \<Longrightarrow> is_write op \<Longrightarrow> op_object op \<in> {}"
  "forward_down op \<Longrightarrow> is_write op \<Longrightarrow> op_object op \<in> {In_socket}"
  "udp_down op \<Longrightarrow> is_write op \<Longrightarrow> op_object op \<in> {In_socket}"
  by (cases op; simp)+

lemma closing_aborts_writes:
  assumes "tok_inv u d s" and "status s \<noteq> DESTROY"
  shows "list_all (\<lambda>p. is_write (fst p) \<longrightarrow> snd p \<noteq> None) (map (abort_set (closing_objects s)) (ups s @ downs s))"
proof -
  have open_objs: "in_open s \<Longrightarrow> In_socket \<in> closing_objects s" "out_open s \<Longrightarrow> Out_socket \<in> closing_objects s"
    by (auto simp: closing_objects_def)
  obtain P Q b c where "token P b (ups s)" "token Q c (downs s)"
    and "\<And>op. P op \<Longrightarrow> is_write op \<Longrightarrow> op_object op \<in> closing_objects s"
    and "\<And>op. Q op \<Longrightarrow> is_write op \<Longrightarrow> op_object op \<in> closing_objects s"
  proof (cases "status s")
    case HANDSHAKE
    then show ?thesis using assms(1) write_objects(1) that [of handshake_op u "\<lambda>_. False" True]
      by (auto simp: tok_inv_def)
  next
    case FORWARD_TCP
    then show ?thesis using assms(1) write_objects(2,4) open_objs that [of forward_up u forward_down d]
      by (auto simp: tok_inv_def)
  next
    case UDP_FORWARD
    then show ?thesis
      using assms(1) write_objects(3,5) open_objs that [of udp_up u udp_down "d \<or> \<not> udp_open s"]
      by (auto simp: tok_inv_def)
  qed (use assms(2) in simp)
  then show ?thesis unfolding map_append list_all_append by (blast intro: writes_aborted)
qed

lemma tok_inv_tokens:
  assumes "tok_inv u d s" and "u \<or> d"
  shows "ups s = [] \<or> token (\<lambda>op. forward_up op \<or> udp_up op) False (ups s)"
    and "downs s = [] \<or> token (\<lambda>op. forward_down op \<or> udp_down op) False (downs s)"
    and "u \<Longrightarrow> ups s = []" and "d \<Longrightarrow> downs s = []"
  using assms by (cases "status s"; auto simp: tok_inv_def token_def split: if_splits)+

lemma list_ex_map_fst: "(\<And>p. fst (f p) = fst p) \<Longrightarrow> list_ex (\<lambda>p. P (fst p)) (map f ps) = list_ex (\<lambda>p. P (fst p)) ps"
  by (induction ps) auto

lemma closed_down_tok:
  assumes "tok_inv u d s" and "u \<or> d" and "status s \<noteq> DESTROY"
    and "s' = s\<lparr>status := DESTROY, connection_slot_acquired := x, fallback_slot_acquired := y\<rparr>"
  shows "tok_inv False False (closed_down s')"
proof -
  let ?f = "abort_set (closing_objects s)"
  have ent: "ups (closed_down s') = map ?f (ups s)" "downs (closed_down s') = map ?f (downs s)"
    and st: "status s' = DESTROY"
    using assms(4) by (simp_all add: closed_down_entries)
  have "list_ex (\<lambda>p. is_udp_resolve (fst p)) (map ?f (ups s)) \<longrightarrow> downs s = []"
    using tok_inv_tokens(3,4) [OF assms(1,2)] assms(2) by (auto simp: list_ex_map_fst)
  then show ?thesis
    using tok_inv_tokens(1,2) [OF assms(1,2)] closing_aborts_writes [OF assms(1,3)]
    by (simp add: tok_inv_def st ent token_map)
qed

lemma destroy_tok:
  assumes "tok_inv u d s" and "u \<or> d"
  shows "tok_inv False False (fst (destroy e (s, w)))"
proof (cases "status s = DESTROY")
  case True
  with assms show ?thesis by (auto simp: destroy_eq tok_inv_def)
next
  case False
  then show ?thesis using closed_down_tok [OF assms] by (simp add: destroy_eq)
qed

lemma tok_inv_update [simp]:
  "tok_inv u d (s\<lparr>bootstrap_mode := x_bootstrap_mode\<rparr>) = tok_inv u d s"
  "tok_inv u d (s\<lparr>external_front_handoff := x_external_front_handoff\<rparr>) = tok_inv u d s"
  "tok_inv u d (s\<lparr>trusted_front_bootstrap_buffer := x_trusted_front_bootstrap_buffer\<rparr>) = tok_inv u d s"
  "tok_inv u d (s\<lparr>connection_slot_acquired := x_connection_slot_acquired\<rparr>) = tok_inv u d s"
  "tok_inv u d (s\<lparr>fallback_slot_acquired := x_fallback_slot_acquired\<rparr>) = tok_inv u d s"
  "tok_inv u d (s\<lparr>auth_password := x_auth_password\<rparr>) = tok_inv u d s"
  "tok_inv u d (s\<lparr>in_read_size := x_in_read_size\<rparr>) = tok_inv u d s"
  "tok_inv u d (s\<lparr>out_read_size := x_out_read_size\<rparr>) = tok_inv u d s"
  "tok_inv u d (s\<lparr>udp_read_size := x_udp_read_size\<rparr>) = tok_inv u d s"
  "tok_inv u d (s\<lparr>in_write_data := x_in_write_data\<rparr>) = tok_inv u d s"
  "tok_inv u d (s\<lparr>out_write_data := x_out_write_data\<rparr>) = tok_inv u d s"
  "tok_inv u d (s\<lparr>udp_write_data := x_udp_write_data\<rparr>) = tok_inv u d s"
  "tok_inv u d (s\<lparr>recv_len := x_recv_len\<rparr>) = tok_inv u d s"
  "tok_inv u d (s\<lparr>sent_len := x_sent_len\<rparr>) = tok_inv u d s"
  "tok_inv u d (s\<lparr>out_write_buf := x_out_write_buf\<rparr>) = tok_inv u d s"
  "tok_inv u d (s\<lparr>udp_data_buf := x_udp_data_buf\<rparr>) = tok_inv u d s"
  "tok_inv u d (s\<lparr>in_endpoint := x_in_endpoint\<rparr>) = tok_inv u d s"
  by (simp_all add: tok_inv_def cong: Status.case_cong)

text \<open>Handing the token back: the operation a handler may start, by the state of the session.\<close>

definition up_ok :: "ServerSession \<Rightarrow> async_op \<Rightarrow> bool" where
  "up_ok s op \<longleftrightarrow>
     (case status s of
        HANDSHAKE \<Rightarrow> handshake_op op \<and> (is_tcp_connect op \<longrightarrow> out_open s)
      | FORWARD_TCP \<Rightarrow> forward_up op
      | UDP_FORWARD \<Rightarrow> udp_up op
      | DESTROY \<Rightarrow> False)"

definition down_ok :: "ServerSession \<Rightarrow> async_op \<Rightarrow> bool" where
  "down_ok s op \<longleftrightarrow>
     (case status s of
        FORWARD_TCP \<Rightarrow> forward_down op
      | UDP_FORWARD \<Rightarrow> udp_down op
      | _ \<Rightarrow> False)"

lemma op_kinds:
  "handshake_op op \<Longrightarrow> is_up op \<and> \<not> is_down op \<and> \<not> is_closer op"
  "forward_up op \<Longrightarrow> is_up op \<and> \<not> is_down op \<and> \<not> is_closer op"
  "udp_up op \<Longrightarrow> is_up op \<and> \<not> is_down op \<and> \<not> is_closer op"
  "forward_down op \<Longrightarrow> is_down op \<and> \<not> is_up op \<and> \<not> is_closer op"
  "udp_down op \<Longrightarrow> is_down op \<and> \<not> is_up op \<and> \<not> is_closer op"
  by (cases op; simp)+

lemma start_up_tok: "tok_inv True False s \<Longrightarrow> up_ok s op \<Longrightarrow> tok_inv False False (start_op op s)"
  by (cases "status s") (auto simp: tok_inv_def up_ok_def dest: op_kinds)

lemma start_down_tok: "tok_inv False True s \<Longrightarrow> down_ok s op \<Longrightarrow> tok_inv False False (start_op op s)"
  by (cases "status s") (auto simp: tok_inv_def down_ok_def dest: op_kinds)

lemma idle_destroyed: "tok_inv u d s \<Longrightarrow> status s = DESTROY \<Longrightarrow> tok_inv False False s"
  by (auto simp: tok_inv_def)

lemma try_parse_udp_cases:
  "try_parse_udp_packet s = (DestroySession, None, s) \<or>
   try_parse_udp_packet s = (WaitForMoreData, None, s) \<or>
   (\<exists>r x. try_parse_udp_packet s = (Proceed, Some r, s\<lparr>udp_data_buf := x\<rparr>))"
  by (auto simp: try_parse_udp_packet_def split: option.split)

lemma udp_sent_tok:
  assumes "tok_inv True False s" and "status s = UDP_FORWARD \<or> status s = DESTROY"
  shows "tok_inv False False (fst (udp_sent e (s, w)))"
proof (cases "status s = UDP_FORWARD")
  case True
  consider "try_parse_udp_packet s = (DestroySession, None, s)"
    | "try_parse_udp_packet s = (WaitForMoreData, None, s)"
    | r x where "try_parse_udp_packet s = (Proceed, Some r, s\<lparr>udp_data_buf := x\<rparr>)"
    using try_parse_udp_cases [of s] by blast
  then show ?thesis
    using True assms(1)
    by cases (auto simp: udp_sent_def starts_defs up_ok_def intro: destroy_tok start_up_tok)
next
  case False
  with assms show ?thesis by (auto simp: udp_sent_def intro: idle_destroyed)
qed

lemma in_sent_tok: "tok_inv False True s \<Longrightarrow> tok_inv False False (in_sent s)"
  by (cases "status s")
     (auto simp: in_sent_def starts_defs down_ok_def intro: start_down_tok idle_destroyed, auto simp: tok_inv_def)

lemma out_recv_tok:
  "tok_inv False True s \<Longrightarrow> status s = FORWARD_TCP \<or> status s = DESTROY \<Longrightarrow> tok_inv False False (out_recv d s)"
  by (auto simp: out_recv_def starts_defs down_ok_def Let_def intro: start_down_tok idle_destroyed)

lemma udp_recv_tok:
  "tok_inv False True s \<Longrightarrow> status s = UDP_FORWARD \<or> status s = DESTROY \<Longrightarrow> tok_inv False False (udp_recv d ep s)"
  by (auto simp: udp_recv_def starts_defs down_ok_def Let_def intro: start_down_tok idle_destroyed)

lemma out_sent_tok:
  "tok_inv True False s \<Longrightarrow> status s = FORWARD_TCP \<or> status s = DESTROY \<Longrightarrow> tok_inv False False (out_sent s)"
  by (auto simp: out_sent_def starts_defs up_ok_def intro: start_up_tok idle_destroyed)

lemma tcp_connected_tok:
  assumes "tok_inv True False s" and "status s = HANDSHAKE" and "out_open s"
  shows "tok_inv False False (tcp_connected s)"
  using assms by (auto simp: tok_inv_def tcp_connected_def starts_defs Let_def)

lemma tcp_resolved_tok:
  assumes "tok_inv True False s" and "status s = HANDSHAKE"
  shows "tok_inv False False (fst (tcp_resolved e ok t c (s, w)))"
proof -
  have "tok_inv False False (start_op (Tcp_connect ep t) (s\<lparr>out_open := True\<rparr>))" for ep
    using assms by (auto simp: tok_inv_def)
  then show ?thesis
    using assms destroy_tok [OF assms(1), of e w]
    by (auto simp: tcp_resolved_def split: completion.split option.split)
qed

lemma ensure_open_cases:
  "ensure_udp_socket_open e ok (s, w) =
     (if udp_open s then (s, w) else if ok then (udp_async_read (s\<lparr>udp_open := True\<rparr>), w) else destroy e (s, w))"
  by (simp add: ensure_udp_socket_open_def)

lemma destroy_udp_closed: "\<not> udp_open s \<Longrightarrow> \<not> udp_open (fst (destroy e (s, w)))"
  by (simp add: destroy_def Let_def split_beta closing_defs)

lemma dispatch_udp_tok:
  assumes "tok_inv True False s" and "status s = UDP_FORWARD \<or> status s = DESTROY \<and> downs s = []"
  shows "tok_inv False False (fst (dispatch_udp_payload e ok pl n ep (s, w)))"
proof -
  consider "udp_open s" | "\<not> udp_open s" "ok" | "\<not> udp_open s" "\<not> ok" by blast
  then show ?thesis
  proof cases
    case 1
    with assms show ?thesis
      by (auto simp: dispatch_udp_payload_def ensure_open_cases starts_defs tok_inv_def)
  next
    case 2
    with assms show ?thesis
      by (auto simp: dispatch_udp_payload_def ensure_open_cases starts_defs tok_inv_def)
  next
    case 3
    with destroy_tok [OF assms(1), of e w] destroy_udp_closed [of s e w] show ?thesis
      by (simp add: dispatch_udp_payload_def ensure_open_cases split_beta)
  qed
qed

lemma udp_resolved_tok:
  assumes "tok_inv True False s" and "status s = UDP_FORWARD \<or> status s = DESTROY \<and> downs s = []"
  shows "tok_inv False False (fst (udp_resolved e ok pl n c (s, w)))"
  using destroy_tok [OF assms(1), of e w] dispatch_udp_tok [OF assms]
  by (auto simp: udp_resolved_def split: completion.split option.split)

subsection \<open>The first bytes\<close>

lemma begin_tcp_relay_tok:
  assumes "tok_inv True False s" and "status s = HANDSHAKE"
  shows "tok_inv False False (fst (snd (begin_tcp_relay e t b (s, w))))"
proof -
  have "tok_inv False False (start_op (Tcp_resolve t) (s\<lparr>fallback_slot_acquired := x\<rparr>))"
    "tok_inv False False (start_op (Tcp_resolve t) s)"
    "tok_inv False False (fst (destroy e (s\<lparr>fallback_slot_acquired := x\<rparr>, w')))" for x w'
    using assms by (auto intro!: start_up_tok destroy_tok simp: up_ok_def)
  then show ?thesis by (auto simp: begin_tcp_relay_def Let_def split: prod.split)
qed

lemma execute_plan_tok:
  assumes "tok_inv True False s" and "status s = HANDSHAKE"
  shows "tok_inv False False (fst (execute_plan e plan (s, w)))"
proof -
  have "tok_inv True False (s\<lparr>out_write_buf := x, status := UDP_FORWARD, udp_data_buf := y\<rparr>)" for x y
    using assms by (auto simp: tok_inv_def)
  then show ?thesis
    using assms
    by (auto simp: execute_plan_def start_udp_forward_def connect_outbound_def Let_def
        intro!: udp_sent_tok begin_tcp_relay_tok destroy_tok [of True])
qed

lemma select_ingress_cases:
  "select_ingress e s = select_default \<or> (\<exists>fc. select_ingress e s = select_external_front (se_config e) fc)"
  by (auto simp: select_ingress_def split: option.split)

lemma selector_ingress_total:
  "\<exists>g. selector_evaluate (se_config e) auth (select_ingress e s) ep alpn data = Inr g"
  using select_ingress_cases [of e s] selector_total by metis

lemma handle_payload_tok:
  assumes "tok_inv True False s" and "status s = HANDSHAKE"
  shows "tok_inv False False (fst (handle_handshake_payload e data (s, w)))"
proof -
  obtain g where "selector_evaluate (se_config e) (map_option (\<lambda>a pw. au_auth a pw w) (se_auth e))
      (select_ingress e s) (in_endpoint s) (se_alpn e) data = Inr g"
    using selector_ingress_total by blast
  with assms show ?thesis
    by (auto simp: handle_handshake_payload_def intro!: execute_plan_tok split: prod.split)
qed

lemma in_recv_tok:
  assumes "tok_inv True False s"
  shows "tok_inv False False (fst (in_recv e data (s, w)))"
  using assms
  by (cases "status s")
     (auto simp: in_recv_def Let_def starts_defs up_ok_def
       intro!: handle_payload_tok udp_sent_tok start_up_tok intro: idle_destroyed)

lemma bootstrap_read_tok:
  assumes "tok_inv True False s" and "status s = HANDSHAKE"
  shows "tok_inv False False (fst (trusted_front_ingress_read e data (s, w)))"
  using assms
  by (auto simp: trusted_front_ingress_read_def set_external_front_handoff_def Let_def starts_defs up_ok_def
      intro!: handle_payload_tok start_up_tok destroy_tok [of True])

lemma handshake_done_tok:
  assumes "tok_inv True False s" and "status s = HANDSHAKE"
  shows "tok_inv False False (fst (handshake_done e c (s, w)))"
  using assms
  by (auto simp: handshake_done_def starts_defs up_ok_def intro!: start_up_tok destroy_tok [of True])

lemma fresh_tok: "fresh_session s \<Longrightarrow> tok_inv True False s \<and> status s = HANDSHAKE"
  by (auto simp: fresh_session_def new_session_def tok_inv_def ups_def downs_def closers_def)

lemma start_tok:
  assumes "fresh_session s"
  shows "tok_inv False False (fst (start e remote (s, w)))"
  using fresh_tok [OF assms]
  by (auto simp: start_def Let_def starts_defs up_ok_def
      intro!: start_up_tok destroy_tok [of True] split: option.split BootstrapMode.split)

subsection \<open>Every step\<close>

text \<open>The state in which the handler of a token runs.\<close>

lemma tok_inv_take_up:
  assumes "tok_inv False False s" and "i < length (pending s)" and "pending s ! i = (op, c)" and "is_up op"
  shows "tok_inv True False (s\<lparr>pending := remove_nth i (pending s)\<rparr>)"
    and "ups s = [(op, c)]"
    and "case status s of HANDSHAKE \<Rightarrow> handshake_op op \<and> (is_tcp_connect op \<longrightarrow> out_open s)
      | FORWARD_TCP \<Rightarrow> forward_up op | UDP_FORWARD \<Rightarrow> udp_up op
      | DESTROY \<Rightarrow> (forward_up op \<or> udp_up op) \<and> (is_udp_resolve op \<longrightarrow> downs s = [])"
proof -
  have "(op, c) \<in> set (ups s)" using assms(2-4) by (auto simp: ups_def) (metis nth_mem)
  moreover from this assms(1) obtain x where x: "ups s = [x]"
    by (cases "status s") (auto simp: tok_inv_def token_def)
  ultimately show u: "ups s = [(op, c)]" by simp
  have r: "ups (s\<lparr>pending := remove_nth i (pending s)\<rparr>) = []"
    using remove_nth_filter(2) [of i "pending s" "\<lambda>p. is_up (fst p)"] x assms(2-4) by (simp add: ups_def)
  have "\<not> is_closer op" using assms(4) by (cases op) auto
  then have cl: "closers (s\<lparr>pending := remove_nth i (pending s)\<rparr>) = closers s"
    using remove_nth_filter(1) [of i "pending s" "\<lambda>p. is_closer (fst p)"] assms(2,3) by (simp add: closers_def)
  have "\<not> is_down op" using assms(4) by (cases op) auto
  then have d: "downs (s\<lparr>pending := remove_nth i (pending s)\<rparr>) = downs s"
    using remove_nth_filter(1) [of i "pending s" "\<lambda>p. is_down (fst p)"] assms(2,3) by (simp add: downs_def)
  show "tok_inv True False (s\<lparr>pending := remove_nth i (pending s)\<rparr>)"
    using assms(1) r d cl by (cases "status s") (auto simp: tok_inv_def)
  show "case status s of HANDSHAKE \<Rightarrow> handshake_op op \<and> (is_tcp_connect op \<longrightarrow> out_open s)
      | FORWARD_TCP \<Rightarrow> forward_up op | UDP_FORWARD \<Rightarrow> udp_up op
      | DESTROY \<Rightarrow> (forward_up op \<or> udp_up op) \<and> (is_udp_resolve op \<longrightarrow> downs s = [])"
    using assms(1) u by (cases "status s") (auto simp: tok_inv_def)
qed

lemma tok_inv_take_down:
  assumes "tok_inv False False s" and "i < length (pending s)" and "pending s ! i = (op, c)" and "is_down op"
  shows "tok_inv False True (s\<lparr>pending := remove_nth i (pending s)\<rparr>)"
    and "downs s = [(op, c)]"
    and "case status s of HANDSHAKE \<Rightarrow> False
      | FORWARD_TCP \<Rightarrow> forward_down op | UDP_FORWARD \<Rightarrow> udp_down op
      | DESTROY \<Rightarrow> forward_down op \<or> udp_down op"
proof -
  have "(op, c) \<in> set (downs s)" using assms(2-4) by (auto simp: downs_def) (metis nth_mem)
  moreover from this assms(1) obtain x where x: "downs s = [x]"
    by (cases "status s") (auto simp: tok_inv_def token_def split: if_splits)
  ultimately show u: "downs s = [(op, c)]" by simp
  have r: "downs (s\<lparr>pending := remove_nth i (pending s)\<rparr>) = []"
    using remove_nth_filter(2) [of i "pending s" "\<lambda>p. is_down (fst p)"] x assms(2-4) by (simp add: downs_def)
  have "\<not> is_closer op" using assms(4) by (cases op) auto
  then have cl: "closers (s\<lparr>pending := remove_nth i (pending s)\<rparr>) = closers s"
    using remove_nth_filter(1) [of i "pending s" "\<lambda>p. is_closer (fst p)"] assms(2,3) by (simp add: closers_def)
  have "\<not> is_up op" using assms(4) by (cases op) auto
  then have d: "ups (s\<lparr>pending := remove_nth i (pending s)\<rparr>) = ups s"
    using remove_nth_filter(1) [of i "pending s" "\<lambda>p. is_up (fst p)"] assms(2,3) by (simp add: ups_def)
  show "tok_inv False True (s\<lparr>pending := remove_nth i (pending s)\<rparr>)"
    using assms(1) r d cl u by (cases "status s") (auto simp: tok_inv_def token_def split: if_splits)
  show "case status s of HANDSHAKE \<Rightarrow> False
      | FORWARD_TCP \<Rightarrow> forward_down op | UDP_FORWARD \<Rightarrow> udp_down op
      | DESTROY \<Rightarrow> forward_down op \<or> udp_down op"
    using assms(1) u by (cases "status s") (auto simp: tok_inv_def token_def split: if_splits)
qed

lemma on_complete_up_tok:
  assumes "tok_inv True False s" and "is_up op"
    and "case status s of HANDSHAKE \<Rightarrow> handshake_op op \<and> (is_tcp_connect op \<longrightarrow> out_open s)
      | FORWARD_TCP \<Rightarrow> forward_up op | UDP_FORWARD \<Rightarrow> udp_up op
      | DESTROY \<Rightarrow> (forward_up op \<or> udp_up op) \<and> (is_udp_resolve op \<longrightarrow> downs s = [])"
  shows "tok_inv False False (fst (on_complete e ok op c (s, w)))"
proof -
  note dt = destroy_tok [OF assms(1), of e w, simplified]
  show ?thesis
  proof (cases op)
    case Handshake
    with assms show ?thesis by (cases "status s") (auto intro: handshake_done_tok)
  next
    case Bootstrap_read
    with assms dt show ?thesis by (cases "status s") (auto intro: bootstrap_read_tok split: completion.split)
  next
    case In_read
    with assms dt in_recv_tok [OF assms(1), of e _ w] show ?thesis by (auto split: completion.split)
  next
    case (Out_write n acc)
    with assms dt show ?thesis by (cases "status s") (auto intro: out_sent_tok)
  next
    case (Udp_write ep n)
    with assms dt show ?thesis by (cases "status s") (auto intro: udp_sent_tok)
  next
    case (Tcp_resolve t)
    with assms show ?thesis by (cases "status s") (auto intro: tcp_resolved_tok)
  next
    case (Tcp_connect ep t)
    with assms dt show ?thesis by (cases "status s") (auto intro: tcp_connected_tok)
  next
    case (Udp_resolve pl n a p)
    with assms show ?thesis by (cases "status s") (auto intro: udp_resolved_tok)
  qed (use assms(2) dt in auto)
qed

lemma on_complete_down_tok:
  assumes "tok_inv False True s" and "is_down op"
    and "case status s of HANDSHAKE \<Rightarrow> False
      | FORWARD_TCP \<Rightarrow> forward_down op | UDP_FORWARD \<Rightarrow> udp_down op
      | DESTROY \<Rightarrow> forward_down op \<or> udp_down op"
  shows "tok_inv False False (fst (on_complete e ok op c (s, w)))"
proof -
  note dt = destroy_tok [OF assms(1), of e w, simplified]
  show ?thesis
  proof (cases op)
    case In_write
    with assms dt show ?thesis by (auto intro: in_sent_tok)
  next
    case Out_read
    with assms dt show ?thesis
      by (cases "status s") (auto intro: out_recv_tok split: completion.split)
  next
    case Udp_read
    with assms dt show ?thesis
      by (cases "status s") (auto intro: udp_recv_tok split: completion.split)
  qed (use assms(2) in auto)
qed

lemma ssl_shutdown_tok:
  assumes "tok_inv False False s" and "status s = DESTROY"
  shows "tok_inv False False (ssl_shutdown_cb c s)"
proof -
  have l: "list_all (\<lambda>p. is_write (fst p) \<longrightarrow> snd p \<noteq> None) ps \<Longrightarrow>
      list_all (\<lambda>p. is_write (fst p) \<longrightarrow> snd p \<noteq> None) (map (abort_set S) ps)" for ps S
    by (induction ps) (auto simp: abort_set_def)
  show ?thesis
    using assms
    by (auto simp: ssl_shutdown_cb_def close_in_socket_def tok_inv_def token_map list_ex_map_fst comp_def
        simp del: not_None_eq intro: l)
qed

lemma on_complete_closer_tok:
  assumes "tok_inv False False s" and "status s = DESTROY" and "is_closer op"
  shows "tok_inv False False (fst (on_complete e ok op c (s, w)))"
  using assms ssl_shutdown_tok [OF assms(1,2)] by (cases op) auto

lemma run_tok:
  assumes "tok_inv False False s" and "i < length (pending s)" and "pending s ! i = (op, c')"
    and "on_complete e ok op c (s\<lparr>pending := remove_nth i (pending s)\<rparr>, w) = (s', w')"
  shows "tok_inv False False s'"
proof -
  let ?s = "s\<lparr>pending := remove_nth i (pending s)\<rparr>"
  have s': "s' = fst (on_complete e ok op c (?s, w))" using assms(4) by simp
  have same: "status ?s = status s" "out_open ?s = out_open s" by simp_all
  consider "is_up op" | "is_down op" | "is_closer op" by (cases op) auto
  then show ?thesis
  proof cases
    case 1
    then have "downs ?s = downs s"
      using remove_nth_filter(1) [of i "pending s" "\<lambda>p. is_down (fst p)"] assms(2,3)
      by (cases op) (auto simp: downs_def)
    with on_complete_up_tok [of ?s op e ok c w] tok_inv_take_up [OF assms(1-3) 1] 1 same s'
    show ?thesis by (auto cong: Status.case_cong)
  next
    case 2
    with on_complete_down_tok [of ?s op e ok c w] tok_inv_take_down [OF assms(1-3) 2] same s'
    show ?thesis by simp
  next
    case 3
    have "(op, c') \<in> set (closers s)" using assms(2,3) 3 by (auto simp: closers_def) (metis nth_mem)
    then have st: "status s = DESTROY" using assms(1) by (auto simp: tok_inv_def)
    have "ups ?s = ups s" "downs ?s = downs s"
      using 3 remove_nth_filter(1) [of i "pending s" "\<lambda>p. is_down (fst p)"]
        remove_nth_filter(1) [of i "pending s" "\<lambda>p. is_up (fst p)"] assms(2,3)
      by (cases op; simp add: ups_def downs_def)+
    with assms(1) st have "tok_inv False False ?s" by (simp add: tok_inv_def)
    with on_complete_closer_tok [of ?s op e ok c w] st 3 s' show ?thesis by simp
  qed
qed

lemma ready_tok:
  assumes "tok_inv False False s" and "i < length (pending s)" and "pending s ! i = (op, None)"
  shows "tok_inv False False (s\<lparr>pending := (pending s)[i := (op, Some c)]\<rparr>)"
proof -
  let ?s = "s\<lparr>pending := (pending s)[i := (op, Some c)]\<rparr>"
  have up: "ups ?s = (if is_up op then [(op, Some c)] else ups s)"
    using update_filter(1) [of i "pending s" "\<lambda>p. is_up (fst p)" "(op, Some c)"]
      update_filter(2) [of i "pending s" "\<lambda>p. is_up (fst p)" "(op, Some c)"]
      tok_inv_take_up(2) [OF assms] assms(2,3) by (simp add: ups_def)
  have down: "downs ?s = (if is_down op then [(op, Some c)] else downs s)"
    using update_filter(1) [of i "pending s" "\<lambda>p. is_down (fst p)" "(op, Some c)"]
      update_filter(2) [of i "pending s" "\<lambda>p. is_down (fst p)" "(op, Some c)"]
      tok_inv_take_down(2) [OF assms] assms(2,3) by (simp add: downs_def)
  have "closers ?s = [] \<longleftrightarrow> closers s = []"
    using assms(2,3) length_filter_update [of i "pending s" "\<lambda>p. is_closer (fst p)" "(op, Some c)"]
    by (simp add: closers_def flip: length_0_conv split: if_splits)
  moreover have "\<not> (is_up op \<and> is_down op)" by (cases op) auto
  ultimately show ?thesis
    using assms(1) up down tok_inv_take_up(2) [OF assms] tok_inv_take_down(2) [OF assms]
    by (cases "status s"; cases "is_up op"; cases "is_down op")
       (auto simp: tok_inv_def token_def split: if_splits)
qed

lemma ready_tokens_ups:
  assumes "tok_inv False False s" and "i < length (pending s)" and "pending s ! i = (op, None)"
  shows "ups (s\<lparr>pending := (pending s)[i := (op, Some c)]\<rparr>) = (if is_up op then [(op, Some c)] else ups s)"
    and "is_up op \<Longrightarrow> ups s = [(op, None)]"
  using assms(2,3) tok_inv_take_up(2) [OF assms]
    update_filter [of i "pending s" "\<lambda>p. is_up (fst p)" "(op, Some c)"]
  by (simp_all add: ups_def)

lemma session_step_tok:
  "session_step e (s, w, tr) (s', w', tr') \<Longrightarrow> tok_inv False False s \<Longrightarrow> tok_inv False False s'"
  by (induction "(s, w, tr)" "(s', w', tr')" rule: session_step.induct) (auto intro: ready_tok run_tok)

lemma server_step_tok:
  "server_step e (s, w, tr) (s', w', tr') \<Longrightarrow> tok_inv False False s \<Longrightarrow> tok_inv False False s'"
  by (elim server_stepE) (auto intro: session_step_tok)

lemma server_reachable_tok: "server_reachable e s tr \<Longrightarrow> tok_inv False False s"
proof -
  have "(server_step e)\<^sup>*\<^sup>* c c' \<Longrightarrow> tok_inv False False (fst c) \<Longrightarrow> tok_inv False False (fst c')" for c c'
    by (induction rule: rtranclp_induct) (auto intro: server_step_tok)
  then show "server_reachable e s tr \<Longrightarrow> tok_inv False False s"
    by (auto simp: server_reachable_def) (metis fst_conv start_tok)
qed

end
