(* ===== verification/Server_Session_Slots.thy ===== *)
theory Server_Session_Slots
  imports Server_Session_Steps
begin

text \<open>
  What a server session does to the slots it holds.  The contract of the callbacks is a
  locale over a count kept by the service and the claim of a session on it: releasing
  takes the claim away, acquiring a fallback slot adds what it adds to the claim, and
  everything else leaves the count alone.  In it every step of a session changes the
  count by exactly what it changes of its own claim, so that a session gives back each
  slot once.  The fallback budget and the connection limit of an address are both counts
  of this kind.
\<close>

section \<open>Claims\<close>

definition fb_claim :: "ServerSession \<Rightarrow> nat" where
  "fb_claim s = (if fallback_slot_acquired s then 1 else 0)"

definition conn_claim :: "ServerSession \<Rightarrow> string \<Rightarrow> nat" where
  "conn_claim s ip = (if connection_slot_acquired s \<and> ep_ip (in_endpoint s) = ip then 1 else 0)"

fun late_op :: "async_op \<Rightarrow> bool" where
  "late_op (Tcp_resolve t) = True"
| "late_op (Tcp_connect ep t) = True"
| "late_op op = False"

text \<open>A session holds a fallback slot only while it connects to the fallback target or relays.\<close>

definition slot_inv :: "ServerSession \<Rightarrow> bool" where
  "slot_inv s \<longleftrightarrow> (fallback_slot_acquired s \<longrightarrow>
     status s = FORWARD_TCP \<or> status s = HANDSHAKE \<and> list_all (\<lambda>p. late_op (fst p)) (ups s))"

text \<open>The part of a session that claims depend on.\<close>

definition same_claims :: "ServerSession \<Rightarrow> ServerSession \<Rightarrow> bool" where
  "same_claims s s' \<longleftrightarrow> fallback_slot_acquired s' = fallback_slot_acquired s \<and>
     connection_slot_acquired s' = connection_slot_acquired s \<and> in_endpoint s' = in_endpoint s"

lemma claims_same:
  "same_claims s s' \<Longrightarrow> fb_claim s' = fb_claim s"
  "same_claims s s' \<Longrightarrow> conn_claim s' ip = conn_claim s ip"
  by (simp_all add: same_claims_def fb_claim_def conn_claim_def)

section \<open>The contract of the callbacks\<close>

locale slot_account =
  fixes e :: "'w session_env"
    and count :: "'w \<Rightarrow> nat"
    and claim :: "ServerSession \<Rightarrow> nat"
    and ok :: "'w \<Rightarrow> bool"
  assumes claim_same: "same_claims s s' \<Longrightarrow> claim s' = claim s"
    and acquires: "cb_acquire_fallback_slot (se_admission e) \<noteq> None"
    and releases: "cb_release_fallback_slot (se_lifecycle e) \<noteq> None"
    and acquire_counts: "ok w \<Longrightarrow> \<not> fallback_slot_acquired s \<Longrightarrow>
        try_acquire_fallback_slot (se_admission e) False w = (granted, flag, w') \<Longrightarrow>
        ok w' \<and> count w' + claim s = count w + claim (s\<lparr>fallback_slot_acquired := flag\<rparr>)"
    and release_counts: "ok w \<Longrightarrow> claim s \<le> count w \<Longrightarrow>
        release_slots (se_lifecycle e) (in_endpoint s) (connection_slot_acquired s) (fallback_slot_acquired s) w =
          (conn, fb, w') \<Longrightarrow>
        ok w' \<and> count w' = count w - claim s \<and>
        claim (s\<lparr>connection_slot_acquired := conn, fallback_slot_acquired := fb\<rparr>) = 0"
    and auth_success: "ok w \<Longrightarrow> ok (call0 (cb_record_auth_success (se_admission e)) w) \<and>
        count (call0 (cb_record_auth_success (se_admission e)) w) = count w"
    and auth_failure: "ok w \<Longrightarrow> ok (call1 (cb_record_auth_failure (se_admission e)) ep w) \<and>
        count (call1 (cb_record_auth_failure (se_admission e)) ep w) = count w"
    and usage: "ok w \<Longrightarrow> ok (record_usage (se_auth e) pw r t w) \<and>
        count (record_usage (se_auth e) pw r t w) = count w"
begin

text \<open>The count changes by what the claim of the session changes.\<close>

definition covered :: "ServerSession \<times> 'w \<Rightarrow> bool" where
  "covered = (\<lambda>(s, w). ok w \<and> claim s \<le> count w)"

definition balanced :: "ServerSession \<times> 'w \<Rightarrow> ServerSession \<times> 'w \<Rightarrow> bool" where
  "balanced = (\<lambda>(s, w) (s', w'). ok w' \<and> count w' + claim s = count w + claim s')"

lemma balanced_refl: "covered (s, w) \<Longrightarrow> balanced (s, w) (s, w)"
  by (simp add: covered_def balanced_def)

lemma balanced_covered: "covered c \<Longrightarrow> balanced c c' \<Longrightarrow> covered c'"
  by (auto simp: covered_def balanced_def)

lemma balanced_trans: "balanced c c' \<Longrightarrow> balanced c' c'' \<Longrightarrow> balanced c c''"
  by (auto simp: balanced_def)

lemma balanced_same: "balanced c (s, w) \<Longrightarrow> same_claims s s' \<Longrightarrow> balanced c (s', w)"
  using claim_same [of s s'] by (auto simp: balanced_def)

text \<open>The end of the session gives back what it claims.\<close>

lemma destroy_claims:
  assumes "status s \<noteq> DESTROY"
  shows "\<not> fallback_slot_acquired (fst (destroy e (s, w)))"
proof -
  obtain rel where "cb_release_fallback_slot (se_lifecycle e) = Some rel" using releases by blast
  then show ?thesis using assms
    by (auto simp: destroy_def release_slots_def Let_def split_beta closing_defs split: option.split)
qed

lemma closed_down_claims:
  "same_claims s (shutdown_inbound_tls (close_outbound_sockets (cancel_runtime_io s)))"
  by (simp add: closing_defs same_claims_def)

lemma balanced_destroy:
  assumes "balanced c (s, w)" and "covered c"
  shows "balanced c (destroy e (s, w))"
proof (cases "status s = DESTROY")
  case True
  with assms show ?thesis by (simp add: destroy_def)
next
  case False
  have cov: "ok w" "claim s \<le> count w" using balanced_covered [OF assms(2,1)] by (simp_all add: covered_def)
  obtain conn fb w' where r: "release_slots (se_lifecycle e) (in_endpoint s) (connection_slot_acquired s)
      (fallback_slot_acquired s) w = (conn, fb, w')" by (cases rule: prod_cases3)
  note rel = release_counts [OF cov r]
  let ?u = "record_usage (se_auth e) (auth_password s) (recv_len s) (sent_len s) w'"
  let ?s = "s\<lparr>status := DESTROY, connection_slot_acquired := conn, fallback_slot_acquired := fb\<rparr>"
  have d: "destroy e (s, w) = (shutdown_inbound_tls (close_outbound_sockets (cancel_runtime_io ?s)), ?u)"
    using False r by (simp add: destroy_def Let_def)
  have "same_claims (s\<lparr>connection_slot_acquired := conn, fallback_slot_acquired := fb\<rparr>) (fst (destroy e (s, w)))"
    using closed_down_claims [of ?s] by (simp add: d same_claims_def)
  then have "claim (fst (destroy e (s, w))) = 0" using claim_same rel by metis
  moreover have "ok ?u" "count ?u = count w'" using usage rel by simp_all
  ultimately have "balanced (s, w) (destroy e (s, w))" using rel cov d by (simp add: balanced_def)
  with assms(1) show ?thesis by (rule balanced_trans)
qed

lemma balanced_update [simp]:
  "balanced c (s\<lparr>status := x_status\<rparr>, w) = balanced c (s, w)"
  "balanced c (s\<lparr>bootstrap_mode := x_bootstrap_mode\<rparr>, w) = balanced c (s, w)"
  "balanced c (s\<lparr>external_front_handoff := x_external_front_handoff\<rparr>, w) = balanced c (s, w)"
  "balanced c (s\<lparr>trusted_front_bootstrap_buffer := x_trusted_front_bootstrap_buffer\<rparr>, w) = balanced c (s, w)"
  "balanced c (s\<lparr>auth_password := x_auth_password\<rparr>, w) = balanced c (s, w)"
  "balanced c (s\<lparr>in_read_size := x_in_read_size\<rparr>, w) = balanced c (s, w)"
  "balanced c (s\<lparr>out_read_size := x_out_read_size\<rparr>, w) = balanced c (s, w)"
  "balanced c (s\<lparr>udp_read_size := x_udp_read_size\<rparr>, w) = balanced c (s, w)"
  "balanced c (s\<lparr>in_write_data := x_in_write_data\<rparr>, w) = balanced c (s, w)"
  "balanced c (s\<lparr>out_write_data := x_out_write_data\<rparr>, w) = balanced c (s, w)"
  "balanced c (s\<lparr>udp_write_data := x_udp_write_data\<rparr>, w) = balanced c (s, w)"
  "balanced c (s\<lparr>recv_len := x_recv_len\<rparr>, w) = balanced c (s, w)"
  "balanced c (s\<lparr>sent_len := x_sent_len\<rparr>, w) = balanced c (s, w)"
  "balanced c (s\<lparr>out_write_buf := x_out_write_buf\<rparr>, w) = balanced c (s, w)"
  "balanced c (s\<lparr>udp_data_buf := x_udp_data_buf\<rparr>, w) = balanced c (s, w)"
  "balanced c (s\<lparr>in_open := x_in_open\<rparr>, w) = balanced c (s, w)"
  "balanced c (s\<lparr>out_open := x_out_open\<rparr>, w) = balanced c (s, w)"
  "balanced c (s\<lparr>udp_open := x_udp_open\<rparr>, w) = balanced c (s, w)"
  "balanced c (s\<lparr>pending := x_pending\<rparr>, w) = balanced c (s, w)"
  "balanced c (start_op op s, w) = balanced c (s, w)"
  "balanced c (cancel_io obj s, w) = balanced c (s, w)"
  by (auto intro: balanced_same simp: same_claims_def)

subsection \<open>The handlers\<close>

lemma balanced_udp_sent: "covered c \<Longrightarrow> balanced c (s, w) \<Longrightarrow> balanced c (udp_sent e (s, w))"
  using try_parse_udp_cases [of s] by (auto simp: udp_sent_def starts_defs intro: balanced_destroy)

lemma balanced_acquire:
  assumes "covered c" and "balanced c (s, w)" and "\<not> fallback_slot_acquired s"
    and "try_acquire_fallback_slot (se_admission e) (fallback_slot_acquired s) w = (granted, flag, w')"
  shows "balanced c (s\<lparr>fallback_slot_acquired := flag\<rparr>, w')"
proof -
  have "ok w" using balanced_covered [OF assms(1,2)] by (simp add: covered_def)
  from acquire_counts [OF this assms(3), of granted flag w'] assms(3,4)
  have "balanced (s, w) (s\<lparr>fallback_slot_acquired := flag\<rparr>, w')" by (simp add: balanced_def)
  with assms(2) show ?thesis by (rule balanced_trans)
qed

lemma balanced_begin_tcp_relay:
  assumes "covered c" and "balanced c (s, w)" and "\<not> fallback_slot_acquired s"
  shows "balanced c (snd (begin_tcp_relay e t b (s, w)))"
  using assms balanced_acquire [OF assms] balanced_destroy [OF _ assms(1)]
  by (auto simp: begin_tcp_relay_def Let_def split: prod.split)

lemma balanced_execute_plan:
  assumes "covered c" and "balanced c (s, w)" and "\<not> fallback_slot_acquired s"
  shows "balanced c (execute_plan e plan (s, w))"
  using assms
  by (auto simp: execute_plan_def start_udp_forward_def connect_outbound_def Let_def
      intro!: balanced_udp_sent balanced_begin_tcp_relay balanced_destroy)

lemma balanced_auth_result:
  assumes "covered c" and "balanced c (s, w)"
  shows "balanced c (s, snd (apply_auth_result (se_admission e) ep d pw w))"
proof -
  have okw: "ok w" using balanced_covered [OF assms] by (simp add: covered_def)
  have "ok w' \<Longrightarrow> count w' = count w \<Longrightarrow> balanced c (s, w')" for w'
    using assms(2) by (simp add: balanced_def split: prod.splits)
  then show ?thesis
    using auth_success [OF okw] auth_failure [OF okw, of ep] assms(2)
    by (auto simp: apply_auth_result_def)
qed

lemma balanced_handle_payload:
  assumes "covered c" and "balanced c (s, w)" and "\<not> fallback_slot_acquired s"
  shows "balanced c (handle_handshake_payload e data (s, w))"
proof -
  have "balanced c (execute_plan e plan (s\<lparr>auth_password := x\<rparr>, snd (apply_auth_result (se_admission e) ep d pw w)))"
    for plan x ep d pw
    using balanced_auth_result [OF assms(1,2), of ep d pw] assms(1,3) by (intro balanced_execute_plan) auto
  then show ?thesis using assms(2) by (auto simp: handle_handshake_payload_def split_beta split: sum.split)
qed

lemma balanced_bootstrap_read:
  assumes "covered c" and "balanced c (s, w)" and "\<not> fallback_slot_acquired s"
  shows "balanced c (trusted_front_ingress_read e data (s, w))"
  using assms
  by (auto simp: trusted_front_ingress_read_def set_external_front_handoff_def Let_def starts_defs
      intro!: balanced_handle_payload balanced_destroy)

lemma balanced_in_recv:
  assumes "covered c" and "balanced c (s, w)" and "status s = HANDSHAKE \<longrightarrow> \<not> fallback_slot_acquired s"
  shows "balanced c (in_recv e data (s, w))"
  using assms
  by (auto simp: in_recv_def Let_def starts_defs intro!: balanced_handle_payload balanced_udp_sent split: Status.split)

lemma balanced_tcp_resolved: "covered c \<Longrightarrow> balanced c (s, w) \<Longrightarrow> balanced c (tcp_resolved e k t x (s, w))"
  by (auto simp: tcp_resolved_def intro!: balanced_destroy split: completion.split option.split)

lemma balanced_udp_resolved: "covered c \<Longrightarrow> balanced c (s, w) \<Longrightarrow> balanced c (udp_resolved e k pl n x (s, w))"
  by (auto simp: udp_resolved_def dispatch_udp_payload_def ensure_open_cases starts_defs
      intro: balanced_destroy split: completion.split option.split prod.split)
     (metis balanced_destroy balanced_update starts_defs)+

lemma balanced_handshake_done: "covered c \<Longrightarrow> balanced c (s, w) \<Longrightarrow> balanced c (handshake_done e x (s, w))"
  by (auto simp: handshake_done_def starts_defs intro!: balanced_destroy)

lemma balanced_on_complete:
  assumes "covered c" and "balanced c (s, w)"
    and "status s = HANDSHAKE \<and> \<not> late_op op \<longrightarrow> \<not> fallback_slot_acquired s"
    and "op = Bootstrap_read \<longrightarrow> \<not> fallback_slot_acquired s"
  shows "balanced c (on_complete e k op x (s, w))"
  using assms
  by (cases op)
     (auto simp: in_sent_def out_recv_def out_sent_def udp_recv_def tcp_connected_def ssl_shutdown_cb_def
       close_in_socket_def starts_defs Let_def
       intro!: balanced_destroy balanced_handshake_done balanced_udp_sent balanced_tcp_resolved
         balanced_udp_resolved balanced_in_recv balanced_bootstrap_read
       split: Status.split completion.split)

subsection \<open>When a fallback slot is held\<close>

lemma slot_inv_free: "\<not> fallback_slot_acquired s \<Longrightarrow> slot_inv s"
  by (simp add: slot_inv_def)

lemma destroy_free:
  "status s \<noteq> DESTROY \<or> \<not> fallback_slot_acquired s \<Longrightarrow>
   \<not> fallback_slot_acquired (fst (destroy e (s, w)))"
  using destroy_claims [of s w] by (cases "status s = DESTROY") (auto simp: destroy_def)

lemma udp_sent_free: "\<not> fallback_slot_acquired s \<Longrightarrow> \<not> fallback_slot_acquired (fst (udp_sent e (s, w)))"
  using try_parse_udp_cases [of s] destroy_free [of s w] by (auto simp: udp_sent_def starts_defs)

lemma destroy_slot:
  "status s \<noteq> DESTROY \<or> \<not> fallback_slot_acquired s \<Longrightarrow> slot_inv (fst (destroy e (s, w)))"
  by (intro slot_inv_free destroy_free)

lemma udp_sent_slot: "\<not> fallback_slot_acquired s \<Longrightarrow> slot_inv (fst (udp_sent e (s, w)))"
  by (intro slot_inv_free udp_sent_free)

lemma begin_tcp_relay_slot:
  assumes "status s = HANDSHAKE" and "ups s = []" and "\<not> fallback_slot_acquired s"
  shows "slot_inv (fst (snd (begin_tcp_relay e t b (s, w))))"
proof -
  obtain acq where acq: "cb_acquire_fallback_slot (se_admission e) = Some acq" using acquires by blast
  have "slot_inv (fst (destroy e (s\<lparr>fallback_slot_acquired := x\<rparr>, snd (acq w))))" for x
    using assms(1) by (intro slot_inv_free destroy_free) auto
  then show ?thesis using assms acq
    by (auto simp: begin_tcp_relay_def Let_def try_acquire_fallback_slot_def split_beta slot_inv_def)
qed

lemma execute_plan_slot:
  assumes "status s = HANDSHAKE" and "ups s = []" and "\<not> fallback_slot_acquired s"
  shows "slot_inv (fst (execute_plan e plan (s, w)))"
  using assms
  by (auto simp: execute_plan_def start_udp_forward_def connect_outbound_def Let_def
      intro!: begin_tcp_relay_slot udp_sent_slot destroy_slot)

lemma handle_payload_slot:
  assumes "status s = HANDSHAKE" and "ups s = []" and "\<not> fallback_slot_acquired s"
  shows "slot_inv (fst (handle_handshake_payload e data (s, w)))"
  using assms
  by (auto simp: handle_handshake_payload_def split_beta intro!: execute_plan_slot intro: slot_inv_free
      split: sum.split)

lemma bootstrap_read_slot:
  assumes "status s = HANDSHAKE" and "ups s = []" and "\<not> fallback_slot_acquired s"
  shows "slot_inv (fst (trusted_front_ingress_read e data (s, w)))"
  using assms
  by (auto simp: trusted_front_ingress_read_def set_external_front_handoff_def Let_def starts_defs
      intro!: handle_payload_slot destroy_slot) (auto simp: slot_inv_def)

text \<open>A handler that runs on the token of its direction.\<close>

lemma on_complete_slot:
  assumes "slot_inv s" and "status s = HANDSHAKE \<longrightarrow> ups s = [] \<and> handshake_op op"
    and "status s = HANDSHAKE \<and> \<not> late_op op \<longrightarrow> \<not> fallback_slot_acquired s"
    and "status s \<noteq> HANDSHAKE \<longrightarrow> \<not> handshake_op op \<or> op = In_read"
    and "status s = FORWARD_TCP \<longrightarrow> forward_up op \<or> forward_down op"
  shows "slot_inv (fst (on_complete e k op x (s, w)))"
proof -
  have free: "status s \<noteq> DESTROY \<or> \<not> fallback_slot_acquired s" using assms(1) by (auto simp: slot_inv_def)
  have d: "slot_inv (fst (destroy e (s, w)))" using destroy_slot [OF free] .
  show ?thesis
  proof (cases "status s = HANDSHAKE")
    case True
    with assms d show ?thesis
      by (cases op)
         (auto simp: handshake_done_def in_recv_def tcp_resolved_def tcp_connected_def starts_defs Let_def
           intro!: handle_payload_slot bootstrap_read_slot destroy_slot
           split: completion.split option.split, auto simp: slot_inv_def)
  next
    case False
    then have nf: "status s = FORWARD_TCP \<or> \<not> fallback_slot_acquired s" using assms(1) by (auto simp: slot_inv_def)
    with False assms(4,5) d destroy_udp_closed [of s e w] show ?thesis
      by (cases op)
         (auto simp: in_recv_def in_sent_def out_recv_def out_sent_def udp_recv_def udp_resolved_def
           dispatch_udp_payload_def ensure_open_cases ssl_shutdown_cb_def close_in_socket_def starts_defs Let_def
           split_beta intro!: udp_sent_slot destroy_slot
           split: completion.split option.split Status.split, auto simp: slot_inv_def)
  qed
qed

subsection \<open>Steps\<close>

lemma run_conditions:
  assumes "tok_inv False False s" and "slot_inv s" and "i < length (pending s)" and "pending s ! i = (op, c)"
    and "s1 = s\<lparr>pending := remove_nth i (pending s)\<rparr>"
  shows "slot_inv s1" and "status s1 = HANDSHAKE \<longrightarrow> ups s1 = [] \<and> handshake_op op"
    and "status s1 = HANDSHAKE \<and> \<not> late_op op \<longrightarrow> \<not> fallback_slot_acquired s1"
    and "status s1 \<noteq> HANDSHAKE \<longrightarrow> \<not> handshake_op op \<or> op = In_read"
    and "status s1 = FORWARD_TCP \<longrightarrow> forward_up op \<or> forward_down op"
proof -
  consider "is_up op" | "is_down op" | "is_closer op" by (cases op) auto
  then have "slot_inv s1 \<and> (status s1 = HANDSHAKE \<longrightarrow> ups s1 = [] \<and> handshake_op op) \<and>
    (status s1 = HANDSHAKE \<and> \<not> late_op op \<longrightarrow> \<not> fallback_slot_acquired s1) \<and>
    (status s1 \<noteq> HANDSHAKE \<longrightarrow> \<not> handshake_op op \<or> op = In_read) \<and>
    (status s1 = FORWARD_TCP \<longrightarrow> forward_up op \<or> forward_down op)"
  proof cases
    case 1
    note t = tok_inv_take_up [OF assms(1,3,4) 1]
    have "ups s1 = []" if "status s = HANDSHAKE" using t(1) that assms(5) by (simp add: tok_inv_def)
    with t(2,3) assms(2,5) show ?thesis
      by (cases "status s"; cases op) (auto simp: slot_inv_def)
  next
    case 2
    note t = tok_inv_take_down [OF assms(1,3,4) 2]
    with assms(2,5) 2 show ?thesis by (cases "status s"; cases op) (auto simp: slot_inv_def)
  next
    case 3
    have "(op, c) \<in> set (closers s)" using assms(3,4) 3 by (auto simp: closers_def) (metis nth_mem)
    then have "status s = DESTROY" using assms(1) by (auto simp: tok_inv_def)
    with assms(2,5) 3 show ?thesis by (cases op) (auto simp: slot_inv_def)
  qed
  then show "slot_inv s1" "status s1 = HANDSHAKE \<longrightarrow> ups s1 = [] \<and> handshake_op op"
    "status s1 = HANDSHAKE \<and> \<not> late_op op \<longrightarrow> \<not> fallback_slot_acquired s1"
    "status s1 \<noteq> HANDSHAKE \<longrightarrow> \<not> handshake_op op \<or> op = In_read"
    "status s1 = FORWARD_TCP \<longrightarrow> forward_up op \<or> forward_down op" by blast+
qed

lemma session_step_slots:
  assumes "session_step e (s, w, tr) (s', w', tr')" and "tok_inv False False s" and "slot_inv s"
    and "covered (s, w)"
  shows "balanced (s, w) (s', w') \<and> slot_inv s'"
  using assms(1)
proof cases
  case (ready i op c)
  have "slot_inv s'" using assms(3) ready(1) ready_tokens_ups(1) [OF assms(2) ready(4,5), of c]
      ready_tokens_ups(2) [OF assms(2) ready(4,5)]
    by (auto simp: slot_inv_def split: if_splits)
  then show ?thesis using ready balanced_refl [OF assms(4)] by simp
next
  case (run i op c k)
  let ?s = "s\<lparr>pending := remove_nth i (pending s)\<rparr>"
  note rc = run_conditions [OF assms(2,3) run(2,3) refl]
  have b: "balanced (s, w) (?s, w)" using balanced_refl [OF assms(4)] by simp
  have "balanced (s, w) (on_complete e k op c (?s, w))"
    using rc by (intro balanced_on_complete [OF assms(4) b]) (auto simp: slot_inv_def)
  moreover have "slot_inv (fst (on_complete e k op c (?s, w)))" by (rule on_complete_slot [OF rc])
  ultimately show ?thesis using run by simp
qed (use assms(3,4) balanced_refl in auto)

end

end
