(* ===== verification/Slot_Counter.thy ===== *)
theory Slot_Counter
  imports Prelude
begin

text \<open>
  The interface of the two admission budgets of the server: the per-IP connection limit
  (\<open>AbuseController\<close>) and the fallback session budget (\<open>FallbackController\<close>).  A budget
  counts slots per key, grants a slot only below its limit and gives one back on
  release.  What the server needs from it is proved once, in the locale: as long as
  every release is made by a holder, the count is the number of holders and never
  exceeds the limit.
\<close>

section \<open>Histories of a budget\<close>

datatype ('k, 't, 'o) slot_op = Acquire 'k | Release 't 'k | Other 'o

text \<open>Running a history over a budget, beside the number of holders of each key.  A release of a
  key nobody holds is a fault of the caller and ends the run.\<close>

fun slot_run ::
    "('k \<Rightarrow> 's \<Rightarrow> bool \<times> 's) \<Rightarrow> ('t \<Rightarrow> 'k \<Rightarrow> 's \<Rightarrow> 's) \<Rightarrow> ('o \<Rightarrow> 's \<Rightarrow> 's) \<Rightarrow>
     's \<Rightarrow> ('k \<Rightarrow> nat) \<Rightarrow> ('k, 't, 'o) slot_op list \<Rightarrow> ('s \<times> ('k \<Rightarrow> nat)) option" where
  "slot_run acq rel oth s h [] = Some (s, h)"
| "slot_run acq rel oth s h (Acquire k # ops) =
     (case acq k s of (granted, s') \<Rightarrow>
        slot_run acq rel oth s' (if granted then h(k := Suc (h k)) else h) ops)"
| "slot_run acq rel oth s h (Release t k # ops) =
     (if h k = 0 then None
      else slot_run acq rel oth (rel t k s) (h(k := h k - 1)) ops)"
| "slot_run acq rel oth s h (Other x # ops) = slot_run acq rel oth (oth x s) h ops"

section \<open>The interface\<close>

locale slot_counter =
  fixes enabled :: "'s \<Rightarrow> bool"
    and limit :: "'s \<Rightarrow> nat"
    and slots :: "'s \<Rightarrow> 'k \<Rightarrow> nat"
    and acquire :: "'k \<Rightarrow> 's \<Rightarrow> bool \<times> 's"
    and release :: "'t \<Rightarrow> 'k \<Rightarrow> 's \<Rightarrow> 's"
    and other :: "'o \<Rightarrow> 's \<Rightarrow> 's"
  assumes acquire_granted: "enabled s \<Longrightarrow> slots s k < limit s \<Longrightarrow>
        \<exists>s'. acquire k s = (True, s') \<and> enabled s' \<and> limit s' = limit s \<and>
             slots s' = (slots s)(k := Suc (slots s k))"
    and acquire_refused: "enabled s \<Longrightarrow> limit s \<le> slots s k \<Longrightarrow>
        \<exists>s'. acquire k s = (False, s') \<and> enabled s' \<and> limit s' = limit s \<and> slots s' = slots s"
    and release_slots: "enabled s \<Longrightarrow>
        enabled (release t k s) \<and> limit (release t k s) = limit s \<and>
        slots (release t k s) = (slots s)(k := slots s k - 1)"
    and other_slots: "enabled s \<Longrightarrow>
        enabled (other x s) \<and> limit (other x s) = limit s \<and> slots (other x s) = slots s"
begin

lemma acquire_grants_iff:
  "enabled s \<Longrightarrow> fst (acquire k s) \<longleftrightarrow> slots s k < limit s"
  using acquire_granted [of s k] acquire_refused [of s k] by (cases "slots s k < limit s") auto

text \<open>In every run the count of a key is the number of its holders, and at most the limit.\<close>

lemma run_counts_holders:
  assumes "slot_run acquire release other s h ops = Some (s', h')"
    and "enabled s" and "\<forall>k. slots s k = h k" and "\<forall>k. h k \<le> limit s"
  shows "enabled s' \<and> limit s' = limit s \<and> (\<forall>k. slots s' k = h' k) \<and> (\<forall>k. h' k \<le> limit s)"
  using assms
proof (induction ops arbitrary: s h)
  case Nil
  then show ?case by simp
next
  case (Cons op ops)
  show ?case
  proof (cases op)
    case (Acquire k)
    show ?thesis
    proof (cases "slots s k < limit s")
      case True
      then obtain s1 where s1: "acquire k s = (True, s1)" "enabled s1" "limit s1 = limit s"
        "slots s1 = (slots s)(k := Suc (slots s k))"
        using acquire_granted Cons.prems by blast
      let ?h = "h(k := Suc (h k))"
      have run: "slot_run acquire release other s1 ?h ops = Some (s', h')"
        using Acquire Cons.prems(1) s1(1) by simp
      have "\<forall>j. slots s1 j = ?h j" "\<forall>j. ?h j \<le> limit s1"
        using s1 True Cons.prems(3,4) by auto
      from Cons.IH [OF run s1(2) this] s1(3) show ?thesis by simp
    next
      case False
      then obtain s1 where s1: "acquire k s = (False, s1)" "enabled s1" "limit s1 = limit s"
        "slots s1 = slots s"
        using acquire_refused [of s k] Cons.prems by (auto simp: not_less)
      with Acquire Cons.prems Cons.IH [of s1 h] show ?thesis by simp
    qed
  next
    case (Release t k)
    let ?h = "h(k := h k - 1)"
    have run: "slot_run acquire release other (release t k s) ?h ops = Some (s', h')"
      using Release Cons.prems(1) by (simp split: if_splits)
    note rel = release_slots [OF Cons.prems(2), of t k]
    have "\<forall>j. slots (release t k s) j = ?h j" "\<forall>j. ?h j \<le> limit (release t k s)"
      using rel Cons.prems(3,4) by (auto intro: order_trans [OF diff_le_self])
    from Cons.IH [OF run _ this] rel show ?thesis by simp
  next
    case (Other x)
    with other_slots [OF Cons.prems(2), of x] Cons.prems Cons.IH [of "other x s" h] show ?thesis by simp
  qed
qed

end

end
