(* ===== verification/Abuse_Controller.thy ===== *)
theory Abuse_Controller
  imports Config Slot_Counter
begin

text \<open>
  \<open>src/core/abuse_controller.{h,cpp}\<close>: per source IP, the number of active connections, the
  authentication failures of the current window and the end of the cooldown.

  Time points of the steady clock are its tick counts (nanoseconds) as integers; the
  clock reading of an operation is an argument.  Every operation locks the controller's
  mutex for its whole work on the table, so operations are atomic steps.
\<close>

section \<open>Data\<close>

record IpAbuseStats =
  active_connections :: nat
  auth_fail_count :: nat
  auth_fail_window_start :: int
  cooldown_until :: int

definition fresh_stats :: IpAbuseStats where
  "fresh_stats = \<lparr>active_connections = 0, auth_fail_count = 0,
     auth_fail_window_start = 0, cooldown_until = 0\<rparr>"

record AbuseController =
  abuse_config :: AbuseControlConfig
  per_ip :: "string \<Rightarrow> IpAbuseStats option"

definition new_abuse_controller :: "AbuseControlConfig \<Rightarrow> AbuseController" where
  "new_abuse_controller cfg = \<lparr>abuse_config = cfg, per_ip = (\<lambda>_. None)\<rparr>"

text \<open>\<open>per_ip[ip]\<close> inserts a default entry when there is none.\<close>

definition stats_at :: "AbuseController \<Rightarrow> string \<Rightarrow> IpAbuseStats" where
  "stats_at c ip = (case per_ip c ip of None \<Rightarrow> fresh_stats | Some st \<Rightarrow> st)"

definition put_stats :: "string \<Rightarrow> IpAbuseStats \<Rightarrow> AbuseController \<Rightarrow> AbuseController" where
  "put_stats ip st c = c\<lparr>per_ip := (per_ip c)(ip := Some st)\<rparr>"

definition seconds :: "int \<Rightarrow> int" where
  "seconds n = n * 1000000000"

section \<open>Operations\<close>

definition limits_connections :: "AbuseControlConfig \<Rightarrow> bool" where
  "limits_connections cfg \<longleftrightarrow> ac_enabled cfg \<and> 0 < ac_per_ip_max_connections cfg"

definition try_acquire_connection_slot :: "string \<Rightarrow> AbuseController \<Rightarrow> bool \<times> AbuseController" where
  "try_acquire_connection_slot ip c =
     (if \<not> ac_enabled (abuse_config c) \<or> ac_per_ip_max_connections (abuse_config c) \<le> 0
      then (True, c)
      else (let stats = stats_at c ip
            in if active_connections stats \<ge> nat (ac_per_ip_max_connections (abuse_config c))
               then (False, put_stats ip stats c)
               else (True, put_stats ip (stats\<lparr>active_connections := active_connections stats + 1\<rparr>) c)))"

definition release_connection_slot :: "int \<Rightarrow> string \<Rightarrow> AbuseController \<Rightarrow> AbuseController" where
  "release_connection_slot now ip c =
     (if \<not> ac_enabled (abuse_config c) \<or> ac_per_ip_max_connections (abuse_config c) \<le> 0
      then c
      else case per_ip c ip of
        None \<Rightarrow> c
      | Some st \<Rightarrow>
         (let st = (if active_connections st > 0
                    then st\<lparr>active_connections := active_connections st - 1\<rparr> else st)
          in if active_connections st = 0 \<and> auth_fail_count st = 0 \<and> cooldown_until st \<le> now
             then c\<lparr>per_ip := (per_ip c)(ip := None)\<rparr>
             else put_stats ip st c))"

definition is_ip_in_cooldown :: "int \<Rightarrow> string \<Rightarrow> AbuseController \<Rightarrow> bool" where
  "is_ip_in_cooldown now ip c =
     (if \<not> ac_enabled (abuse_config c) \<or> ac_auth_fail_max (abuse_config c) \<le> 0 \<or>
         ac_cooldown_seconds (abuse_config c) \<le> 0
      then False
      else case per_ip c ip of
        None \<Rightarrow> False
      | Some st \<Rightarrow> cooldown_until st > now)"

definition record_auth_failure :: "int \<Rightarrow> string \<Rightarrow> AbuseController \<Rightarrow> AbuseController" where
  "record_auth_failure now ip c =
     (if \<not> ac_enabled (abuse_config c) \<or> ac_auth_fail_max (abuse_config c) \<le> 0 \<or>
         ac_auth_fail_window_seconds (abuse_config c) \<le> 0
      then c
      else
        (let stats = stats_at c ip;
             stats = (if auth_fail_window_start stats = 0 \<or>
                         now - auth_fail_window_start stats > seconds (ac_auth_fail_window_seconds (abuse_config c))
                      then stats\<lparr>auth_fail_window_start := now, auth_fail_count := 1\<rparr>
                      else stats\<lparr>auth_fail_count := auth_fail_count stats + 1\<rparr>);
             stats = (if auth_fail_count stats \<ge> nat (ac_auth_fail_max (abuse_config c))
                      then stats\<lparr>cooldown_until := now + seconds (ac_cooldown_seconds (abuse_config c)),
                                 auth_fail_count := 0, auth_fail_window_start := now\<rparr>
                      else stats)
         in put_stats ip stats c))"

section \<open>The connection limit\<close>

text \<open>The slots in use, as the table records them.\<close>

definition slots_in_use :: "AbuseController \<Rightarrow> string \<Rightarrow> nat" where
  "slots_in_use c ip = active_connections (stats_at c ip)"

lemma put_stats_simps [simp]:
  "abuse_config (put_stats ip st c) = abuse_config c"
  "stats_at (put_stats ip st c) = (stats_at c)(ip := st)"
  by (auto simp: put_stats_def stats_at_def)

lemma slots_in_use_put: "slots_in_use (put_stats ip st c) = (slots_in_use c)(ip := active_connections st)"
  by (auto simp: slots_in_use_def)

lemma slots_in_use_erase:
  "slots_in_use (c\<lparr>per_ip := (per_ip c)(ip := None)\<rparr>) = (slots_in_use c)(ip := 0)"
  by (auto simp: slots_in_use_def stats_at_def fresh_stats_def)

lemma record_auth_failure_frame [simp]:
  "abuse_config (record_auth_failure now ip c) = abuse_config c"
  "slots_in_use (record_auth_failure now ip c) = slots_in_use c"
  by (auto simp: record_auth_failure_def Let_def slots_in_use_put) (auto simp: slots_in_use_def)

lemma release_connection_slot_frame [simp]:
  "abuse_config (release_connection_slot now ip c) = abuse_config c"
  by (auto simp: release_connection_slot_def Let_def split: option.split)

lemma release_connection_slot_slots:
  assumes "limits_connections (abuse_config c)"
  shows "slots_in_use (release_connection_slot now ip c) = (slots_in_use c)(ip := slots_in_use c ip - 1)"
proof (cases "per_ip c ip")
  case None
  then have "slots_in_use c ip = 0" by (simp add: slots_in_use_def stats_at_def fresh_stats_def)
  with None assms show ?thesis
    by (auto simp: release_connection_slot_def limits_connections_def)
next
  case (Some st)
  then have "slots_in_use c ip = active_connections st" by (simp add: slots_in_use_def stats_at_def)
  with Some assms show ?thesis
    by (auto simp: release_connection_slot_def limits_connections_def Let_def slots_in_use_put
        slots_in_use_erase)
qed

interpretation ip_slots: slot_counter
  "\<lambda>c. limits_connections (abuse_config c)"
  "\<lambda>c. nat (ac_per_ip_max_connections (abuse_config c))"
  slots_in_use try_acquire_connection_slot release_connection_slot
  "\<lambda>(now, ip). record_auth_failure now ip"
proof unfold_locales
  fix c ip
  assume "limits_connections (abuse_config c)"
    and "slots_in_use c ip < nat (ac_per_ip_max_connections (abuse_config c))"
  then show "\<exists>c'. try_acquire_connection_slot ip c = (True, c') \<and>
      limits_connections (abuse_config c') \<and>
      nat (ac_per_ip_max_connections (abuse_config c')) = nat (ac_per_ip_max_connections (abuse_config c)) \<and>
      slots_in_use c' = (slots_in_use c)(ip := Suc (slots_in_use c ip))"
    by (auto simp: try_acquire_connection_slot_def limits_connections_def Let_def slots_in_use_put)
       (auto simp: slots_in_use_def)
next
  fix c ip
  assume "limits_connections (abuse_config c)"
    and "nat (ac_per_ip_max_connections (abuse_config c)) \<le> slots_in_use c ip"
  then show "\<exists>c'. try_acquire_connection_slot ip c = (False, c') \<and>
      limits_connections (abuse_config c') \<and>
      nat (ac_per_ip_max_connections (abuse_config c')) = nat (ac_per_ip_max_connections (abuse_config c)) \<and>
      slots_in_use c' = slots_in_use c"
    by (auto simp: try_acquire_connection_slot_def limits_connections_def Let_def slots_in_use_put)
       (auto simp: slots_in_use_def)
next
  fix c :: AbuseController and t :: int and ip :: string
  assume "limits_connections (abuse_config c)"
  then show "limits_connections (abuse_config (release_connection_slot t ip c)) \<and>
      nat (ac_per_ip_max_connections (abuse_config (release_connection_slot t ip c))) =
        nat (ac_per_ip_max_connections (abuse_config c)) \<and>
      slots_in_use (release_connection_slot t ip c) = (slots_in_use c)(ip := slots_in_use c ip - 1)"
    by (simp add: release_connection_slot_slots)
next
  fix c :: AbuseController and x :: "int \<times> string"
  assume "limits_connections (abuse_config c)"
  then show "limits_connections (abuse_config ((case x of (now, ip) \<Rightarrow> record_auth_failure now ip) c)) \<and>
      nat (ac_per_ip_max_connections (abuse_config ((case x of (now, ip) \<Rightarrow> record_auth_failure now ip) c))) =
        nat (ac_per_ip_max_connections (abuse_config c)) \<and>
      slots_in_use ((case x of (now, ip) \<Rightarrow> record_auth_failure now ip) c) = slots_in_use c"
    by (simp split: prod.split)
qed

section \<open>The cooldown\<close>

definition limits_failures :: "AbuseControlConfig \<Rightarrow> bool" where
  "limits_failures cfg \<longleftrightarrow> ac_enabled cfg \<and> 0 < ac_auth_fail_max cfg \<and>
     0 < ac_auth_fail_window_seconds cfg \<and> 0 < ac_cooldown_seconds cfg"

definition record_failures :: "string \<Rightarrow> int list \<Rightarrow> AbuseController \<Rightarrow> AbuseController" where
  "record_failures ip ts c = fold (\<lambda>t. record_auth_failure t ip) ts c"

lemma record_failures_simps [simp]:
  "record_failures ip [] c = c"
  "record_failures ip (t # ts) c = record_failures ip ts (record_auth_failure t ip c)"
  by (simp_all add: record_failures_def)

lemma record_failures_config [simp]: "abuse_config (record_failures ip ts c) = abuse_config c"
  by (induction ts arbitrary: c) auto

text \<open>A failure inside the window that began at \<open>w0\<close>.\<close>

lemma record_auth_failure_in_window:
  assumes "limits_failures (abuse_config c)" and "auth_fail_window_start (stats_at c ip) = w0"
    and "w0 \<noteq> 0" and "t - w0 \<le> seconds (ac_auth_fail_window_seconds (abuse_config c))"
  shows "stats_at (record_auth_failure t ip c) ip =
    (let n = auth_fail_count (stats_at c ip) + 1
     in if n \<ge> nat (ac_auth_fail_max (abuse_config c))
        then (stats_at c ip)\<lparr>auth_fail_count := 0, auth_fail_window_start := t,
               cooldown_until := t + seconds (ac_cooldown_seconds (abuse_config c))\<rparr>
        else (stats_at c ip)\<lparr>auth_fail_count := n\<rparr>)"
  using assms by (auto simp: record_auth_failure_def limits_failures_def Let_def)

text \<open>Counting on inside one window: below the maximum nothing but the count changes, and the
  failure that reaches it starts the cooldown.\<close>

lemma record_failures_in_window:
  assumes "limits_failures (abuse_config c)" and "auth_fail_window_start (stats_at c ip) = w0"
    and "w0 \<noteq> 0" and "\<forall>t \<in> set ts. t - w0 \<le> seconds (ac_auth_fail_window_seconds (abuse_config c))"
    and "auth_fail_count (stats_at c ip) < nat (ac_auth_fail_max (abuse_config c))"
    and "auth_fail_count (stats_at c ip) + length ts \<le> nat (ac_auth_fail_max (abuse_config c))"
  shows "cooldown_until (stats_at (record_failures ip ts c) ip) =
    (if auth_fail_count (stats_at c ip) + length ts = nat (ac_auth_fail_max (abuse_config c))
     then last ts + seconds (ac_cooldown_seconds (abuse_config c))
     else cooldown_until (stats_at c ip))"
  using assms
proof (induction ts arbitrary: c)
  case Nil
  then show ?case by simp
next
  case (Cons t ts)
  let ?m = "nat (ac_auth_fail_max (abuse_config c))"
  note step = record_auth_failure_in_window [OF Cons.prems(1-3), of t]
  show ?case
  proof (cases ts)
    case Nil
    then show ?thesis using step Cons.prems by (auto simp: Let_def)
  next
    case (Cons u us)
    then have "auth_fail_count (stats_at c ip) + 1 < ?m" using Cons.prems(6) by simp
    then have "stats_at (record_auth_failure t ip c) ip =
        (stats_at c ip)\<lparr>auth_fail_count := auth_fail_count (stats_at c ip) + 1\<rparr>"
      using step Cons.prems(4) by (simp add: Let_def)
    then show ?thesis
      using Cons.IH [of "record_auth_failure t ip c"] Cons.prems Cons
        \<open>auth_fail_count (stats_at c ip) + 1 < ?m\<close> by simp
  qed
qed

lemma record_auth_failure_first:
  assumes "limits_failures (abuse_config c)" and "per_ip c ip = None"
  shows "stats_at (record_auth_failure t ip c) ip =
    (if ac_auth_fail_max (abuse_config c) = 1
     then fresh_stats\<lparr>auth_fail_window_start := t,
            cooldown_until := t + seconds (ac_cooldown_seconds (abuse_config c))\<rparr>
     else fresh_stats\<lparr>auth_fail_window_start := t, auth_fail_count := 1\<rparr>)"
  using assms by (auto simp: record_auth_failure_def limits_failures_def Let_def stats_at_def [of c]
      fresh_stats_def)

lemma is_ip_in_cooldown_iff:
  assumes "limits_failures (abuse_config c)" and "0 \<le> now"
  shows "is_ip_in_cooldown now ip c \<longleftrightarrow> now < cooldown_until (stats_at c ip)"
  using assms by (auto simp: is_ip_in_cooldown_def limits_failures_def stats_at_def fresh_stats_def
      split: option.split)

text \<open>The entries of other addresses are never touched.\<close>

lemma other_ip_untouched:
  assumes "ip' \<noteq> ip"
  shows "per_ip (record_auth_failure t ip c) ip' = per_ip c ip'"
    and "per_ip (release_connection_slot t ip c) ip' = per_ip c ip'"
    and "per_ip (snd (try_acquire_connection_slot ip c)) ip' = per_ip c ip'"
  using assms by (auto simp: record_auth_failure_def release_connection_slot_def
      try_acquire_connection_slot_def put_stats_def Let_def split: option.split)

text \<open>A recorded failure keeps the entry of the address in the table: neither acquiring nor
  releasing a slot removes it, at any time.\<close>

lemma failure_entry_stays:
  assumes "0 < auth_fail_count (stats_at c ip)"
  shows "0 < auth_fail_count (stats_at (release_connection_slot now ip' c) ip)"
    and "0 < auth_fail_count (stats_at (snd (try_acquire_connection_slot ip' c)) ip)"
  using assms by (auto simp: release_connection_slot_def try_acquire_connection_slot_def
      put_stats_def stats_at_def fresh_stats_def Let_def split: option.splits)

end
