(* ===== verification/Fallback_Controller.thy ===== *)
theory Fallback_Controller
  imports Config Slot_Counter
begin

text \<open>
  \<open>src/core/runtime_metrics.{h,cpp}\<close> and \<open>src/core/fallback_controller.{h,cpp}\<close>: the counters of
  the server and the budget of concurrent fallback sessions kept in one of them.

  The counters are \<open>std::atomic<uint64_t>\<close> and wrap.  The budget is modelled twice: as the
  two operations run alone, which the service model composes, and as the individual
  atomic accesses of any number of threads, whose interleavings the step relation
  generates.  A weak compare-exchange may fail although the value is the expected one.
\<close>

section \<open>Runtime metrics\<close>

record RuntimeMetrics =
  accepted_connections_total :: u64
  rejected_connections_total :: u64
  rejected_fallback_total :: u64
  auth_success_total :: u64
  auth_failure_total :: u64
  fallback_connections_total :: u64
  active_sessions :: u64
  active_fallback_sessions :: u64

definition zero_metrics :: RuntimeMetrics where
  "zero_metrics = \<lparr>accepted_connections_total = 0, rejected_connections_total = 0,
     rejected_fallback_total = 0, auth_success_total = 0, auth_failure_total = 0,
     fallback_connections_total = 0, active_sessions = 0, active_fallback_sessions = 0\<rparr>"

definition u64_string :: "u64 \<Rightarrow> string" where
  "u64_string v = dec_string (unat v)"

definition summary :: "RuntimeMetrics \<Rightarrow> string" where
  "summary m =
     ''runtime metrics: accepted='' @ u64_string (accepted_connections_total m) @
     '', rejected='' @ u64_string (rejected_connections_total m) @
     '', rejected_fallback='' @ u64_string (rejected_fallback_total m) @
     '', auth_success='' @ u64_string (auth_success_total m) @
     '', auth_failure='' @ u64_string (auth_failure_total m) @
     '', fallback='' @ u64_string (fallback_connections_total m) @
     '', active='' @ u64_string (active_sessions m) @
     '', active_fallback='' @ u64_string (active_fallback_sessions m)"

section \<open>The operations\<close>

definition limits_fallback :: "AbuseControlConfig \<Rightarrow> bool" where
  "limits_fallback cfg \<longleftrightarrow> ac_enabled cfg \<and> 0 < ac_fallback_max_active cfg"

definition fallback_budget :: "AbuseControlConfig \<Rightarrow> u64" where
  "fallback_budget cfg = of_int (ac_fallback_max_active cfg)"

definition try_acquire_slot :: "AbuseControlConfig \<Rightarrow> RuntimeMetrics \<Rightarrow> bool \<times> RuntimeMetrics" where
  "try_acquire_slot cfg m =
     (if \<not> ac_enabled cfg \<or> ac_fallback_max_active cfg \<le> 0
      then (True, m\<lparr>fallback_connections_total := fallback_connections_total m + 1,
                    active_fallback_sessions := active_fallback_sessions m + 1\<rparr>)
      else if active_fallback_sessions m < fallback_budget cfg
      then (True, m\<lparr>active_fallback_sessions := active_fallback_sessions m + 1,
                    fallback_connections_total := fallback_connections_total m + 1\<rparr>)
      else (False, m\<lparr>rejected_fallback_total := rejected_fallback_total m + 1\<rparr>))"

definition release_slot :: "RuntimeMetrics \<Rightarrow> RuntimeMetrics" where
  "release_slot m =
     (if active_fallback_sessions m > 0
      then m\<lparr>active_fallback_sessions := active_fallback_sessions m - 1\<rparr>
      else m)"

section \<open>The operations, one atomic access at a time\<close>

text \<open>Where a thread stands: between the operations, at the start of an acquire, before the second
  increment of the unlimited case, at the head of the compare-exchange loop with the value
  it believes current, after a successful exchange, at the start of a release, or at the
  head of the release loop.\<close>

datatype fb_pc =
    Idle
  | Acq_begin
  | Acq_unlimited
  | Acq_loop u64
  | Acq_granted
  | Rel_begin
  | Rel_loop u64

text \<open>\<open>fb_held\<close> counts the slots that were granted to a caller and whose release has not begun: a
  caller releases only what it holds.\<close>

record fb_state =
  fb_metrics :: RuntimeMetrics
  fb_threads :: "fb_pc list"
  fb_held :: nat

definition fb_goto :: "nat \<Rightarrow> fb_pc \<Rightarrow> fb_state \<Rightarrow> fb_state" where
  "fb_goto i pc s = s\<lparr>fb_threads := (fb_threads s)[i := pc]\<rparr>"

definition fb_at :: "fb_state \<Rightarrow> nat \<Rightarrow> fb_pc \<Rightarrow> bool" where
  "fb_at s i pc \<longleftrightarrow> i < length (fb_threads s) \<and> fb_threads s ! i = pc"

abbreviation fb_active :: "fb_state \<Rightarrow> u64" where
  "fb_active s \<equiv> active_fallback_sessions (fb_metrics s)"

text \<open>The first load of an acquire and its failing exchanges are relaxed: the value they see may be
  stale, so it is any value.  A release begins after the acquire it undoes, and sees the
  counter from then on.\<close>

inductive fb_step :: "AbuseControlConfig \<Rightarrow> fb_state \<Rightarrow> fb_state \<Rightarrow> bool" for cfg where
  call_acquire: "fb_at s i Idle \<Longrightarrow> fb_step cfg s (fb_goto i Acq_begin s)"
| count_unlimited: "fb_at s i Acq_begin \<Longrightarrow> \<not> limits_fallback cfg \<Longrightarrow>
    fb_step cfg s (fb_goto i Acq_unlimited
      (s\<lparr>fb_metrics := (fb_metrics s)\<lparr>fallback_connections_total := fallback_connections_total (fb_metrics s) + 1\<rparr>\<rparr>))"
| grant_unlimited: "fb_at s i Acq_unlimited \<Longrightarrow>
    fb_step cfg s (fb_goto i Idle
      (s\<lparr>fb_metrics := (fb_metrics s)\<lparr>active_fallback_sessions := fb_active s + 1\<rparr>,
         fb_held := fb_held s + 1\<rparr>))"
| load_acquire: "fb_at s i Acq_begin \<Longrightarrow> limits_fallback cfg \<Longrightarrow>
    fb_step cfg s (fb_goto i (Acq_loop v) s)"
| exchange_acquire: "fb_at s i (Acq_loop cur) \<Longrightarrow> cur < fallback_budget cfg \<Longrightarrow> fb_active s = cur \<Longrightarrow>
    fb_step cfg s (fb_goto i Acq_granted
      (s\<lparr>fb_metrics := (fb_metrics s)\<lparr>active_fallback_sessions := cur + 1\<rparr>\<rparr>))"
| retry_acquire: "fb_at s i (Acq_loop cur) \<Longrightarrow> cur < fallback_budget cfg \<Longrightarrow>
    fb_step cfg s (fb_goto i (Acq_loop v) s)"
| return_granted: "fb_at s i Acq_granted \<Longrightarrow>
    fb_step cfg s (fb_goto i Idle
      (s\<lparr>fb_metrics := (fb_metrics s)\<lparr>fallback_connections_total := fallback_connections_total (fb_metrics s) + 1\<rparr>,
         fb_held := fb_held s + 1\<rparr>))"
| return_refused: "fb_at s i (Acq_loop cur) \<Longrightarrow> \<not> cur < fallback_budget cfg \<Longrightarrow>
    fb_step cfg s (fb_goto i Idle
      (s\<lparr>fb_metrics := (fb_metrics s)\<lparr>rejected_fallback_total := rejected_fallback_total (fb_metrics s) + 1\<rparr>\<rparr>))"
| call_release: "fb_at s i Idle \<Longrightarrow> 0 < fb_held s \<Longrightarrow>
    fb_step cfg s (fb_goto i Rel_begin (s\<lparr>fb_held := fb_held s - 1\<rparr>))"
| load_release: "fb_at s i Rel_begin \<Longrightarrow> fb_step cfg s (fb_goto i (Rel_loop (fb_active s)) s)"
| exchange_release: "fb_at s i (Rel_loop a) \<Longrightarrow> 0 < a \<Longrightarrow> fb_active s = a \<Longrightarrow>
    fb_step cfg s (fb_goto i Idle
      (s\<lparr>fb_metrics := (fb_metrics s)\<lparr>active_fallback_sessions := a - 1\<rparr>\<rparr>))"
| retry_release: "fb_at s i (Rel_loop a) \<Longrightarrow> 0 < a \<Longrightarrow>
    fb_step cfg s (fb_goto i (Rel_loop (fb_active s)) s)"
| leave_release: "fb_at s i (Rel_loop a) \<Longrightarrow> a = 0 \<Longrightarrow> fb_step cfg s (fb_goto i Idle s)"

definition fb_start :: "nat \<Rightarrow> fb_state" where
  "fb_start n = \<lparr>fb_metrics = zero_metrics, fb_threads = replicate n Idle, fb_held = 0\<rparr>"

definition fb_reachable :: "AbuseControlConfig \<Rightarrow> nat \<Rightarrow> fb_state \<Rightarrow> bool" where
  "fb_reachable cfg n s \<longleftrightarrow> (fb_step cfg)\<^sup>*\<^sup>* (fb_start n) s"

section \<open>The budget under every interleaving\<close>

text \<open>A thread between a successful exchange and its return, or inside a release, owns a slot that
  \<open>fb_held\<close> does not count.\<close>

fun owns_slot :: "fb_pc \<Rightarrow> bool" where
  "owns_slot Acq_granted = True"
| "owns_slot Rel_begin = True"
| "owns_slot (Rel_loop a) = True"
| "owns_slot pc = False"

definition fb_owners :: "fb_state \<Rightarrow> nat" where
  "fb_owners s = fb_held s + length (filter owns_slot (fb_threads s))"

definition fb_inv :: "AbuseControlConfig \<Rightarrow> fb_state \<Rightarrow> bool" where
  "fb_inv cfg s \<longleftrightarrow>
     unat (fb_active s) = fb_owners s \<and>
     fb_active s \<le> fallback_budget cfg \<and>
     list_all (\<lambda>pc. pc \<noteq> Acq_unlimited \<and> pc \<noteq> Rel_loop 0) (fb_threads s)"

lemma fb_goto_simps [simp]:
  "fb_metrics (fb_goto i pc s) = fb_metrics s"
  "fb_held (fb_goto i pc s) = fb_held s"
  "fb_threads (fb_goto i pc s) = (fb_threads s)[i := pc]"
  by (simp_all add: fb_goto_def)

lemma fb_owners_goto:
  assumes "fb_at s i old"
  shows "fb_owners (fb_goto i pc s) + (if owns_slot old then 1 else 0) =
         fb_owners s + (if owns_slot pc then 1 else 0)"
  using assms length_filter_update [of i "fb_threads s" owns_slot pc]
  by (auto simp: fb_at_def fb_owners_def)

lemma fb_owner_counts: "fb_inv cfg s \<Longrightarrow> fb_at s i pc \<Longrightarrow> owns_slot pc \<Longrightarrow> fb_active s \<noteq> 0"
  using filter_pos_if_nth [of i "fb_threads s" owns_slot]
  by (auto simp: fb_inv_def fb_at_def fb_owners_def)

lemma fb_inv_goto:
  assumes "fb_inv cfg s" and "fb_at s i old" and "owns_slot pc = owns_slot old"
    and "pc \<noteq> Acq_unlimited" and "pc \<noteq> Rel_loop 0"
  shows "fb_inv cfg (fb_goto i pc s)"
  using assms fb_owners_goto [OF assms(2), of pc]
  by (auto simp: fb_inv_def intro: list_all_update split: if_splits)

text \<open>Changing the counter, the held slots and one thread at once.\<close>

lemma fb_inv_change:
  assumes "fb_inv cfg s" and "fb_at s i old" and "fb_threads s' = (fb_threads s)[i := pc]"
    and "pc \<noteq> Acq_unlimited" and "pc \<noteq> Rel_loop 0"
    and "unat (fb_active s') + fb_held s + (if owns_slot old then 1 else 0) =
         unat (fb_active s) + fb_held s' + (if owns_slot pc then 1 else 0)"
    and "fb_active s' \<le> fallback_budget cfg"
  shows "fb_inv cfg s'"
  using assms length_filter_update [of i "fb_threads s" owns_slot pc]
  by (auto simp: fb_inv_def fb_at_def fb_owners_def intro: list_all_update split: if_splits)

lemma fb_at_ok: "fb_inv cfg s \<Longrightarrow> fb_at s i pc \<Longrightarrow> pc \<noteq> Acq_unlimited \<and> pc \<noteq> Rel_loop 0"
  by (auto simp: fb_inv_def fb_at_def list_all_length)

lemma unat_inc_below:
  assumes "(a :: u64) < b"
  shows "unat (a + 1) = unat a + 1" and "a + 1 \<le> b"
proof -
  show le: "a + 1 \<le> b" using assms by (rule inc_le)
  have "unat a + 1 < 2 ^ 64"
    using assms unsigned_less [of b, where ?'a = nat] by (simp add: word_less_nat_alt)
  then show "unat (a + 1) = unat a + 1" by (simp add: unat_word_ariths)
qed

lemma unat_dec_above:
  assumes "0 < (a :: u64)" and "a \<le> b"
  shows "unat (a - 1) + 1 = unat a" and "a - 1 \<le> b"
proof -
  show eq: "unat (a - 1) + 1 = unat a"
    using assms(1) by (simp add: unat_minus_one word_gt_0 unat_gt_0)
  then show "a - 1 \<le> b" using assms(2) by (simp add: word_le_nat_alt)
qed

lemma fb_step_inv: "fb_step cfg s s' \<Longrightarrow> limits_fallback cfg \<Longrightarrow> fb_inv cfg s \<Longrightarrow> fb_inv cfg s'"
proof (induction rule: fb_step.induct)
  case (exchange_acquire s i cur)
  note inc = unat_inc_below [OF exchange_acquire(2)]
  show ?case
    by (rule fb_inv_change [OF exchange_acquire(5,1), of _ Acq_granted])
       (use inc exchange_acquire(3) in simp_all)
next
  case (return_granted s i)
  then show ?case
    by (intro fb_inv_change [OF return_granted(3,1), of _ Idle]) (simp_all add: fb_inv_def)
next
  case (return_refused s i cur)
  then show ?case
    by (intro fb_inv_change [OF return_refused(4,1), of _ Idle]) (simp_all add: fb_inv_def)
next
  case (call_release s i)
  then show ?case
    by (intro fb_inv_change [OF call_release(4,1), of _ Rel_begin]) (simp_all add: fb_inv_def)
next
  case (exchange_release s i a)
  have "a \<le> fallback_budget cfg" using exchange_release by (simp add: fb_inv_def)
  note dec = unat_dec_above [OF exchange_release(2) this]
  show ?case
    by (rule fb_inv_change [OF exchange_release(5,1), of _ Idle])
       (use dec exchange_release(3) in simp_all)
next
  case (load_release s i)
  then show ?case using fb_owner_counts [of cfg s i Rel_begin] by (intro fb_inv_goto) auto
next
  case (retry_release s i a)
  then show ?case using fb_owner_counts [of cfg s i "Rel_loop a"] by (intro fb_inv_goto) auto
next
  case (leave_release s i a)
  then show ?case using fb_at_ok [of cfg s i "Rel_loop a"] by simp
next
  case (grant_unlimited s i)
  then show ?case using fb_at_ok [of cfg s i Acq_unlimited] by simp
qed (auto intro: fb_inv_goto)

lemma fb_start_inv: "limits_fallback cfg \<Longrightarrow> fb_inv cfg (fb_start n)"
  by (simp add: fb_inv_def fb_start_def zero_metrics_def fb_owners_def list_all_iff)

lemma fb_reachable_inv: "fb_reachable cfg n s \<Longrightarrow> limits_fallback cfg \<Longrightarrow> fb_inv cfg s"
  unfolding fb_reachable_def
  by (induction rule: rtranclp_induct) (auto intro: fb_start_inv fb_step_inv)

section \<open>Uninterrupted operations\<close>

text \<open>A thread that runs alone and whose exchanges do not fail spuriously takes the steps of the
  one-piece operation.\<close>

lemma fb_at_goto [simp]: "i < length (fb_threads s) \<Longrightarrow> fb_at (fb_goto i pc s) i pc"
  by (simp add: fb_at_def)

lemma fb_goto_goto [simp]: "fb_goto i pc (fb_goto i pc' s) = fb_goto i pc s"
  by (simp add: fb_goto_def)

lemma fb_goto_metrics [simp]:
  "(fb_goto i pc s)\<lparr>fb_metrics := m\<rparr> = fb_goto i pc (s\<lparr>fb_metrics := m\<rparr>)"
  "(fb_goto i pc s)\<lparr>fb_held := h\<rparr> = fb_goto i pc (s\<lparr>fb_held := h\<rparr>)"
  by (simp_all add: fb_goto_def)

lemma solo_acquire:
  assumes "fb_at s i Acq_begin" and "try_acquire_slot cfg (fb_metrics s) = (ok, m)"
  shows "(fb_step cfg)\<^sup>*\<^sup>* s
    (fb_goto i Idle (s\<lparr>fb_metrics := m, fb_held := fb_held s + (if ok then 1 else 0)\<rparr>))"
proof -
  have i: "i < length (fb_threads s)" using assms(1) by (simp add: fb_at_def)
  let ?m = "fb_metrics s"
  consider "\<not> limits_fallback cfg"
    | "limits_fallback cfg" "fb_active s < fallback_budget cfg"
    | "limits_fallback cfg" "\<not> fb_active s < fallback_budget cfg" by blast
  then show ?thesis
  proof cases
    case 1
    note r = count_unlimited [OF assms(1) 1]
    from i have "fb_step cfg (fb_goto i Acq_unlimited
      (s\<lparr>fb_metrics := ?m\<lparr>fallback_connections_total := fallback_connections_total ?m + 1\<rparr>\<rparr>))
      (fb_goto i Idle (s\<lparr>fb_metrics := m, fb_held := fb_held s + (if ok then 1 else 0)\<rparr>))"
      using grant_unlimited [of "fb_goto i Acq_unlimited
      (s\<lparr>fb_metrics := ?m\<lparr>fallback_connections_total := fallback_connections_total ?m + 1\<rparr>\<rparr>)" i cfg]
        assms(2) 1 by (auto simp: try_acquire_slot_def limits_fallback_def not_less)
    with r show ?thesis by (meson converse_rtranclp_into_rtranclp r_into_rtranclp)
  next
    case 2
    let ?s1 = "fb_goto i (Acq_loop (fb_active s)) s"
    let ?s2 = "fb_goto i Acq_granted (s\<lparr>fb_metrics := ?m\<lparr>active_fallback_sessions := fb_active s + 1\<rparr>\<rparr>)"
    note r1 = load_acquire [OF assms(1) 2(1), of "fb_active s"]
    have r2: "fb_step cfg ?s1 ?s2"
      using exchange_acquire [of ?s1 i "fb_active s" cfg] 2 i by simp
    have r3: "fb_step cfg ?s2 (fb_goto i Idle (s\<lparr>fb_metrics := m, fb_held := fb_held s + (if ok then 1 else 0)\<rparr>))"
      using return_granted [of ?s2 i cfg] i assms(2) 2
      by (auto simp: try_acquire_slot_def limits_fallback_def)
    from r1 r2 r3 show ?thesis by (meson converse_rtranclp_into_rtranclp r_into_rtranclp)
  next
    case 3
    let ?s1 = "fb_goto i (Acq_loop (fb_active s)) s"
    note r1 = load_acquire [OF assms(1) 3(1), of "fb_active s"]
    have r2: "fb_step cfg ?s1 (fb_goto i Idle (s\<lparr>fb_metrics := m, fb_held := fb_held s + (if ok then 1 else 0)\<rparr>))"
      using return_refused [of ?s1 i "fb_active s" cfg] i assms(2) 3
      by (auto simp: try_acquire_slot_def limits_fallback_def)
    from r1 r2 show ?thesis by (meson converse_rtranclp_into_rtranclp r_into_rtranclp)
  qed
qed

lemma solo_release:
  assumes "fb_at s i Rel_begin"
  shows "(fb_step cfg)\<^sup>*\<^sup>* s (fb_goto i Idle (s\<lparr>fb_metrics := release_slot (fb_metrics s)\<rparr>))"
proof -
  have i: "i < length (fb_threads s)" using assms(1) by (simp add: fb_at_def)
  let ?s1 = "fb_goto i (Rel_loop (fb_active s)) s"
  note r1 = load_release [OF assms(1), of cfg]
  have r2: "fb_step cfg ?s1 (fb_goto i Idle (s\<lparr>fb_metrics := release_slot (fb_metrics s)\<rparr>))"
  proof (cases "fb_active s = 0")
    case True
    then show ?thesis using leave_release [of ?s1 i "fb_active s" cfg] i by (simp add: release_slot_def)
  next
    case False
    then show ?thesis using exchange_release [of ?s1 i "fb_active s" cfg] i
      by (simp add: release_slot_def word_gt_0)
  qed
  from r1 r2 show ?thesis by (meson converse_rtranclp_into_rtranclp r_into_rtranclp)
qed

section \<open>Every interleaving is a sequence of operations\<close>

text \<open>The metrics as a caller may take them to be: a thread between its successful exchange and the
  second increment has acquired its slot.\<close>

definition is_granted :: "fb_pc \<Rightarrow> bool" where
  "is_granted pc \<longleftrightarrow> pc = Acq_granted"

definition fb_abs :: "fb_state \<Rightarrow> RuntimeMetrics" where
  "fb_abs s = (fb_metrics s)\<lparr>fallback_connections_total :=
     fallback_connections_total (fb_metrics s) + of_nat (length (filter is_granted (fb_threads s)))\<rparr>"

text \<open>What the step of one thread is, seen from outside.  An exchange that succeeds is an acquire that is granted
  or a release; leaving the loop of an acquire is the refusal the operation answers for the counter it
  has read; all other steps are invisible.\<close>

fun fb_effect :: "AbuseControlConfig \<Rightarrow> fb_pc \<Rightarrow> fb_pc \<Rightarrow> RuntimeMetrics \<times> nat \<Rightarrow> RuntimeMetrics \<times> nat \<Rightarrow> bool" where
  "fb_effect cfg (Acq_loop v) Acq_granted (m, n) (m', n') \<longleftrightarrow> try_acquire_slot cfg m = (True, m') \<and> n' = n + 1"
| "fb_effect cfg (Acq_loop v) Idle (m, n) (m', n') \<longleftrightarrow>
     try_acquire_slot cfg (m\<lparr>active_fallback_sessions := v\<rparr>) = (False, m'\<lparr>active_fallback_sessions := v\<rparr>) \<and>
     active_fallback_sessions m' = active_fallback_sessions m \<and> n' = n"
| "fb_effect cfg (Rel_loop v) Idle (m, n) (m', n') \<longleftrightarrow> 0 < n \<and> m' = release_slot m \<and> n = n' + 1"
| "fb_effect cfg pc pc' mn mn' \<longleftrightarrow> mn' = mn"

lemma granted_update:
  assumes "fb_at s i old"
  shows "length (filter is_granted ((fb_threads s)[i := pc])) + (if is_granted old then 1 else 0) =
         length (filter is_granted (fb_threads s)) + (if is_granted pc then 1 else 0)"
  using assms length_filter_update [of i "fb_threads s" is_granted pc] by (auto simp: fb_at_def)

lemma granted_owed:
  assumes "fb_at s i old"
  shows "of_nat (length (filter is_granted ((fb_threads s)[i := pc]))) + (if is_granted old then 1 else 0) =
         of_nat (length (filter is_granted (fb_threads s))) + (if is_granted pc then 1 else (0 :: u64))"
  using arg_cong [OF granted_update [OF assms, of pc], of "of_nat :: nat \<Rightarrow> u64"] by (simp split: if_splits)

lemma fb_abs_goto:
  assumes "fb_at s i old" and "\<not> is_granted old" and "\<not> is_granted pc"
  shows "fb_abs (fb_goto i pc s) = fb_abs s"
  using granted_update [OF assms(1), of pc] assms(2,3) by (simp add: fb_abs_def)

lemma fb_step_effect:
  assumes "fb_step cfg s s'" and "limits_fallback cfg" and "fb_inv cfg s"
  shows "\<exists>i pc pc'. fb_at s i pc \<and> fb_threads s' = (fb_threads s)[i := pc'] \<and>
    fb_effect cfg pc pc' (fb_abs s, fb_owners s) (fb_abs s', fb_owners s')"
  using assms(1)
proof cases
  case (call_acquire i)
  then show ?thesis using fb_abs_goto [of s i Idle Acq_begin] fb_owners_goto [of s i Idle Acq_begin]
    by (intro exI [of _ i] exI [of _ Idle] exI [of _ Acq_begin]) (simp add: is_granted_def)
next
  case (count_unlimited i)
  then show ?thesis using assms(2) by simp
next
  case (grant_unlimited i)
  then show ?thesis using fb_at_ok [OF assms(3), of i Acq_unlimited] by simp
next
  case (load_acquire i v)
  then show ?thesis using fb_abs_goto [of s i Acq_begin "Acq_loop v"] fb_owners_goto [of s i Acq_begin "Acq_loop v"]
    by (intro exI [of _ i] exI [of _ Acq_begin] exI [of _ "Acq_loop v"]) (simp add: is_granted_def)
next
  case (exchange_acquire i cur)
  have o: "fb_owners s' = fb_owners s + 1"
    using exchange_acquire fb_owners_goto [of s i "Acq_loop cur" Acq_granted] by (simp add: fb_owners_def)
  have "try_acquire_slot cfg (fb_abs s) = (True, fb_abs s')"
    using exchange_acquire assms(2) granted_owed [of s i "Acq_loop cur" Acq_granted]
    by (simp add: try_acquire_slot_def fb_abs_def limits_fallback_def is_granted_def not_le algebra_simps)
  with o exchange_acquire show ?thesis
    by (intro exI [of _ i] exI [of _ "Acq_loop cur"] exI [of _ Acq_granted]) simp
next
  case (retry_acquire i cur v)
  then show ?thesis using fb_abs_goto [of s i "Acq_loop cur" "Acq_loop v"] fb_owners_goto [of s i "Acq_loop cur" "Acq_loop v"]
    by (intro exI [of _ i] exI [of _ "Acq_loop cur"] exI [of _ "Acq_loop v"]) (simp add: is_granted_def)
next
  case (return_granted i)
  have o: "fb_owners s' = fb_owners s"
    using return_granted fb_owners_goto [of s i Acq_granted Idle] by (simp add: fb_owners_def)
  have "fb_abs s' = fb_abs s"
    using return_granted granted_owed [of s i Acq_granted Idle] by (simp add: fb_abs_def is_granted_def algebra_simps)
  with o return_granted show ?thesis
    by (intro exI [of _ i] exI [of _ Acq_granted] exI [of _ Idle]) simp
next
  case (return_refused i cur)
  have o: "fb_owners s' = fb_owners s"
    using return_refused fb_owners_goto [of s i "Acq_loop cur" Idle] by (simp add: fb_owners_def)
  have "try_acquire_slot cfg ((fb_abs s)\<lparr>active_fallback_sessions := cur\<rparr>) = (False, (fb_abs s')\<lparr>active_fallback_sessions := cur\<rparr>)"
    using return_refused assms(2) granted_update [of s i "Acq_loop cur" Idle]
    by (simp add: try_acquire_slot_def fb_abs_def limits_fallback_def is_granted_def)
  with o return_refused show ?thesis
    by (intro exI [of _ i] exI [of _ "Acq_loop cur"] exI [of _ Idle]) (simp add: fb_abs_def)
next
  case (call_release i)
  have "fb_owners s' = fb_owners s"
    using call_release fb_owners_goto [of s i Idle Rel_begin] by (simp add: fb_owners_def)
  moreover have "fb_abs s' = fb_abs s" using call_release fb_abs_goto [of s i Idle Rel_begin] by (simp add: fb_abs_def is_granted_def)
  ultimately show ?thesis using call_release
    by (intro exI [of _ i] exI [of _ Idle] exI [of _ Rel_begin]) simp
next
  case (load_release i)
  then show ?thesis using fb_abs_goto [of s i Rel_begin "Rel_loop (fb_active s)"] fb_owners_goto [of s i Rel_begin "Rel_loop (fb_active s)"]
    by (intro exI [of _ i] exI [of _ Rel_begin] exI [of _ "Rel_loop (fb_active s)"]) (simp add: is_granted_def)
next
  case (exchange_release i a)
  have o: "fb_owners s = fb_owners s' + 1"
    using exchange_release fb_owners_goto [of s i "Rel_loop a" Idle] by (simp add: fb_owners_def)
  have "fb_abs s' = release_slot (fb_abs s)"
    using exchange_release granted_update [of s i "Rel_loop a" Idle] by (simp add: release_slot_def fb_abs_def is_granted_def)
  with o exchange_release show ?thesis
    by (intro exI [of _ i] exI [of _ "Rel_loop a"] exI [of _ Idle]) simp
next
  case (retry_release i a)
  then show ?thesis using fb_abs_goto [of s i "Rel_loop a" "Rel_loop (fb_active s)"] fb_owners_goto [of s i "Rel_loop a" "Rel_loop (fb_active s)"]
    by (intro exI [of _ i] exI [of _ "Rel_loop a"] exI [of _ "Rel_loop (fb_active s)"]) (simp add: is_granted_def)
next
  case (leave_release i a)
  then show ?thesis using fb_at_ok [OF assms(3), of i "Rel_loop a"] by simp
qed

section \<open>The budget as a slot counter\<close>

text \<open>The increments the service makes of the other counters.\<close>

datatype metric_event =
    Ev_accepted
  | Ev_rejected
  | Ev_auth_success
  | Ev_auth_failure
  | Ev_session_started
  | Ev_session_ended

fun count_event :: "metric_event \<Rightarrow> RuntimeMetrics \<Rightarrow> RuntimeMetrics" where
  "count_event Ev_accepted m = m\<lparr>accepted_connections_total := accepted_connections_total m + 1\<rparr>"
| "count_event Ev_rejected m = m\<lparr>rejected_connections_total := rejected_connections_total m + 1\<rparr>"
| "count_event Ev_auth_success m = m\<lparr>auth_success_total := auth_success_total m + 1\<rparr>"
| "count_event Ev_auth_failure m = m\<lparr>auth_failure_total := auth_failure_total m + 1\<rparr>"
| "count_event Ev_session_started m = m\<lparr>active_sessions := active_sessions m + 1\<rparr>"
| "count_event Ev_session_ended m =
     (if active_sessions m > 0 then m\<lparr>active_sessions := active_sessions m - 1\<rparr> else m)"

lemma count_event_fallback [simp]:
  "active_fallback_sessions (count_event e m) = active_fallback_sessions m"
  by (cases e) simp_all

lemma unat_fallback_budget:
  "0 < ac_fallback_max_active cfg \<Longrightarrow> ac_fallback_max_active cfg < 2 ^ 31 \<Longrightarrow>
   unat (fallback_budget cfg) = nat (ac_fallback_max_active cfg)"
  by (simp add: fallback_budget_def unat_eq_nat_uint uint_word_of_int)

lemma release_slot_active: "unat (active_fallback_sessions (release_slot m)) = unat (active_fallback_sessions m) - 1"
  by (simp add: release_slot_def word_gt_0 unat_minus_one)

interpretation fallback_slots: slot_counter
  "\<lambda>(cfg, m). limits_fallback cfg"
  "\<lambda>(cfg, m). unat (fallback_budget cfg)"
  "\<lambda>(cfg, m). \<lambda>_ :: unit. unat (active_fallback_sessions m)"
  "\<lambda>_ (cfg, m). map_prod id (Pair cfg) (try_acquire_slot cfg m)"
  "\<lambda>_ :: unit. \<lambda>_ (cfg, m). (cfg, release_slot m)"
  "\<lambda>e (cfg, m). (cfg, count_event e m)"
  by unfold_locales
     (auto simp: try_acquire_slot_def limits_fallback_def fun_eq_iff release_slot_active
       word_less_nat_alt unat_inc_below [unfolded word_less_nat_alt] split: if_splits)

end
