(* ===== verification/Service.thy ===== *)
theory Service
  imports Server_Session_Slots Abuse_Controller Fallback_Controller
begin

text \<open>
  \<open>src/core/service.{h,cpp}\<close>: the part of the service that admits connections and that the
  sessions call back.

  The state is the metrics, the abuse controller and the reading of the steady clock.  The
  sessions run with callbacks into it, as \<open>create_server_session\<close> binds them.  The release
  of a connection slot reads and writes \<open>active_sessions\<close> with a compare-exchange loop of the
  same shape as the fallback counter's; it is one step here.
\<close>

section \<open>State and callbacks\<close>

record ServiceState =
  sv_metrics :: RuntimeMetrics
  sv_abuse :: AbuseController
  sv_now :: int
  next_worker :: u64

definition new_service :: "Config \<Rightarrow> int \<Rightarrow> ServiceState" where
  "new_service cfg now = \<lparr>sv_metrics = zero_metrics, sv_abuse = new_abuse_controller (abuse_control cfg),
     sv_now = now, next_worker = 0\<rparr>"

definition svc_release_connection_slot :: "endpoint \<Rightarrow> ServiceState \<Rightarrow> ServiceState" where
  "svc_release_connection_slot ep sv =
     sv\<lparr>sv_metrics := count_event Ev_session_ended (sv_metrics sv),
        sv_abuse := release_connection_slot (sv_now sv) (ep_ip ep) (sv_abuse sv)\<rparr>"

definition svc_record_auth_success :: "ServiceState \<Rightarrow> ServiceState" where
  "svc_record_auth_success sv = sv\<lparr>sv_metrics := count_event Ev_auth_success (sv_metrics sv)\<rparr>"

definition svc_record_auth_failure :: "endpoint \<Rightarrow> ServiceState \<Rightarrow> ServiceState" where
  "svc_record_auth_failure ep sv =
     sv\<lparr>sv_metrics := count_event Ev_auth_failure (sv_metrics sv),
        sv_abuse := record_auth_failure (sv_now sv) (ep_ip ep) (sv_abuse sv)\<rparr>"

definition svc_release_fallback_slot :: "ServiceState \<Rightarrow> ServiceState" where
  "svc_release_fallback_slot sv = sv\<lparr>sv_metrics := release_slot (sv_metrics sv)\<rparr>"

definition svc_record_fallback_connection :: "Config \<Rightarrow> ServiceState \<Rightarrow> bool \<times> ServiceState" where
  "svc_record_fallback_connection cfg sv =
     (case try_acquire_slot (abuse_control cfg) (sv_metrics sv) of (granted, m) \<Rightarrow> (granted, sv\<lparr>sv_metrics := m\<rparr>))"

text \<open>The environment \<open>create_server_session\<close> and \<open>create_trusted_front_server_session\<close> give a session.\<close>

definition server_env ::
    "Config \<Rightarrow> ServiceState Authenticator option \<Rightarrow> string \<Rightarrow> (string \<Rightarrow> ptree option) \<Rightarrow> string option \<Rightarrow>
     ServiceState session_env" where
  "server_env cfg auth plain_http_response rj alpn = \<lparr>
     se_config = cfg,
     se_auth = auth,
     se_plain_http_response = plain_http_response,
     se_admission = \<lparr>
       cb_record_auth_success = Some svc_record_auth_success,
       cb_record_auth_failure = Some svc_record_auth_failure,
       cb_acquire_fallback_slot = Some (svc_record_fallback_connection cfg)\<rparr>,
     se_lifecycle = \<lparr>
       cb_release_connection_slot = Some svc_release_connection_slot,
       cb_release_fallback_slot = Some svc_release_fallback_slot\<rparr>,
     se_read_json = rj,
     se_alpn = alpn\<rparr>"

section \<open>Workers\<close>

text \<open>The index \<open>get_worker_io_context\<close> picks among \<open>n\<close> workers: \<open>None\<close> is the service's own context.\<close>

definition get_worker_io_context :: "bool \<Rightarrow> nat \<Rightarrow> ServiceState \<Rightarrow> nat option \<times> ServiceState" where
  "get_worker_io_context use_multi_io_context n sv =
     (if use_multi_io_context \<and> n \<noteq> 0
      then (Some (unat (next_worker sv) mod n), sv\<lparr>next_worker := next_worker sv + 1\<rparr>)
      else (None, sv))"

text \<open>The number of threads and the mode, as the constructor computes them from
  \<open>std::thread::hardware_concurrency()\<close> and whether the platform has \<open>SO_REUSEPORT\<close>.\<close>

definition thread_count :: "Config \<Rightarrow> nat \<Rightarrow> int" where
  "thread_count cfg hardware_concurrency =
     (if threads cfg \<le> 0
      then (if int hardware_concurrency \<le> 0 then 1 else int hardware_concurrency)
      else threads cfg)"

definition multi_io_context :: "bool \<Rightarrow> Config \<Rightarrow> nat \<Rightarrow> bool" where
  "multi_io_context has_reuse_port cfg hardware_concurrency \<longleftrightarrow>
     has_reuse_port \<and> thread_count cfg hardware_concurrency > 1 \<and> tcp_reuse_port (tcp cfg)"

section \<open>Admission\<close>

datatype AcceptDecision = RejectCooldown | RejectConnectionLimit | StartSession

definition evaluate_incoming_connection :: "Config \<Rightarrow> endpoint \<Rightarrow> ServiceState \<Rightarrow> AcceptDecision \<times> ServiceState" where
  "evaluate_incoming_connection cfg ep sv =
     (if run_type cfg \<noteq> SERVER then (StartSession, sv)
      else if is_ip_in_cooldown (sv_now sv) (ep_ip ep) (sv_abuse sv) then (RejectCooldown, sv)
      else case try_acquire_connection_slot (ep_ip ep) (sv_abuse sv) of (granted, ac) \<Rightarrow>
        (if granted then StartSession else RejectConnectionLimit, sv\<lparr>sv_abuse := ac\<rparr>))"

section \<open>Handoffs and sessions\<close>

definition maybe_build_external_front_handoff ::
    "(string \<Rightarrow> ptree option) \<Rightarrow> Config \<Rightarrow> ExternalFrontHandoff option" where
  "maybe_build_external_front_handoff rj cfg =
     (let ef = external_front cfg; evaluation = stub_evaluate rj ef
      in if st_decision evaluation \<noteq> StubInactive
         then (if st_decision evaluation = ActiveWithoutInput then None
               else br_handoff (build_trusted_internal_handoff (the (st_input evaluation))))
         else
           (let injection = evaluate_injection metadata_active metadata_injection_mode_name
                              metadata_maybe_build_context ef
            in if ir_decision injection = Inactive then None
               else if ir_decision injection = ActiveNoMetadata then None
               else br_handoff (build_test_injected_handoff injection)))"

definition maybe_apply_external_front_handoff ::
    "ExternalFrontHandoff option \<Rightarrow> ServerSession \<Rightarrow> ServerSession" where
  "maybe_apply_external_front_handoff handoff s =
     (case handoff of
        None \<Rightarrow> s
      | Some h \<Rightarrow>
          if \<not> contract_accepted (evaluate_handoff_contract h) then s
          else set_external_front_handoff h s)"

definition create_server_session :: "(string \<Rightarrow> ptree option) \<Rightarrow> Config \<Rightarrow> bool \<Rightarrow> ServerSession" where
  "create_server_session rj cfg apply_default_handoff =
     (if apply_default_handoff
      then maybe_apply_external_front_handoff (maybe_build_external_front_handoff rj cfg) new_session
      else new_session)"

definition create_trusted_front_server_session :: "Config \<Rightarrow> ServerSession" where
  "create_trusted_front_server_session cfg =
     enable_trusted_front_ingress_mode (ef_trusted_front_listener_use_mtls (external_front cfg)) new_session"

text \<open>When the constructor sets up the listener of the trusted front.\<close>

definition trusted_front_listening :: "Config \<Rightarrow> bool" where
  "trusted_front_listening cfg \<longleftrightarrow> run_type cfg = SERVER \<and> ef_enabled (external_front cfg) \<and>
     ef_enable_trusted_front_listener (external_front cfg)"

section \<open>Accepting\<close>

datatype accept_error = Accept_ok | Accept_aborted | Accept_failed

text \<open>\<open>handle_accept_completion\<close> over any kind of session: its \<open>start\<close> and the closing of its socket
  are arguments.  \<open>remote\<close> is what \<open>remote_endpoint\<close> yields.  The result is the returned
  value, whether the session was started, and the states.\<close>

definition handle_accept_completion ::
    "Config \<Rightarrow> ('s \<times> ServiceState \<Rightarrow> 's \<times> ServiceState) \<Rightarrow> ('s \<Rightarrow> 's) \<Rightarrow>
     accept_error \<Rightarrow> endpoint option \<Rightarrow> bool \<Rightarrow> 's \<times> ServiceState \<Rightarrow> bool \<times> bool \<times> 's \<times> ServiceState" where
  "handle_accept_completion cfg start_session close_socket error remote bypass_public_admission = (\<lambda>(s, sv).
     let rejected = (\<lambda>sv. (True, False, close_socket s, sv\<lparr>sv_metrics := count_event Ev_rejected (sv_metrics sv)\<rparr>))
     in case error of
          Accept_aborted \<Rightarrow> (False, False, s, sv)
        | Accept_failed \<Rightarrow> (True, False, s, sv)
        | Accept_ok \<Rightarrow>
           (case remote of
              None \<Rightarrow> (True, False, s, sv)
            | Some ep \<Rightarrow>
                if bypass_public_admission \<and> \<not> admission_allowed (evaluate_trusted_front_admission (external_front cfg) ep)
                then rejected sv
                else
                  (case (if bypass_public_admission then (StartSession, sv) else evaluate_incoming_connection cfg ep sv) of
                     (RejectCooldown, sv) \<Rightarrow> rejected sv
                   | (RejectConnectionLimit, sv) \<Rightarrow> rejected sv
                   | (StartSession, sv) \<Rightarrow>
                       (let m = count_event Ev_accepted (sv_metrics sv);
                            m = (if run_type cfg = SERVER then count_event Ev_session_started m else m)
                        in case start_session (s, sv\<lparr>sv_metrics := m\<rparr>) of (s, sv) \<Rightarrow> (True, True, s, sv)))))"

text \<open>The socket of a server session that was not admitted.\<close>

definition close_accepted :: "ServerSession \<Rightarrow> ServerSession" where
  "close_accepted s = s\<lparr>in_open := False\<rparr>"

section \<open>The callbacks keep the slot contract\<close>

text \<open>An authenticator works on its data base only.\<close>

definition auth_frame :: "ServiceState Authenticator option \<Rightarrow> bool" where
  "auth_frame auth \<longleftrightarrow>
     (\<forall>a pw r t sv. auth = Some a \<longrightarrow>
        sv_metrics (au_record a pw r t sv) = sv_metrics sv \<and> sv_abuse (au_record a pw r t sv) = sv_abuse sv)"

definition fallback_count :: "ServiceState \<Rightarrow> nat" where
  "fallback_count sv = unat (active_fallback_sessions (sv_metrics sv))"

definition fallback_ok :: "Config \<Rightarrow> ServiceState Authenticator option \<Rightarrow> ServiceState \<Rightarrow> bool" where
  "fallback_ok cfg auth sv \<longleftrightarrow> limits_fallback (abuse_control cfg) \<and> auth_frame auth \<and>
     fallback_count sv \<le> unat (fallback_budget (abuse_control cfg))"

definition conn_count :: "string \<Rightarrow> ServiceState \<Rightarrow> nat" where
  "conn_count ip sv = slots_in_use (sv_abuse sv) ip"

definition conn_ok :: "ServiceState Authenticator option \<Rightarrow> nat \<Rightarrow> string \<Rightarrow> ServiceState \<Rightarrow> bool" where
  "conn_ok auth lim ip sv \<longleftrightarrow> limits_connections (abuse_config (sv_abuse sv)) \<and> auth_frame auth \<and>
     nat (ac_per_ip_max_connections (abuse_config (sv_abuse sv))) = lim \<and> conn_count ip sv \<le> lim"

lemma server_env_simps [simp]:
  "se_config (server_env cfg auth plain rj alpn) = cfg"
  "se_auth (server_env cfg auth plain rj alpn) = auth"
  "cb_record_auth_success (se_admission (server_env cfg auth plain rj alpn)) = Some svc_record_auth_success"
  "cb_record_auth_failure (se_admission (server_env cfg auth plain rj alpn)) = Some svc_record_auth_failure"
  "cb_acquire_fallback_slot (se_admission (server_env cfg auth plain rj alpn)) = Some (svc_record_fallback_connection cfg)"
  "cb_release_connection_slot (se_lifecycle (server_env cfg auth plain rj alpn)) = Some svc_release_connection_slot"
  "cb_release_fallback_slot (se_lifecycle (server_env cfg auth plain rj alpn)) = Some svc_release_fallback_slot"
  by (simp_all add: server_env_def)

lemma record_usage_frame:
  assumes "auth_frame auth"
  shows "sv_metrics (record_usage auth pw r t sv) = sv_metrics sv" "sv_abuse (record_usage auth pw r t sv) = sv_abuse sv"
  using assms by (auto simp: record_usage_def auth_frame_def split: option.split)

lemma release_fallback_count: "fallback_count (svc_release_fallback_slot sv) = fallback_count sv - 1"
  by (simp add: fallback_count_def svc_release_fallback_slot_def release_slot_active)

lemma callback_counts [simp]:
  "fallback_count (svc_release_connection_slot ep sv) = fallback_count sv"
  "fallback_count (svc_record_auth_success sv) = fallback_count sv"
  "fallback_count (svc_record_auth_failure ep sv) = fallback_count sv"
  "conn_count ip (svc_release_fallback_slot sv) = conn_count ip sv"
  "conn_count ip (svc_record_auth_success sv) = conn_count ip sv"
  "conn_count ip (svc_record_auth_failure ep sv) = conn_count ip sv"
  by (simp_all add: fallback_count_def conn_count_def svc_release_connection_slot_def svc_record_auth_success_def
      svc_record_auth_failure_def svc_release_fallback_slot_def)

lemma callback_config [simp]:
  "abuse_config (sv_abuse (svc_release_connection_slot ep sv)) = abuse_config (sv_abuse sv)"
  "abuse_config (sv_abuse (svc_record_auth_success sv)) = abuse_config (sv_abuse sv)"
  "abuse_config (sv_abuse (svc_record_auth_failure ep sv)) = abuse_config (sv_abuse sv)"
  "abuse_config (sv_abuse (svc_release_fallback_slot sv)) = abuse_config (sv_abuse sv)"
  by (simp_all add: svc_release_connection_slot_def svc_record_auth_success_def
      svc_record_auth_failure_def svc_release_fallback_slot_def)

lemma release_conn_count:
  "limits_connections (abuse_config (sv_abuse sv)) \<Longrightarrow>
   conn_count ip (svc_release_connection_slot ep sv) = conn_count ip sv - (if ep_ip ep = ip then 1 else 0)"
  by (simp add: conn_count_def svc_release_connection_slot_def release_connection_slot_slots)

lemma acquire_fallback_count:
  assumes "fallback_ok cfg auth sv" and "svc_record_fallback_connection cfg sv = (granted, sv')"
  shows "fallback_ok cfg auth sv'" and "fallback_count sv' = fallback_count sv + (if granted then 1 else 0)"
    and "sv_abuse sv' = sv_abuse sv"
proof -
  obtain m where m: "try_acquire_slot (abuse_control cfg) (sv_metrics sv) = (granted, m)" "sv' = sv\<lparr>sv_metrics := m\<rparr>"
    using assms(2) by (auto simp: svc_record_fallback_connection_def split: prod.splits)
  have lim: "limits_fallback (abuse_control cfg)" using assms(1) by (simp add: fallback_ok_def)
  show "sv_abuse sv' = sv_abuse sv" using m by simp
  have "unat (active_fallback_sessions m) = unat (active_fallback_sessions (sv_metrics sv)) + (if granted then 1 else 0) \<and>
      unat (active_fallback_sessions m) \<le> unat (fallback_budget (abuse_control cfg))"
    using m(1) lim assms(1)
      unat_inc_below [of "active_fallback_sessions (sv_metrics sv)" "fallback_budget (abuse_control cfg)"]
    by (auto simp: try_acquire_slot_def limits_fallback_def fallback_ok_def fallback_count_def word_less_nat_alt
        split: if_splits)
  then show "fallback_ok cfg auth sv'" "fallback_count sv' = fallback_count sv + (if granted then 1 else 0)"
    using m(2) assms(1) by (simp_all add: fallback_ok_def fallback_count_def)
qed

interpretation fb_account: slot_account "server_env cfg auth plain rj alpn" fallback_count fb_claim "fallback_ok cfg auth"
  for cfg auth plain rj alpn
proof unfold_locales
  fix s :: ServerSession and w granted flag w'
  assume "fallback_ok cfg auth w" "\<not> fallback_slot_acquired s"
    "try_acquire_fallback_slot (se_admission (server_env cfg auth plain rj alpn)) False w = (granted, flag, w')"
  then show "fallback_ok cfg auth w' \<and>
      fallback_count w' + fb_claim s = fallback_count w + fb_claim (s\<lparr>fallback_slot_acquired := flag\<rparr>)"
    using acquire_fallback_count [of cfg auth w]
    by (auto simp: try_acquire_fallback_slot_def fb_claim_def split: prod.splits)
next
  fix s :: ServerSession and w conn fb w'
  assume "fallback_ok cfg auth w" "fb_claim s \<le> fallback_count w"
    "release_slots (se_lifecycle (server_env cfg auth plain rj alpn)) (in_endpoint s)
       (connection_slot_acquired s) (fallback_slot_acquired s) w = (conn, fb, w')"
  then show "fallback_ok cfg auth w' \<and> fallback_count w' = fallback_count w - fb_claim s \<and>
      fb_claim (s\<lparr>connection_slot_acquired := conn, fallback_slot_acquired := fb\<rparr>) = 0"
    by (auto simp: release_slots_def Let_def fb_claim_def fallback_ok_def release_fallback_count split: if_splits)
qed (auto simp: claims_same call0_def call1_def fallback_ok_def record_usage_frame fallback_count_def
      svc_record_auth_success_def svc_record_auth_failure_def)

interpretation conn_account:
  slot_account "server_env cfg auth plain rj alpn" "conn_count ip" "\<lambda>s. conn_claim s ip" "conn_ok auth lim ip"
  for cfg auth plain rj alpn ip lim
proof unfold_locales
  fix s :: ServerSession and w granted flag w'
  assume "conn_ok auth lim ip w" "\<not> fallback_slot_acquired s"
    "try_acquire_fallback_slot (se_admission (server_env cfg auth plain rj alpn)) False w = (granted, flag, w')"
  then show "conn_ok auth lim ip w' \<and>
      conn_count ip w' + conn_claim s ip = conn_count ip w + conn_claim (s\<lparr>fallback_slot_acquired := flag\<rparr>) ip"
    by (auto simp: try_acquire_fallback_slot_def svc_record_fallback_connection_def conn_claim_def conn_ok_def
        conn_count_def split: prod.splits)
next
  fix s :: ServerSession and w conn fb w'
  assume "conn_ok auth lim ip w" "conn_claim s ip \<le> conn_count ip w"
    "release_slots (se_lifecycle (server_env cfg auth plain rj alpn)) (in_endpoint s)
       (connection_slot_acquired s) (fallback_slot_acquired s) w = (conn, fb, w')"
  then show "conn_ok auth lim ip w' \<and> conn_count ip w' = conn_count ip w - conn_claim s ip \<and>
      conn_claim (s\<lparr>connection_slot_acquired := conn, fallback_slot_acquired := fb\<rparr>) ip = 0"
    by (auto simp: release_slots_def Let_def conn_claim_def conn_ok_def release_conn_count split: if_splits)
qed (auto simp: claims_same call0_def call1_def conn_ok_def record_usage_frame conn_count_def
      svc_record_auth_success_def svc_record_auth_failure_def)

end
