(* ===== verification/Server_Session_Bytes.thy ===== *)
theory Server_Session_Bytes
  imports Server_Session_Steps
begin

text \<open>
  What a server session does to the bytes it relays: in every reachable state the bytes
  written in a direction are a prefix of the bytes to relay in that direction, and all of
  them while no write is in progress.  The byte counters of the session agree with them.
\<close>

section \<open>The invariant\<close>

definition up_write :: "ServerSession \<Rightarrow> completion option option" where
  "up_write s = (case ups s of [(Out_write n acc, c)] \<Rightarrow> Some c | _ \<Rightarrow> None)"

definition down_write :: "ServerSession \<Rightarrow> completion option option" where
  "down_write s = (case downs s of [(In_write, c)] \<Rightarrow> Some c | _ \<Rightarrow> None)"

abbreviation up_bytes :: "ServerSession \<Rightarrow> io_trace \<Rightarrow> string" where
  "up_bytes s tr \<equiv> out_write_buf s @ tr_up tr"

text \<open>The count of sent bytes, against the bytes to relay: the bytes of a write count when it is done.\<close>

definition sent_count :: "(async_op \<times> completion option) list \<Rightarrow> nat \<Rightarrow> u64 \<Rightarrow> nat \<Rightarrow> bool" where
  "sent_count ps len sent all_len \<longleftrightarrow>
     (case ps of
        [(Out_write n acc, c)] \<Rightarrow> n = len \<and> acc \<and> sent + of_nat n = of_nat all_len
      | _ \<Rightarrow> sent = of_nat all_len)"

definition sent_ok :: "ServerSession \<Rightarrow> io_trace \<Rightarrow> bool" where
  "sent_ok s tr \<longleftrightarrow> sent_count (ups s) (length (out_write_data s)) (sent_len s) (length (up_bytes s tr))"

definition up_inv :: "ServerSession \<Rightarrow> io_trace \<Rightarrow> bool" where
  "up_inv s tr \<longleftrightarrow>
     (case status s of
        FORWARD_TCP \<Rightarrow>
          flow (up_bytes s tr) (tr_out_wire tr) (tr_out_off tr) (out_write_data s) (up_write s) \<and> sent_ok s tr
      | DESTROY \<Rightarrow> is_prefix (tr_out_wire tr) (up_bytes s tr)
      | HANDSHAKE \<Rightarrow> tr_up tr = [] \<and> tr_out_wire tr = [] \<and> tr_out_off tr = 0 \<and> sent_len s = 0
      | UDP_FORWARD \<Rightarrow> tr_up tr = [] \<and> tr_out_wire tr = [] \<and> tr_out_off tr = 0)"

definition down_inv :: "ServerSession \<Rightarrow> io_trace \<Rightarrow> bool" where
  "down_inv s tr \<longleftrightarrow>
     (case status s of
        FORWARD_TCP \<Rightarrow>
          flow (tr_down tr) (tr_in_wire tr) (tr_in_off tr) (in_write_data s) (down_write s) \<and>
          recv_len s = of_nat (length (tr_down tr))
      | UDP_FORWARD \<Rightarrow>
          flow (tr_down tr) (tr_in_wire tr) (tr_in_off tr) (in_write_data s) (down_write s)
      | DESTROY \<Rightarrow> is_prefix (tr_in_wire tr) (tr_down tr)
      | HANDSHAKE \<Rightarrow> tr_down tr = [] \<and> tr_in_wire tr = [] \<and> tr_in_off tr = 0 \<and>
          (list_all (\<lambda>p. fst p \<noteq> Plain_http_write) (ups s) \<longrightarrow> recv_len s = 0))"

definition bytes_inv :: "ServerSession \<Rightarrow> io_trace \<Rightarrow> bool" where
  "bytes_inv s tr \<longleftrightarrow> tok_inv False False s \<and> up_inv s tr \<and> down_inv s tr"

lemma up_inv_prefix: "up_inv s tr \<Longrightarrow> is_prefix (tr_out_wire tr) (up_bytes s tr)"
  by (cases "status s") (auto simp: up_inv_def dest: flow_prefix, auto simp: is_prefix_def)

lemma down_inv_prefix: "down_inv s tr \<Longrightarrow> is_prefix (tr_in_wire tr) (tr_down tr)"
  by (cases "status s") (auto simp: down_inv_def dest: flow_prefix, auto simp: is_prefix_def)

section \<open>What the handlers leave alone\<close>

lemma destroy_fields [simp]:
  "out_write_buf (fst (destroy e (s, w))) = out_write_buf s"
  "status (fst (destroy e (s, w))) = DESTROY"
  by (auto simp: destroy_def Let_def split_beta closing_defs)

text \<open>Handlers of the handshake phase that do not complete the connection: the session ends, or
  goes on with the counters and the direction to the client untouched.\<close>

definition quiet :: "ServerSession \<Rightarrow> ServerSession \<Rightarrow> bool" where
  "quiet s s' \<longleftrightarrow> status s' = DESTROY \<or>
     (status s' = HANDSHAKE \<or> status s' = UDP_FORWARD) \<and> sent_len s' = sent_len s \<and> recv_len s' = recv_len s \<and>
     downs s' = downs s"

lemma quiet_destroy: "quiet s (fst (destroy e (s', w)))"
  by (simp add: quiet_def)

lemma quiet_udp_sent: "status s' = UDP_FORWARD \<Longrightarrow> quiet s s' \<Longrightarrow> quiet s (fst (udp_sent e (s', w)))"
  using try_parse_udp_cases [of s'] by (auto simp: udp_sent_def starts_defs quiet_def)

lemma quiet_begin_tcp_relay:
  "status s = HANDSHAKE \<Longrightarrow> quiet s0 s \<Longrightarrow> quiet s0 (fst (snd (begin_tcp_relay e t b (s, w))))"
  by (auto simp: begin_tcp_relay_def Let_def quiet_def split: prod.split)

lemma quiet_execute_plan:
  assumes "status s = HANDSHAKE" and "quiet s0 s"
  shows "quiet s0 (fst (execute_plan e plan (s, w)))"
  using assms
  by (auto simp: execute_plan_def start_udp_forward_def connect_outbound_def Let_def
      intro!: quiet_udp_sent quiet_begin_tcp_relay quiet_destroy) (auto simp: quiet_def)

lemma quiet_handle_payload:
  assumes "status s = HANDSHAKE" and "quiet s0 s"
  shows "quiet s0 (fst (handle_handshake_payload e data (s, w)))"
  using assms
  by (auto simp: handle_handshake_payload_def intro!: quiet_execute_plan split: sum.split prod.split)
     (auto simp: quiet_def)

lemma quiet_refl: "status s = HANDSHAKE \<Longrightarrow> quiet s s"
  by (simp add: quiet_def)

lemma quiet_bootstrap_read:
  "status s = HANDSHAKE \<Longrightarrow> quiet s (fst (trusted_front_ingress_read e data (s, w)))"
  by (auto simp: trusted_front_ingress_read_def set_external_front_handoff_def Let_def starts_defs
      intro!: quiet_handle_payload quiet_destroy) (auto simp: quiet_def)

lemma quiet_in_recv: "status s = HANDSHAKE \<Longrightarrow> quiet s (fst (in_recv e data (s, w)))"
  by (auto simp: in_recv_def Let_def intro!: quiet_handle_payload) (auto simp: quiet_def)

lemma quiet_tcp_resolved: "status s = HANDSHAKE \<Longrightarrow> quiet s (fst (tcp_resolved e ok t c (s, w)))"
  by (auto simp: tcp_resolved_def quiet_def split: completion.split option.split)

text \<open>Handlers of the direction to the target while UDP is forwarded.\<close>

definition udp_quiet :: "ServerSession \<Rightarrow> ServerSession \<Rightarrow> bool" where
  "udp_quiet s s' \<longleftrightarrow> status s' = DESTROY \<or>
     status s' = UDP_FORWARD \<and> in_write_data s' = in_write_data s \<and>
     (downs s' = downs s \<or> downs s = [] \<and> downs s' = [(Udp_read, None)])"

lemma udp_quiet_udp_sent:
  "status s' = UDP_FORWARD \<Longrightarrow> udp_quiet s s' \<Longrightarrow> udp_quiet s (fst (udp_sent e (s', w)))"
  using try_parse_udp_cases [of s'] by (auto simp: udp_sent_def starts_defs udp_quiet_def)

lemma udp_quiet_resolved:
  assumes "tok_inv True False s" and "status s = UDP_FORWARD"
  shows "udp_quiet s (fst (udp_resolved e ok pl n c (s, w)))"
proof -
  have "\<not> udp_open s \<Longrightarrow> downs s = []" using assms by (simp add: tok_inv_def)
  then show ?thesis
    using assms(2)
    by (auto simp: udp_resolved_def dispatch_udp_payload_def ensure_open_cases starts_defs udp_quiet_def
        split_beta split: completion.split option.split)
qed

lemma udp_quiet_up:
  assumes "tok_inv True False s" and "status s = UDP_FORWARD" and "udp_up op"
  shows "udp_quiet s (fst (on_complete e ok op c (s, w)))"
proof (cases op)
  case In_read
  with assms show ?thesis
    by (auto simp: in_recv_def Let_def intro!: udp_quiet_udp_sent split: completion.split)
       (auto simp: udp_quiet_def)
next
  case (Udp_write ep n)
  with assms show ?thesis by (auto intro!: udp_quiet_udp_sent) (auto simp: udp_quiet_def)
next
  case (Udp_resolve pl n a p)
  with assms show ?thesis by (simp add: udp_quiet_resolved)
qed (use assms(3) in auto)

text \<open>After the end of the session nothing it relayed changes any more.\<close>

lemma destroyed_stays:
  assumes "status s = DESTROY" and "forward_up op \<or> udp_up op \<or> is_down op \<or> is_closer op"
  shows "status (fst (on_complete e ok op c (s, w))) = DESTROY \<and>
    out_write_buf (fst (on_complete e ok op c (s, w))) = out_write_buf s"
  using assms
  by (cases op)
     (auto simp: in_recv_def in_sent_def out_recv_def out_sent_def udp_recv_def udp_sent_def udp_resolved_def
       dispatch_udp_payload_def ensure_open_cases starts_defs ssl_shutdown_cb_def close_in_socket_def Let_def
       destroy_def split: completion.split option.split)

section \<open>Steps\<close>

lemma note_run_frame:
  "tr_out_wire (note_run s op c tr) = tr_out_wire tr"
  "tr_in_wire (note_run s op c tr) = tr_in_wire tr"
  by (cases op; cases c; simp)+

lemma note_run_up: "op \<noteq> In_read \<or> status s \<noteq> FORWARD_TCP \<Longrightarrow> tr_up (note_run s op c tr) = tr_up tr"
  by (cases op; cases c) auto

lemma note_run_down:
  "\<not> is_down op \<or> status s = HANDSHAKE \<or> status s = DESTROY \<Longrightarrow> tr_down (note_run s op c tr) = tr_down tr"
  by (cases op; cases c) auto

lemma note_run_off:
  "\<not> is_write op \<Longrightarrow> tr_out_off (note_run s op c tr) = tr_out_off tr \<and> tr_in_off (note_run s op c tr) = tr_in_off tr"
  by (cases op; cases c) auto

lemma note_run_out_off: "(\<forall>n acc. op \<noteq> Out_write n acc) \<Longrightarrow> tr_out_off (note_run s op c tr) = tr_out_off tr"
  by (cases op; cases c) auto

lemma note_run_in_off: "op \<noteq> In_write \<Longrightarrow> tr_in_off (note_run s op c tr) = tr_in_off tr"
  by (cases op; cases c) auto

lemma destroyed_bytes:
  assumes "up_inv s tr" and "down_inv s tr" and "status s = DESTROY"
    and "forward_up op \<or> udp_up op \<or> is_down op \<or> is_closer op"
    and "s' = fst (on_complete e ok op c (s\<lparr>pending := q\<rparr>, w))"
  shows "up_inv s' (note_run s op c tr) \<and> down_inv s' (note_run s op c tr)"
  using destroyed_stays [of "s\<lparr>pending := q\<rparr>" op e ok c w] assms
  by (simp add: up_inv_def down_inv_def note_run_frame note_run_up note_run_down)

lemma handshake_bytes:
  assumes "tok_inv False False s" and "up_inv s tr" and "down_inv s tr" and "status s = HANDSHAKE"
    and "i < length (pending s)" and "pending s ! i = (op, Some c)"
    and "s' = fst (on_complete e ok op c (s\<lparr>pending := remove_nth i (pending s)\<rparr>, w))"
  shows "up_inv s' (note_run s op c tr) \<and> down_inv s' (note_run s op c tr)"
proof -
  let ?s = "s\<lparr>pending := remove_nth i (pending s)\<rparr>"
  have up: "is_up op"
    using assms(1,4-6) tok_inv_take_down(3) [OF assms(1,5,6)]
    by (cases op) (auto simp: tok_inv_def closers_def filter_empty_conv dest!: nth_mem)
  note take = tok_inv_take_up [OF assms(1,5,6) up]
  from take(3) assms(4) have hop: "handshake_op op" by simp
  then have tr: "note_run s op c tr = tr" using assms(4) by (cases op; cases c) auto
  have clean: "tr_up tr = []" "tr_out_wire tr = []" "tr_out_off tr = 0" "sent_len s = 0"
    "tr_down tr = []" "tr_in_wire tr = []" "tr_in_off tr = 0"
    using assms(2,3,4) by (simp_all add: up_inv_def down_inv_def)
  have recv: "op \<noteq> Plain_http_write \<Longrightarrow> recv_len s = 0"
    using assms(3,4) take(2) by (simp add: down_inv_def)
  have st: "status ?s = HANDSHAKE" "ups ?s = []" "downs ?s = []"
    using take(1) assms(4) by (simp_all add: tok_inv_def)
  have quiet_ok: "quiet ?s s' \<Longrightarrow> op \<noteq> Plain_http_write \<Longrightarrow> ?thesis"
    using clean recv st tr
    by (auto simp: quiet_def up_inv_def down_inv_def is_prefix_def flow_def down_write_def)
  show ?thesis
  proof (cases op)
    case Handshake
    then have "s' = fst (handshake_done e c (?s, w))" using assms(7) by simp
    then show ?thesis
      using quiet_ok quiet_destroy [of ?s e ?s w] Handshake st clean tr recv
      by (auto simp: handshake_done_def starts_defs quiet_def up_inv_def down_inv_def is_prefix_def split: if_splits)
  next
    case (Tcp_connect ep t)
    show ?thesis
    proof (cases "c = Done")
      case True
      with Tcp_connect assms(7) have "s' = tcp_connected ?s" by simp
      then show ?thesis using st clean tr recv Tcp_connect
        by (auto simp: tcp_connected_def starts_defs Let_def up_inv_def down_inv_def flow_def up_write_def
            down_write_def sent_ok_def sent_count_def)
    next
      case False
      with Tcp_connect show ?thesis using quiet_ok assms(7) quiet_destroy [of ?s e ?s w] by simp
    qed
  next
    case Plain_http_write
    then show ?thesis using assms(7) clean tr by (simp add: up_inv_def down_inv_def is_prefix_def)
  qed (use hop st quiet_ok assms(7) quiet_destroy [of ?s e ?s w] quiet_in_recv [of ?s e _ w]
      quiet_bootstrap_read [of ?s e _ w] quiet_tcp_resolved [of ?s e ok _ c w]
      in \<open>auto split: completion.splits\<close>)
qed

lemma udp_up_bytes:
  assumes "tok_inv True False s" and "up_inv s tr" and "down_inv s tr" and "status s = UDP_FORWARD"
    and "udp_up op" and "s' = fst (on_complete e ok op c (s, w))"
  shows "up_inv s' (note_run s op c tr) \<and> down_inv s' (note_run s op c tr)"
proof -
  have q: "udp_quiet s s'" using udp_quiet_up [OF assms(1,4,5)] assms(6) by simp
  have tr: "note_run s op c tr = tr" using assms(4,5) by (cases op; cases c) auto
  have u: "tr_up tr = []" "tr_out_wire tr = []" "tr_out_off tr = 0" using assms(2,4) by (simp_all add: up_inv_def)
  have pre: "is_prefix (tr_in_wire tr) (tr_down tr)" using down_inv_prefix [OF assms(3)] .
  have d: "flow (tr_down tr) (tr_in_wire tr) (tr_in_off tr) (in_write_data s) (down_write s)"
    using assms(3,4) by (simp add: down_inv_def)
  show ?thesis
    using q u pre d by (auto simp: tr udp_quiet_def up_inv_def down_inv_def is_prefix_def down_write_def)
qed

lemma udp_down_bytes:
  assumes "tok_inv False False s" and "up_inv s tr" and "down_inv s tr" and "status s = UDP_FORWARD"
    and "i < length (pending s)" and "pending s ! i = (op, Some c)" and "is_down op"
    and "s' = fst (on_complete e ok op c (s\<lparr>pending := remove_nth i (pending s)\<rparr>, w))"
  shows "up_inv s' (note_run s op c tr) \<and> down_inv s' (note_run s op c tr)"
proof -
  let ?s = "s\<lparr>pending := remove_nth i (pending s)\<rparr>"
  note take = tok_inv_take_down [OF assms(1,5,6,7)]
  have op: "udp_down op" using take(3) assms(4) by simp
  have st: "status ?s = UDP_FORWARD" "downs ?s = []"
    using take(1) assms(4) by (simp_all add: tok_inv_def)
  have u: "tr_up (note_run s op c tr) = []" "tr_out_wire (note_run s op c tr) = []" "tr_out_off (note_run s op c tr) = 0"
    using assms(2,4) op by (cases op; cases c; simp add: up_inv_def)+
  have pre: "is_prefix (tr_in_wire tr) (tr_down tr)" using down_inv_prefix [OF assms(3)] .
  have fl: "flow (tr_down tr) (tr_in_wire tr) (tr_in_off tr) (in_write_data s) (down_write s)"
    using assms(3,4) by (simp add: down_inv_def)
  have dead: "s' = fst (destroy e (?s, w)) \<Longrightarrow> tr_down (note_run s op c tr) = tr_down tr \<Longrightarrow> ?thesis"
    using pre u by (simp add: up_inv_def down_inv_def is_prefix_def note_run_frame)
  show ?thesis
  proof (cases op)
    case In_write
    then have "down_write s = Some (Some c)" using take(2) by (simp add: down_write_def)
    then show ?thesis using In_write assms(8) dead st u fl
      by (auto simp: in_sent_def starts_defs up_inv_def down_inv_def flow_def down_write_def)
  next
    case Udp_read
    then have "down_write s = None" using take(2) by (simp add: down_write_def)
    then show ?thesis using Udp_read assms(8,4) dead st u fl
      by (cases c) (auto simp: udp_recv_def starts_defs Let_def up_inv_def down_inv_def flow_def down_write_def)
  qed (use op in auto)
qed

lemma forward_up_bytes:
  assumes "tok_inv False False s" and "up_inv s tr" and "down_inv s tr" and "status s = FORWARD_TCP"
    and "i < length (pending s)" and "pending s ! i = (op, Some c)" and "is_up op"
    and "s' = fst (on_complete e ok op c (s\<lparr>pending := remove_nth i (pending s)\<rparr>, w))"
  shows "up_inv s' (note_run s op c tr) \<and> down_inv s' (note_run s op c tr)"
proof -
  let ?s = "s\<lparr>pending := remove_nth i (pending s)\<rparr>"
  note take = tok_inv_take_up [OF assms(1,5,6,7)]
  have op: "forward_up op" using take(3) assms(4) by simp
  have st: "status ?s = FORWARD_TCP" "ups ?s = []" using take(1) assms(4) by (simp_all add: tok_inv_def)
  have "\<not> is_down op" using op by (cases op) auto
  then have dn: "downs ?s = downs s"
    using remove_nth_filter(1) [of i "pending s" "\<lambda>p. is_down (fst p)"] assms(5,6) by (simp add: downs_def)
  have pre: "is_prefix (tr_in_wire tr) (tr_down tr)" "is_prefix (tr_out_wire tr) (up_bytes s tr)"
    using down_inv_prefix [OF assms(3)] up_inv_prefix [OF assms(2)] .
  have fl: "flow (up_bytes s tr) (tr_out_wire tr) (tr_out_off tr) (out_write_data s) (up_write s)" "sent_ok s tr"
    and fd: "flow (tr_down tr) (tr_in_wire tr) (tr_in_off tr) (in_write_data s) (down_write s)"
      "recv_len s = of_nat (length (tr_down tr))"
    using assms(2-4) by (simp_all add: up_inv_def down_inv_def)
  have dead: "s' = fst (destroy e (?s, w)) \<Longrightarrow> tr_up (note_run s op c tr) = tr_up tr \<Longrightarrow>
      tr_down (note_run s op c tr) = tr_down tr \<Longrightarrow> ?thesis"
    using pre by (simp add: up_inv_def down_inv_def note_run_frame)
  show ?thesis
  proof (cases op)
    case In_read
    then have "up_write s = None" using take(2) by (simp add: up_write_def)
    then show ?thesis using In_read assms(4,8) dead st fl fd dn take(2)
      by (cases c) (auto simp: in_recv_def starts_defs Let_def up_inv_def down_inv_def flow_def up_write_def
          down_write_def sent_ok_def sent_count_def)
  next
    case (Out_write n acc)
    then have "up_write s = Some (Some c)" using take(2) by (simp add: up_write_def)
    then show ?thesis using Out_write assms(8) dead st fl fd dn take(2)
      by (auto simp: out_sent_def starts_defs up_inv_def down_inv_def flow_def up_write_def down_write_def sent_ok_def sent_count_def)
  qed (use op in auto)
qed

lemma forward_down_bytes:
  assumes "tok_inv False False s" and "up_inv s tr" and "down_inv s tr" and "status s = FORWARD_TCP"
    and "i < length (pending s)" and "pending s ! i = (op, Some c)" and "is_down op"
    and "s' = fst (on_complete e ok op c (s\<lparr>pending := remove_nth i (pending s)\<rparr>, w))"
  shows "up_inv s' (note_run s op c tr) \<and> down_inv s' (note_run s op c tr)"
proof -
  let ?s = "s\<lparr>pending := remove_nth i (pending s)\<rparr>"
  note take = tok_inv_take_down [OF assms(1,5,6,7)]
  have op: "forward_down op" using take(3) assms(4) by simp
  have st: "status ?s = FORWARD_TCP" "downs ?s = []" using take(1) assms(4) by (simp_all add: tok_inv_def)
  have "\<not> is_up op" using op by (cases op) auto
  then have un: "ups ?s = ups s"
    using remove_nth_filter(1) [of i "pending s" "\<lambda>p. is_up (fst p)"] assms(5,6) by (simp add: ups_def)
  have pre: "is_prefix (tr_in_wire tr) (tr_down tr)" "is_prefix (tr_out_wire tr) (up_bytes s tr)"
    using down_inv_prefix [OF assms(3)] up_inv_prefix [OF assms(2)] .
  have fl: "flow (up_bytes s tr) (tr_out_wire tr) (tr_out_off tr) (out_write_data s) (up_write s)" "sent_ok s tr"
    and fd: "flow (tr_down tr) (tr_in_wire tr) (tr_in_off tr) (in_write_data s) (down_write s)"
      "recv_len s = of_nat (length (tr_down tr))"
    using assms(2-4) by (simp_all add: up_inv_def down_inv_def)
  have dead: "s' = fst (destroy e (?s, w)) \<Longrightarrow> tr_up (note_run s op c tr) = tr_up tr \<Longrightarrow>
      tr_down (note_run s op c tr) = tr_down tr \<Longrightarrow> ?thesis"
    using pre by (simp add: up_inv_def down_inv_def note_run_frame)
  show ?thesis
  proof (cases op)
    case In_write
    then have "down_write s = Some (Some c)" using take(2) by (simp add: down_write_def)
    then show ?thesis using In_write assms(8) dead st fl fd un
      by (auto simp: in_sent_def starts_defs up_inv_def down_inv_def flow_def up_write_def down_write_def sent_ok_def)
  next
    case Out_read
    then have "down_write s = None" using take(2) by (simp add: down_write_def)
    then show ?thesis using Out_read assms(4,8) dead st fl fd un
      by (cases c) (auto simp: out_recv_def starts_defs Let_def up_inv_def down_inv_def flow_def up_write_def
          down_write_def sent_ok_def)
  qed (use op in auto)
qed

lemma run_bytes:
  assumes "bytes_inv s tr" and "i < length (pending s)" and "pending s ! i = (op, Some c)"
    and "on_complete e ok op c (s\<lparr>pending := remove_nth i (pending s)\<rparr>, w) = (s', w')"
  shows "bytes_inv s' (note_run s op c tr)"
proof -
  let ?s = "s\<lparr>pending := remove_nth i (pending s)\<rparr>"
  have inv: "tok_inv False False s" "up_inv s tr" "down_inv s tr" using assms(1) by (simp_all add: bytes_inv_def)
  have s': "s' = fst (on_complete e ok op c (?s, w))" using assms(4) by simp
  have kinds: "is_up op \<or> is_down op \<or> is_closer op" by (cases op) auto
  have closer: "is_closer op \<Longrightarrow> status s = DESTROY"
    using inv(1) assms(2,3) by (auto simp: tok_inv_def closers_def filter_empty_conv dest!: nth_mem)
  have "up_inv s' (note_run s op c tr) \<and> down_inv s' (note_run s op c tr)"
  proof (cases "status s")
    case HANDSHAKE
    then show ?thesis using handshake_bytes [OF inv _ assms(2,3) s'] by simp
  next
    case FORWARD_TCP
    then show ?thesis using kinds closer forward_up_bytes [OF inv _ assms(2,3) _ s']
        forward_down_bytes [OF inv _ assms(2,3) _ s'] by auto
  next
    case UDP_FORWARD
    show ?thesis
    proof (cases "is_up op")
      case True
      note take = tok_inv_take_up [OF inv(1) assms(2,3) True]
      have "up_inv ?s tr" "down_inv ?s tr"
        using inv UDP_FORWARD True remove_nth_filter(1) [of i "pending s" "\<lambda>p. is_down (fst p)"] assms(2,3)
        by (cases op; simp add: up_inv_def down_inv_def down_write_def downs_def)+
      then have "up_inv s' (note_run ?s op c tr) \<and> down_inv s' (note_run ?s op c tr)"
        using udp_up_bytes [OF take(1), of tr op s' e ok c w] UDP_FORWARD take(3) s' by simp
      moreover have "note_run ?s op c tr = note_run s op c tr" by (cases op; cases c) simp_all
      ultimately show ?thesis by simp
    next
      case False
      then show ?thesis using kinds closer UDP_FORWARD udp_down_bytes [OF inv _ assms(2,3) _ s'] by auto
    qed
  next
    case DESTROY
    have "forward_up op \<or> udp_up op \<or> is_down op \<or> is_closer op"
      using kinds tok_inv_take_up(3) [OF inv(1) assms(2,3)] DESTROY by auto
    then show ?thesis using destroyed_bytes [OF inv(2,3) DESTROY _ s'] by simp
  qed
  moreover have "tok_inv False False s'" using run_tok [OF inv(1) assms(2-4)] .
  ultimately show ?thesis by (simp add: bytes_inv_def)
qed

lemma in_flight_down:
  assumes "tok_inv False False s" and "(In_write, None) \<in> set (pending s)"
  shows "downs s = [(In_write, None)]" and "status s = FORWARD_TCP \<or> status s = UDP_FORWARD"
proof -
  obtain i where i: "i < length (pending s)" "pending s ! i = (In_write, None)"
    using assms(2) by (auto simp: in_set_conv_nth)
  show d: "downs s = [(In_write, None)]" using tok_inv_take_down(2) [OF assms(1) i] by simp
  then show "status s = FORWARD_TCP \<or> status s = UDP_FORWARD"
    using assms(1) by (cases "status s") (auto simp: tok_inv_def)
qed

lemma in_flight_up:
  assumes "tok_inv False False s" and "(Out_write n acc, None) \<in> set (pending s)"
  shows "ups s = [(Out_write n acc, None)]" and "status s = FORWARD_TCP"
proof -
  obtain i where i: "i < length (pending s)" "pending s ! i = (Out_write n acc, None)"
    using assms(2) by (auto simp: in_set_conv_nth)
  show d: "ups s = [(Out_write n acc, None)]" using tok_inv_take_up(2) [OF assms(1) i] by simp
  then show "status s = FORWARD_TCP"
    using assms(1) by (cases "status s") (auto simp: tok_inv_def)
qed

lemma ready_tokens:
  assumes "tok_inv False False s" and "i < length (pending s)" and "pending s ! i = (op, None)"
  shows "ups (s\<lparr>pending := (pending s)[i := (op, Some c)]\<rparr>) = (if is_up op then [(op, Some c)] else ups s)"
    and "downs (s\<lparr>pending := (pending s)[i := (op, Some c)]\<rparr>) = (if is_down op then [(op, Some c)] else downs s)"
  using assms(2,3) tok_inv_take_up(2) [OF assms] tok_inv_take_down(2) [OF assms]
    update_filter [of i "pending s" "\<lambda>p. is_up (fst p)" "(op, Some c)"]
    update_filter [of i "pending s" "\<lambda>p. is_down (fst p)" "(op, Some c)"]
  by (simp_all add: ups_def downs_def)

lemma ready_bytes:
  assumes "bytes_inv s tr" and "i < length (pending s)" and "pending s ! i = (op, None)"
    and "admissible s tr op c"
  shows "bytes_inv (s\<lparr>pending := (pending s)[i := (op, Some c)]\<rparr>) tr"
proof -
  let ?s = "s\<lparr>pending := (pending s)[i := (op, Some c)]\<rparr>"
  have inv: "tok_inv False False s" "up_inv s tr" "down_inv s tr" using assms(1) by (simp_all add: bytes_inv_def)
  note rt = ready_tokens [OF inv(1) assms(2,3), of c]
  have u: "is_up op \<Longrightarrow> ups s = [(op, None)]" and d: "is_down op \<Longrightarrow> downs s = [(op, None)]"
    using tok_inv_take_up(2) [OF inv(1) assms(2,3)] tok_inv_take_down(2) [OF inv(1) assms(2,3)] by auto
  have "up_inv ?s tr"
  proof (cases "is_up op")
    case True
    with rt u have "ups ?s = [(op, Some c)]" "ups s = [(op, None)]" by auto
    then show ?thesis using inv(2) assms(4)
      by (cases "status s"; cases op) (auto simp: up_inv_def sent_ok_def sent_count_def up_write_def flow_def)
  next
    case False
    with rt have "ups ?s = ups s" by simp
    then show ?thesis using inv(2) by (cases "status s") (auto simp: up_inv_def sent_ok_def up_write_def)
  qed
  moreover have "down_inv ?s tr"
  proof (cases "is_down op")
    case True
    with rt d have "downs ?s = [(op, Some c)]" "downs s = [(op, None)]" "ups ?s = ups s" by (cases op; auto)+
    then show ?thesis using inv(3) assms(4)
      by (cases "status s"; cases op) (auto simp: down_inv_def down_write_def flow_def)
  next
    case False
    with rt have "downs ?s = downs s" by simp
    moreover have "list_all (\<lambda>p. fst p \<noteq> Plain_http_write) (ups ?s) = list_all (\<lambda>p. fst p \<noteq> Plain_http_write) (ups s)"
      using rt(1) u by (cases "is_up op") auto
    ultimately show ?thesis using inv(3) by (cases "status s") (auto simp: down_inv_def down_write_def)
  qed
  ultimately show ?thesis using ready_tok [OF inv(1) assms(2,3)] by (simp add: bytes_inv_def)
qed

lemma session_step_bytes:
  "session_step e (s, w, tr) (s', w', tr') \<Longrightarrow> bytes_inv s tr \<Longrightarrow> bytes_inv s' tr'"
proof (induction "(s, w, tr)" "(s', w', tr')" rule: session_step.induct)
  case (in_progress k)
  then have "downs s' = [(In_write, None)]" "status s' = FORWARD_TCP \<or> status s' = UDP_FORWARD"
    using in_flight_down by (auto simp: bytes_inv_def)
  then show ?case using in_progress
    by (auto simp: bytes_inv_def up_inv_def sent_ok_def down_inv_def down_write_def intro: flow_progress)
next
  case (out_progress n acc k)
  then have "ups s' = [(Out_write n acc, None)]" "status s' = FORWARD_TCP"
    using in_flight_up by (auto simp: bytes_inv_def)
  then show ?case using out_progress
    by (auto simp: bytes_inv_def up_inv_def sent_ok_def down_inv_def up_write_def intro: flow_progress)
qed (auto intro: ready_bytes run_bytes)

lemma server_step_bytes:
  "server_step e (s, w, tr) (s', w', tr') \<Longrightarrow> bytes_inv s tr \<Longrightarrow> bytes_inv s' tr'"
  by (elim server_stepE) (auto intro: session_step_bytes)

lemma start_bytes:
  assumes "fresh_session s"
  shows "bytes_inv (fst (start e remote (s, w))) empty_trace"
proof -
  have "status s = HANDSHAKE" "sent_len s = 0" "recv_len s = 0"
    using assms by (auto simp: fresh_session_def new_session_def)
  then have "up_inv (fst (start e remote (s, w))) empty_trace \<and> down_inv (fst (start e remote (s, w))) empty_trace"
    by (auto simp: start_def Let_def starts_defs up_inv_def down_inv_def empty_trace_def is_prefix_def
        split: option.split BootstrapMode.split)
  then show ?thesis using start_tok [OF assms] by (simp add: bytes_inv_def)
qed

lemma server_reachable_bytes:
  assumes "server_reachable e s tr"
  shows "bytes_inv s tr"
proof -
  have steps: "(server_step e)\<^sup>*\<^sup>* c c' \<Longrightarrow> bytes_inv (fst c) (snd (snd c)) \<Longrightarrow> bytes_inv (fst c') (snd (snd c'))" for c c'
    by (induction rule: rtranclp_induct) (auto intro: server_step_bytes)
  from assms obtain s0 remote w0 s1 w1 w where r: "fresh_session s0" "start e remote (s0, w0) = (s1, w1)"
      "(server_step e)\<^sup>*\<^sup>* (s1, w1, empty_trace) (s, w, tr)"
    by (auto simp: server_reachable_def)
  have "bytes_inv s1 empty_trace" using start_bytes [OF r(1), of e remote w0] r(2) by simp
  with steps [OF r(3)] show ?thesis by simp
qed

text \<open>The counts of a session that forwards TCP.\<close>

lemma forward_counts:
  assumes "bytes_inv s tr" and "status s = FORWARD_TCP"
  shows "recv_len s = of_nat (length (tr_down tr)) \<and>
    sent_len s + (if up_write s = None then 0 else of_nat (length (out_write_data s))) =
      of_nat (length (out_write_buf s @ tr_up tr))"
proof -
  have inv: "up_inv s tr" "down_inv s tr" "tok_inv False False s" using assms(1) by (simp_all add: bytes_inv_def)
  then obtain op c where u: "ups s = [(op, c)]" "forward_up op"
    using assms(2) by (auto simp: tok_inv_def token_def)
  have "sent_ok s tr" using inv assms(2) by (simp add: up_inv_def)
  with u have "sent_len s + (if up_write s = None then 0 else of_nat (length (out_write_data s))) =
      of_nat (length (out_write_buf s @ tr_up tr))"
    by (cases op) (auto simp: sent_ok_def sent_count_def up_write_def)
  then show ?thesis using inv assms(2) by (simp add: down_inv_def)
qed

end
