(* ===== verification/Server_Session_Buffers.thy ===== *)
theory Server_Session_Buffers
  imports Server_Session_Steps
begin

text \<open>
  The read buffers of a server session: in every reachable state each of them has one of
  the three sizes 16, 32 or 64 KiB, and whatever a queued read delivered fits the buffer
  it was read into.
\<close>

definition read_sizes :: "ServerSession \<Rightarrow> nat \<times> nat \<times> nat" where
  "read_sizes s = (in_read_size s, out_read_size s, udp_read_size s)"

fun fits :: "nat \<times> nat \<times> nat \<Rightarrow> async_op \<times> completion option \<Rightarrow> bool" where
  "fits (a, b, c) (In_read, Some (Received d)) = (length d \<le> a)"
| "fits (a, b, c) (Bootstrap_read, Some (Received d)) = (length d \<le> a)"
| "fits (a, b, c) (Out_read, Some (Received d)) = (length d \<le> b)"
| "fits (a, b, c) (Udp_read, Some (Datagram d ep)) = (length d \<le> c)"
| "fits z p = True"

fun valid_sizes :: "nat \<times> nat \<times> nat \<Rightarrow> bool" where
  "valid_sizes (a, b, c) = (valid_size a \<and> valid_size b \<and> valid_size c)"

fun sizes_le :: "nat \<times> nat \<times> nat \<Rightarrow> nat \<times> nat \<times> nat \<Rightarrow> bool" where
  "sizes_le (a, b, c) (a', b', c') = (a \<le> a' \<and> b \<le> b' \<and> c \<le> c')"

definition size_inv :: "ServerSession \<Rightarrow> bool" where
  "size_inv s \<longleftrightarrow> valid_sizes (read_sizes s) \<and> list_all (fits (read_sizes s)) (pending s)"

lemma fits_None [simp]: "fits z (op, None)"
  by (cases z) (cases op; simp)

lemma fits_Aborted [simp]: "fits z (op, Some Aborted)"
  by (cases z) (cases op; simp)

lemma fits_abort [simp]: "fits z p \<Longrightarrow> fits z (abort_on obj p)"
  by (cases p) (simp add: abort_set_def)

lemma fits_mono: "sizes_le z z' \<Longrightarrow> fits z p \<Longrightarrow> fits z' p"
proof -
  obtain op c where p: "p = (op, c)" by fastforce
  show "sizes_le z z' \<Longrightarrow> fits z p \<Longrightarrow> fits z' p"
    unfolding p by (cases z; cases z'; cases op; cases c; (case_tac "the c")?) auto
qed

text \<open>A handler that leaves the sizes and every queued completion as they are.\<close>

definition keeps :: "nat \<times> nat \<times> nat \<Rightarrow> ServerSession \<Rightarrow> bool" where
  "keeps z s \<longleftrightarrow> read_sizes s = z \<and> list_all (fits z) (pending s)"

lemma keeps_start [simp]: "keeps z (start_op op s) = keeps z s"
  by (auto simp: keeps_def start_op_def read_sizes_def)

lemma keeps_cancel: "keeps z s \<Longrightarrow> keeps z (cancel_io obj s)"
  by (auto simp: keeps_def cancel_io_def read_sizes_def list_all_iff simp del: abort_set_simps)

lemma keeps_update [simp]:
  "keeps z (s\<lparr>status := x_status\<rparr>) = keeps z s"
  "keeps z (s\<lparr>bootstrap_mode := x_bootstrap_mode\<rparr>) = keeps z s"
  "keeps z (s\<lparr>external_front_handoff := x_external_front_handoff\<rparr>) = keeps z s"
  "keeps z (s\<lparr>trusted_front_bootstrap_buffer := x_trusted_front_bootstrap_buffer\<rparr>) = keeps z s"
  "keeps z (s\<lparr>connection_slot_acquired := x_connection_slot_acquired\<rparr>) = keeps z s"
  "keeps z (s\<lparr>fallback_slot_acquired := x_fallback_slot_acquired\<rparr>) = keeps z s"
  "keeps z (s\<lparr>auth_password := x_auth_password\<rparr>) = keeps z s"
  "keeps z (s\<lparr>in_write_data := x_in_write_data\<rparr>) = keeps z s"
  "keeps z (s\<lparr>out_write_data := x_out_write_data\<rparr>) = keeps z s"
  "keeps z (s\<lparr>udp_write_data := x_udp_write_data\<rparr>) = keeps z s"
  "keeps z (s\<lparr>recv_len := x_recv_len\<rparr>) = keeps z s"
  "keeps z (s\<lparr>sent_len := x_sent_len\<rparr>) = keeps z s"
  "keeps z (s\<lparr>out_write_buf := x_out_write_buf\<rparr>) = keeps z s"
  "keeps z (s\<lparr>udp_data_buf := x_udp_data_buf\<rparr>) = keeps z s"
  "keeps z (s\<lparr>in_endpoint := x_in_endpoint\<rparr>) = keeps z s"
  "keeps z (s\<lparr>in_open := x_in_open\<rparr>) = keeps z s"
  "keeps z (s\<lparr>out_open := x_out_open\<rparr>) = keeps z s"
  "keeps z (s\<lparr>udp_open := x_udp_open\<rparr>) = keeps z s"
  by (simp_all add: keeps_def read_sizes_def)

lemma keeps_destroy: "keeps z s \<Longrightarrow> keeps z (fst (destroy e (s, w)))"
  by (auto simp: destroy_def closing_defs split_beta intro!: keeps_cancel)

lemma keeps_udp_sent: "keeps z s \<Longrightarrow> keeps z (fst (udp_sent e (s, w)))"
  using try_parse_udp_cases [of s] by (auto simp: udp_sent_def starts_defs intro: keeps_destroy)

lemma keeps_begin_tcp_relay: "keeps z s \<Longrightarrow> keeps z (fst (snd (begin_tcp_relay e t b (s, w))))"
  by (auto simp: begin_tcp_relay_def Let_def intro!: keeps_destroy split: prod.split)

lemma keeps_execute_plan: "keeps z s \<Longrightarrow> keeps z (fst (execute_plan e plan (s, w)))"
  by (auto simp: execute_plan_def start_udp_forward_def connect_outbound_def Let_def
      intro!: keeps_udp_sent keeps_begin_tcp_relay keeps_destroy)

lemma keeps_handle_payload: "keeps z s \<Longrightarrow> keeps z (fst (handle_handshake_payload e data (s, w)))"
  by (auto simp: handle_handshake_payload_def intro!: keeps_execute_plan split: sum.split prod.split)

lemma keeps_bootstrap_read: "keeps z s \<Longrightarrow> keeps z (fst (trusted_front_ingress_read e data (s, w)))"
  by (auto simp: trusted_front_ingress_read_def set_external_front_handoff_def Let_def starts_defs
      intro!: keeps_handle_payload keeps_destroy)

lemma keeps_tcp_resolved: "keeps z s \<Longrightarrow> keeps z (fst (tcp_resolved e ok t c (s, w)))"
  by (auto simp: tcp_resolved_def intro!: keeps_destroy split: completion.split option.split)

lemma keeps_udp_resolved: "keeps z s \<Longrightarrow> keeps z (fst (udp_resolved e ok pl n c (s, w)))"
  by (auto simp: udp_resolved_def dispatch_udp_payload_def ensure_open_cases starts_defs split_beta
      intro!: keeps_destroy split: completion.split option.split)

lemma keeps_handshake_done: "keeps z s \<Longrightarrow> keeps z (fst (handshake_done e c (s, w)))"
  by (auto simp: handshake_done_def starts_defs intro!: keeps_destroy)

text \<open>The receive handlers, after the buffer has grown.\<close>

definition grown :: "async_op \<Rightarrow> completion \<Rightarrow> ServerSession \<Rightarrow> ServerSession" where
  "grown op c s =
     (case (op, c) of
        (In_read, Received d) \<Rightarrow> s\<lparr>in_read_size := grow_after_read (in_read_size s) (length d)\<rparr>
      | (Out_read, Received d) \<Rightarrow> s\<lparr>out_read_size := grow_after_read (out_read_size s) (length d)\<rparr>
      | (Udp_read, Datagram d ep) \<Rightarrow> s\<lparr>udp_read_size := grow_after_read (udp_read_size s) (length d)\<rparr>
      | _ \<Rightarrow> s)"

lemma on_complete_keeps:
  assumes "keeps z (grown op c s)"
  shows "keeps z (fst (on_complete e ok op c (s, w)))"
proof (cases op)
  case In_read
  with assms show ?thesis
    by (cases c) (auto simp: grown_def in_recv_def starts_defs Let_def
        intro!: keeps_destroy keeps_handle_payload keeps_udp_sent split: Status.split)
next
  case Out_read
  with assms show ?thesis
    by (cases c) (auto simp: grown_def out_recv_def starts_defs Let_def intro!: keeps_destroy)
next
  case Udp_read
  with assms show ?thesis
    by (cases c) (auto simp: grown_def udp_recv_def starts_defs Let_def intro!: keeps_destroy)
next
  case Bootstrap_read
  with assms show ?thesis
    by (cases c) (auto simp: grown_def intro!: keeps_destroy keeps_bootstrap_read)
qed (use assms in \<open>auto simp: grown_def in_sent_def out_sent_def tcp_connected_def ssl_shutdown_cb_def
      close_in_socket_def starts_defs Let_def
    intro!: keeps_destroy keeps_handshake_done keeps_udp_sent keeps_tcp_resolved keeps_udp_resolved keeps_cancel
    split: Status.split\<close>)

lemma size_inv_keeps: "size_inv s \<longleftrightarrow> valid_sizes (read_sizes s) \<and> keeps (read_sizes s) s"
  by (simp add: size_inv_def keeps_def)

lemma valid_size_max: "valid_size n \<Longrightarrow> n \<le> MAX_BUFFER_SIZE"
  by (auto simp: valid_size_def MAX_BUFFER_SIZE_def)

lemma grown_sizes:
  assumes "valid_sizes (read_sizes s)" and "fits (read_sizes s) (op, Some c)"
  shows "valid_sizes (read_sizes (grown op c s)) \<and> sizes_le (read_sizes s) (read_sizes (grown op c s)) \<and>
    pending (grown op c s) = pending s"
  using assms
  by (cases op; cases c)
     (auto simp: grown_def read_sizes_def intro: grow_after_read_valid grow_after_read_mono valid_size_max)

lemma run_sizes:
  assumes "size_inv s" and "i < length (pending s)" and "pending s ! i = (op, Some c)"
    and "on_complete e ok op c (s\<lparr>pending := remove_nth i (pending s)\<rparr>, w) = (s', w')"
  shows "size_inv s'"
proof -
  let ?s = "s\<lparr>pending := remove_nth i (pending s)\<rparr>"
  let ?g = "grown op c ?s"
  have fit: "fits (read_sizes s) (op, Some c)"
    using assms(1-3) by (auto simp: size_inv_def list_all_iff dest!: nth_mem)
  have rs: "read_sizes ?s = read_sizes s" by (simp add: read_sizes_def)
  have all: "list_all (fits (read_sizes s)) (pending ?s)"
    using assms(1) by (auto simp: size_inv_def list_all_iff remove_nth_def dest: in_set_takeD in_set_dropD)
  note g = grown_sizes [of ?s op c, unfolded rs]
  have "valid_sizes (read_sizes ?g)" "sizes_le (read_sizes s) (read_sizes ?g)" "pending ?g = pending ?s"
    using g assms(1) fit by (simp_all add: size_inv_def)
  then have k: "keeps (read_sizes ?g) ?g" and v: "valid_sizes (read_sizes ?g)"
    using all by (auto simp: keeps_def list_all_iff intro: fits_mono)
  have "keeps (read_sizes ?g) s'" using on_complete_keeps [OF k, of e ok w] assms(4) by simp
  with v show ?thesis by (simp add: size_inv_def keeps_def)
qed

lemma admissible_fits: "admissible s tr op c \<Longrightarrow> fits (read_sizes s) (op, Some c)"
  by (cases op; cases c) (auto simp: read_sizes_def)

lemma session_step_sizes: "session_step e (s, w, tr) (s', w', tr') \<Longrightarrow> size_inv s \<Longrightarrow> size_inv s'"
proof (induction "(s, w, tr)" "(s', w', tr')" rule: session_step.induct)
  case (ready i op c)
  then have "fits (read_sizes s) (op, Some c)" using admissible_fits by blast
  moreover have "read_sizes (s\<lparr>pending := q\<rparr>) = read_sizes s" for q by (simp add: read_sizes_def)
  ultimately show ?case using ready by (auto simp: size_inv_def intro: list_all_update)
qed (auto intro: run_sizes)

lemma server_step_sizes: "server_step e (s, w, tr) (s', w', tr') \<Longrightarrow> size_inv s \<Longrightarrow> size_inv s'"
  by (elim server_stepE) (auto intro: session_step_sizes)

lemma start_sizes:
  assumes "fresh_session s"
  shows "size_inv (fst (start e remote (s, w)))"
proof -
  have "keeps (16384, 16384, 16384) s"
    using assms by (auto simp: fresh_session_def new_session_def keeps_def read_sizes_def DEFAULT_BUFFER_SIZE_def)
  then have "keeps (16384, 16384, 16384) (fst (start e remote (s, w)))"
    by (auto simp: start_def Let_def starts_defs intro!: keeps_destroy split: option.split BootstrapMode.split)
  then show ?thesis by (simp add: size_inv_def keeps_def valid_size_def)
qed

lemma server_reachable_sizes:
  assumes "server_reachable e s tr"
  shows "size_inv s"
proof -
  have steps: "(server_step e)\<^sup>*\<^sup>* c c' \<Longrightarrow> size_inv (fst c) \<Longrightarrow> size_inv (fst c')" for c c'
    by (induction rule: rtranclp_induct) (auto intro: server_step_sizes)
  from assms obtain s0 remote w0 s1 w1 w where r: "fresh_session s0" "start e remote (s0, w0) = (s1, w1)"
      "(server_step e)\<^sup>*\<^sup>* (s1, w1, empty_trace) (s, w, tr)"
    by (auto simp: server_reachable_def)
  have "size_inv s1" using start_sizes [OF r(1), of e remote w0] r(2) by simp
  with steps [OF r(3)] show ?thesis by simp
qed

end
