(* ===== verification/System.thy ===== *)
theory System
  imports Service Server_Session_Bytes Server_Session_Buffers
begin

text \<open>
  A running server: the service and the sessions it has started, over all interleavings of
  accepted connections, session steps and the clock.  The invariants relate the counters
  of the service to the sessions that exist.
\<close>

section \<open>Steps\<close>

text \<open>Each session is kept with the ALPN protocol of its connection and the trace of its bytes.\<close>

record system =
  sy_service :: ServiceState
  sy_sessions :: "(string option \<times> ServerSession \<times> io_trace) list"

definition accepting :: "(string \<Rightarrow> ptree option) \<Rightarrow> Config \<Rightarrow> bool \<Rightarrow> ServerSession" where
  "accepting rj cfg bypass =
     (if bypass then create_trusted_front_server_session cfg else create_server_session rj cfg True)"

text \<open>\<open>remote\<close> is the peer when the service looks at it, \<open>remote'\<close> when the session does.  \<open>public\<close>
  restricts the runs to those where every connection comes in on the public listener and
  the peer is still there when the session looks.  \<open>bypass\<close>: the connection comes in on the listener of the
  trusted front, which exists only if the configuration asks for it.\<close>

inductive system_step ::
    "Config \<Rightarrow> ServiceState Authenticator option \<Rightarrow> string \<Rightarrow> (string \<Rightarrow> ptree option) \<Rightarrow> bool \<Rightarrow>
     system \<Rightarrow> system \<Rightarrow> bool" for cfg auth plain rj public where
  accept: "handle_accept_completion cfg (start (server_env cfg auth plain rj alpn) remote') close_accepted
       err remote bypass (accepting rj cfg bypass, sy_service sy) = (continue, started, s, sv) \<Longrightarrow>
     bypass \<longrightarrow> trusted_front_listening cfg \<Longrightarrow>
     public \<longrightarrow> \<not> bypass \<and> remote' = remote \<Longrightarrow>
     system_step cfg auth plain rj public sy
       \<lparr>sy_service = sv, sy_sessions = sy_sessions sy @ (if started then [(alpn, s, empty_trace)] else [])\<rparr>"
| session: "i < length (sy_sessions sy) \<Longrightarrow> sy_sessions sy ! i = (alpn, s, tr) \<Longrightarrow>
     session_step (server_env cfg auth plain rj alpn) (s, sy_service sy, tr) (s', sv, tr') \<Longrightarrow>
     system_step cfg auth plain rj public sy
       \<lparr>sy_service = sv, sy_sessions = (sy_sessions sy)[i := (alpn, s', tr')]\<rparr>"
| tick: "sv_now (sy_service sy) \<le> now \<Longrightarrow>
     system_step cfg auth plain rj public sy (sy\<lparr>sy_service := (sy_service sy)\<lparr>sv_now := now\<rparr>\<rparr>)"

definition system_start :: "Config \<Rightarrow> int \<Rightarrow> system" where
  "system_start cfg now = \<lparr>sy_service = new_service cfg now, sy_sessions = []\<rparr>"

definition system_reachable ::
    "Config \<Rightarrow> ServiceState Authenticator option \<Rightarrow> string \<Rightarrow> (string \<Rightarrow> ptree option) \<Rightarrow> bool \<Rightarrow> system \<Rightarrow> bool" where
  "system_reachable cfg auth plain rj public sy \<longleftrightarrow>
     (\<exists>now. (system_step cfg auth plain rj public)\<^sup>*\<^sup>* (system_start cfg now) sy)"

section \<open>Sessions of a running server\<close>

abbreviation sy_session :: "string option \<times> ServerSession \<times> io_trace \<Rightarrow> ServerSession" where
  "sy_session x \<equiv> fst (snd x)"

lemma accepting_fresh: "fresh_session (accepting rj cfg bypass)"
proof -
  have "\<exists>m h. new_session\<lparr>bootstrap_mode := m', external_front_handoff := h'\<rparr> =
      new_session\<lparr>bootstrap_mode := m, external_front_handoff := h\<rparr>" for m' h' by blast
  moreover have "new_session = new_session\<lparr>bootstrap_mode := StandardTls, external_front_handoff := None\<rparr>"
    by (simp add: new_session_def)
  ultimately show ?thesis
    unfolding accepting_def create_server_session_def create_trusted_front_server_session_def
      maybe_apply_external_front_handoff_def set_external_front_handoff_def enable_trusted_front_ingress_mode_def
      fresh_session_def
    by (auto simp: new_session_def split: option.split)
qed

lemma fresh_claims:
  "fresh_session s \<Longrightarrow> \<not> fallback_slot_acquired s \<and> \<not> connection_slot_acquired s \<and> status s = HANDSHAKE"
  by (auto simp: fresh_session_def new_session_def)

lemma start_slot:
  assumes "fresh_session s"
  shows "\<not> fallback_slot_acquired (fst (start (server_env cfg auth plain rj alpn) remote (s, sv)))"
  using fresh_claims [OF assms] fb_account.destroy_claims [of _ cfg auth plain rj alpn sv]
  by (auto simp: start_def Let_def starts_defs split: option.split BootstrapMode.split)

definition session_ok :: "string option \<times> ServerSession \<times> io_trace \<Rightarrow> bool" where
  "session_ok = (\<lambda>(alpn, s, tr). tok_inv False False s \<and> slot_inv s)"

text \<open>The service when the session of an admitted connection starts.\<close>

definition admitted :: "Config \<Rightarrow> bool \<Rightarrow> endpoint \<Rightarrow> ServiceState \<Rightarrow> ServiceState" where
  "admitted cfg bypass ep sv0 =
     (let sv = (if bypass then sv0 else snd (evaluate_incoming_connection cfg ep sv0));
          m = count_event Ev_accepted (sv_metrics sv)
      in sv\<lparr>sv_metrics := (if run_type cfg = SERVER then count_event Ev_session_started m else m)\<rparr>)"

lemma accept_starts:
  assumes "handle_accept_completion cfg st cl err remote bypass (s0, sv0) = (continue, True, s, sv)"
  shows "\<exists>ep. remote = Some ep \<and> st (s0, admitted cfg bypass ep sv0) = (s, sv) \<and>
    (bypass \<or> fst (evaluate_incoming_connection cfg ep sv0) = StartSession)"
  using assms
  by (auto simp: handle_accept_completion_def admitted_def Let_def split: accept_error.splits option.splits if_splits
      prod.splits AcceptDecision.splits)

lemma accept_session_ok:
  assumes "handle_accept_completion cfg (start (server_env cfg auth plain rj alpn) remote') close_accepted
       err remote bypass (accepting rj cfg bypass, sv0) = (continue, True, s, sv)"
  shows "session_ok (alpn, s, tr) \<and> \<not> fallback_slot_acquired s"
proof -
  obtain sv1 where st: "start (server_env cfg auth plain rj alpn) remote' (accepting rj cfg bypass, sv1) = (s, sv)"
    using accept_starts [OF assms] by blast
  have "tok_inv False False s" using start_tok [OF accepting_fresh, of "server_env cfg auth plain rj alpn" remote' rj cfg bypass sv1] st by simp
  moreover have "\<not> fallback_slot_acquired s"
    using start_slot [OF accepting_fresh, of cfg auth plain rj alpn remote' rj cfg bypass sv1] st by simp
  ultimately show ?thesis by (simp add: session_ok_def slot_inv_def)
qed

section \<open>The fallback budget\<close>

lemma sum_list_update:
  "i < length xs \<Longrightarrow> sum_list (map f (xs[i := y])) + f (xs ! i) = sum_list (map f xs) + (f y :: nat)"
proof (induction xs arbitrary: i)
  case (Cons x xs)
  show ?case
  proof (cases i)
    case (Suc j)
    then show ?thesis using Cons.IH [of j] Cons.prems by simp
  qed simp
qed simp

lemma sum_list_member: "i < length xs \<Longrightarrow> f (xs ! i) \<le> sum_list (map f xs :: nat list)"
  using member_le_sum_list [of "f (xs ! i)" "map f xs"] by simp

definition fallback_inv :: "Config \<Rightarrow> ServiceState Authenticator option \<Rightarrow> system \<Rightarrow> bool" where
  "fallback_inv cfg auth sy \<longleftrightarrow> list_all session_ok (sy_sessions sy) \<and> fallback_ok cfg auth (sy_service sy) \<and>
     fallback_count (sy_service sy) = sum_list (map (\<lambda>x. fb_claim (sy_session x)) (sy_sessions sy))"

lemma evaluate_incoming_metrics:
  "sv_metrics (snd (evaluate_incoming_connection cfg ep sv)) = sv_metrics sv"
  by (simp add: evaluate_incoming_connection_def split: prod.split)

lemma start_fallback_count:
  assumes "fresh_session s" and "fallback_ok cfg auth sv"
  shows "fallback_count (snd (start (server_env cfg auth plain rj alpn) remote (s, sv))) = fallback_count sv"
    and "fallback_ok cfg auth (snd (start (server_env cfg auth plain rj alpn) remote (s, sv)))"
proof -
  let ?e = "server_env cfg auth plain rj alpn"
  let ?s = "s\<lparr>in_endpoint := no_endpoint\<rparr>"
  have fc: "fb_claim ?s = 0" using fresh_claims [OF assms(1)] by (simp add: fb_claim_def)
  have cov: "fb_account.covered cfg auth (?s, sv)" using fc assms(2) by (simp add: fb_account.covered_def)
  have "fb_account.balanced cfg auth (?s, sv) (destroy ?e (?s, sv))"
    using fb_account.balanced_destroy [OF fb_account.balanced_refl [OF cov] cov] .
  moreover have "fb_claim (fst (destroy ?e (?s, sv))) = 0"
    using fb_account.destroy_claims [of ?s cfg auth plain rj alpn sv] fresh_claims [OF assms(1)]
    by (simp add: fb_claim_def)
  ultimately have "fallback_count (snd (destroy ?e (?s, sv))) = fallback_count sv \<and> fallback_ok cfg auth (snd (destroy ?e (?s, sv)))"
    using fc by (auto simp: fb_account.balanced_def split: prod.splits)
  then show "fallback_count (snd (start ?e remote (s, sv))) = fallback_count sv"
    "fallback_ok cfg auth (snd (start ?e remote (s, sv)))"
    using assms(2) by (auto simp: start_def Let_def split: option.split BootstrapMode.split)
qed

lemma accept_does_not_start:
  assumes "handle_accept_completion cfg st cl err remote bypass (s0, sv0) = (continue, False, s, sv)"
  shows "sv_abuse sv = sv_abuse sv0 \<and> active_fallback_sessions (sv_metrics sv) = active_fallback_sessions (sv_metrics sv0) \<or>
    (\<exists>ep. remote = Some ep \<and> sv_abuse sv = sv_abuse (snd (evaluate_incoming_connection cfg ep sv0)) \<and>
       active_fallback_sessions (sv_metrics sv) = active_fallback_sessions (sv_metrics sv0) \<and>
       fst (evaluate_incoming_connection cfg ep sv0) \<noteq> StartSession)"
  using assms evaluate_incoming_metrics [of cfg _ sv0]
  by (auto simp: handle_accept_completion_def Let_def split: accept_error.splits option.splits if_splits
      prod.splits AcceptDecision.splits) (metis fst_conv snd_conv AcceptDecision.distinct)+

lemma admitted_fallback [simp]:
  "active_fallback_sessions (sv_metrics (admitted cfg bypass ep sv)) = active_fallback_sessions (sv_metrics sv)"
  by (simp add: admitted_def Let_def evaluate_incoming_metrics)

lemma accept_fallback:
  assumes "handle_accept_completion cfg (start (server_env cfg auth plain rj alpn) remote') close_accepted
       err remote bypass (accepting rj cfg bypass, sv0) = (continue, started, s, sv)"
    and "fallback_ok cfg auth sv0"
  shows "fallback_count sv = fallback_count sv0 \<and> fallback_ok cfg auth sv"
proof (cases started)
  case True
  from assms(1) obtain ep where ep: "start (server_env cfg auth plain rj alpn) remote'
      (accepting rj cfg bypass, admitted cfg bypass ep sv0) = (s, sv)"
    using accept_starts True by (metis (full_types))
  have ok: "fallback_ok cfg auth (admitted cfg bypass ep sv0)"
    using assms(2) by (simp add: fallback_ok_def fallback_count_def)
  show ?thesis
    using start_fallback_count [OF accepting_fresh [of rj cfg bypass] ok, of plain rj alpn remote'] ep
    by (simp add: fallback_count_def)
next
  case False
  with assms(1) have "active_fallback_sessions (sv_metrics sv) = active_fallback_sessions (sv_metrics sv0)"
    using accept_does_not_start by (metis (full_types))
  with assms(2) show ?thesis by (simp add: fallback_ok_def fallback_count_def)
qed

lemma system_step_fallback:
  assumes "system_step cfg auth plain rj public sy sy'" and "fallback_inv cfg auth sy"
  shows "fallback_inv cfg auth sy'"
  using assms
proof (induction rule: system_step.induct)
  case (accept alpn remote' err remote bypass sy continue started s sv)
  note af = accept_fallback [OF accept(1)]
  show ?case
  proof (cases started)
    case True
    then have "session_ok (alpn, s, empty_trace) \<and> \<not> fallback_slot_acquired s"
      using accept_session_ok accept(1) by (metis (full_types))
    then show ?thesis using accept(4) af True by (auto simp: fallback_inv_def fb_claim_def)
  next
    case False
    then show ?thesis using accept(4) af by (auto simp: fallback_inv_def)
  qed
next
  case (session i sy alpn s tr s' sv tr')
  let ?f = "\<lambda>x. fb_claim (sy_session x)"
  have ok: "session_ok (alpn, s, tr)" using session(1,2,4) by (auto simp: fallback_inv_def list_all_length)
  have le: "fb_claim s \<le> fallback_count (sy_service sy)"
    using sum_list_member [OF session(1), of ?f] session(2,4) by (simp add: fallback_inv_def)
  then have "fb_account.covered cfg auth (s, sy_service sy)"
    using session(4) by (simp add: fb_account.covered_def fallback_inv_def)
  then have b: "fb_account.balanced cfg auth (s, sy_service sy) (s', sv)" and sl: "slot_inv s'"
    using fb_account.session_step_slots [OF session(3)] ok by (auto simp: session_ok_def)
  have "session_ok (alpn, s', tr')" using sl ok session_step_tok [OF session(3)] by (simp add: session_ok_def)
  moreover have "fallback_count sv = sum_list (map ?f ((sy_sessions sy)[i := (alpn, s', tr')]))"
    using b sum_list_update [OF session(1), of ?f "(alpn, s', tr')"] session(2,4) le
    by (simp add: fb_account.balanced_def fallback_inv_def)
  ultimately show ?case using session(4) b
    by (auto simp: fallback_inv_def fb_account.balanced_def intro: list_all_update)
next
  case (tick sy now)
  then show ?case by (simp add: fallback_inv_def fallback_ok_def fallback_count_def)
qed

lemma system_fallback:
  assumes "system_reachable cfg auth plain rj public sy" and "limits_fallback (abuse_control cfg)" and "auth_frame auth"
  shows "fallback_inv cfg auth sy"
proof -
  obtain now where "(system_step cfg auth plain rj public)\<^sup>*\<^sup>* (system_start cfg now) sy"
    using assms(1) by (auto simp: system_reachable_def)
  then show ?thesis
  proof (induction rule: rtranclp_induct)
    case base
    show ?case using assms(2,3)
      by (simp add: fallback_inv_def system_start_def new_service_def fallback_ok_def fallback_count_def zero_metrics_def)
  next
    case (step y z)
    then show ?case using system_step_fallback by blast
  qed
qed

section \<open>The connection limit\<close>

text \<open>On the public listener the slots of an address are the sessions of that address.\<close>

definition conn_inv :: "ServiceState Authenticator option \<Rightarrow> nat \<Rightarrow> string \<Rightarrow> system \<Rightarrow> bool" where
  "conn_inv auth lim ip sy \<longleftrightarrow> list_all session_ok (sy_sessions sy) \<and> conn_ok auth lim ip (sy_service sy) \<and>
     conn_count ip (sy_service sy) = sum_list (map (\<lambda>x. conn_claim (sy_session x) ip) (sy_sessions sy))"

lemma acquire_config: "abuse_config (snd (try_acquire_connection_slot ip c)) = abuse_config c"
  by (simp add: try_acquire_connection_slot_def Let_def)

lemma acquire_slots:
  assumes "limits_connections (abuse_config c)"
  shows "slots_in_use (snd (try_acquire_connection_slot ip c)) =
    (slots_in_use c)(ip := slots_in_use c ip + (if fst (try_acquire_connection_slot ip c) then 1 else 0))"
    and "fst (try_acquire_connection_slot ip c) \<longleftrightarrow> slots_in_use c ip < nat (ac_per_ip_max_connections (abuse_config c))"
  using assms ip_slots.acquire_granted [of c ip] ip_slots.acquire_refused [of c ip] ip_slots.acquire_grants_iff [of c ip]
  by (cases "slots_in_use c ip < nat (ac_per_ip_max_connections (abuse_config c))"; force)+

lemma admission_conns:
  assumes "run_type cfg = SERVER" and "conn_ok auth lim ip sv"
  shows "conn_ok auth lim ip (snd (evaluate_incoming_connection cfg ep sv))"
    and "conn_count ip (snd (evaluate_incoming_connection cfg ep sv)) =
      conn_count ip sv + (if fst (evaluate_incoming_connection cfg ep sv) = StartSession \<and> ep_ip ep = ip then 1 else 0)"
proof -
  let ?c = "sv_abuse sv"
  have lim: "limits_connections (abuse_config ?c)" using assms(2) by (simp add: conn_ok_def)
  show "conn_count ip (snd (evaluate_incoming_connection cfg ep sv)) =
      conn_count ip sv + (if fst (evaluate_incoming_connection cfg ep sv) = StartSession \<and> ep_ip ep = ip then 1 else 0)"
    using acquire_slots(1) [OF lim, of "ep_ip ep"] assms(1)
    by (auto simp: evaluate_incoming_connection_def conn_count_def split_beta)
  show "conn_ok auth lim ip (snd (evaluate_incoming_connection cfg ep sv))"
    using acquire_slots [OF lim, of "ep_ip ep"] assms acquire_config [of "ep_ip ep" ?c]
    by (auto simp: evaluate_incoming_connection_def conn_ok_def conn_count_def split_beta)
qed

lemma start_public:
  "start e (Some ep) (s, sv) = (s', sv') \<Longrightarrow>
   sv' = sv \<and> connection_slot_acquired s' \<and> in_endpoint s' = ep"
  by (auto simp: start_def Let_def starts_defs split: BootstrapMode.splits)

lemma accept_conns:
  assumes "handle_accept_completion cfg (start (server_env cfg auth plain rj alpn) remote) close_accepted
       err remote False (accepting rj cfg False, sv0) = (continue, started, s, sv)"
    and "run_type cfg = SERVER" and "conn_ok auth lim ip sv0"
  shows "conn_ok auth lim ip sv \<and> conn_count ip sv = conn_count ip sv0 + (if started then conn_claim s ip else 0)"
proof (cases started)
  case True
  then obtain ep where ep: "remote = Some ep" "fst (evaluate_incoming_connection cfg ep sv0) = StartSession"
      "start (server_env cfg auth plain rj alpn) remote (accepting rj cfg False, admitted cfg False ep sv0) = (s, sv)"
    using assms(1) accept_starts by (metis (full_types))
  note sp = start_public [OF ep(3) [unfolded ep(1)]]
  have "sv_abuse sv = sv_abuse (snd (evaluate_incoming_connection cfg ep sv0))"
    using sp by (simp add: admitted_def Let_def)
  then have "conn_count ip sv = conn_count ip (snd (evaluate_incoming_connection cfg ep sv0))"
    "conn_ok auth lim ip sv = conn_ok auth lim ip (snd (evaluate_incoming_connection cfg ep sv0))"
    by (simp_all add: conn_count_def conn_ok_def)
  then show ?thesis using admission_conns [OF assms(2,3), of ep] ep(2) sp True by (simp add: conn_claim_def)
next
  case False
  with assms(1) have h: "sv_abuse sv = sv_abuse sv0 \<or>
      (\<exists>ep. sv_abuse sv = sv_abuse (snd (evaluate_incoming_connection cfg ep sv0)) \<and>
        fst (evaluate_incoming_connection cfg ep sv0) \<noteq> StartSession)"
    using accept_does_not_start by (metis (full_types))
  then show ?thesis
  proof
    assume "sv_abuse sv = sv_abuse sv0"
    with assms(3) False show ?thesis by (simp add: conn_ok_def conn_count_def)
  next
    assume "\<exists>ep. sv_abuse sv = sv_abuse (snd (evaluate_incoming_connection cfg ep sv0)) \<and>
        fst (evaluate_incoming_connection cfg ep sv0) \<noteq> StartSession"
    then obtain ep where e: "sv_abuse sv = sv_abuse (snd (evaluate_incoming_connection cfg ep sv0))"
      "fst (evaluate_incoming_connection cfg ep sv0) \<noteq> StartSession" by blast
    then show ?thesis using admission_conns [OF assms(2,3), of ep] False by (simp add: conn_ok_def conn_count_def)
  qed
qed

lemma system_step_conns:
  assumes "system_step cfg auth plain rj True sy sy'" and "run_type cfg = SERVER" and "conn_inv auth lim ip sy"
  shows "conn_inv auth lim ip sy'"
  using assms
proof (induction rule: system_step.induct)
  case (accept alpn remote' err remote bypass sy continue started s sv)
  then have pub: "\<not> bypass" "remote' = remote" by simp_all
  have ac: "conn_ok auth lim ip sv \<and>
      conn_count ip sv = conn_count ip (sy_service sy) + (if started then conn_claim s ip else 0)"
    using accept accept_conns [of cfg auth plain rj alpn remote err "sy_service sy" continue started s sv lim ip] pub
    by (simp add: conn_inv_def)
  show ?case
  proof (cases started)
    case True
    then have "session_ok (alpn, s, empty_trace)" using accept_session_ok accept(1) by (metis (full_types))
    then show ?thesis using accept ac True by (simp add: conn_inv_def)
  next
    case False
    then show ?thesis using accept ac by (simp add: conn_inv_def)
  qed
next
  case (session i sy alpn s tr s' sv tr')
  let ?f = "\<lambda>x. conn_claim (sy_session x) ip"
  have ok: "session_ok (alpn, s, tr)" using session(1,2,5) by (auto simp: conn_inv_def list_all_length)
  have le: "conn_claim s ip \<le> conn_count ip (sy_service sy)"
    using sum_list_member [OF session(1), of ?f] session(2,5) by (simp add: conn_inv_def)
  then have "conn_account.covered ip auth lim (s, sy_service sy)"
    using session(5) by (simp add: conn_account.covered_def conn_inv_def)
  then have b: "conn_account.balanced ip auth lim (s, sy_service sy) (s', sv)" and sl: "slot_inv s'"
    using conn_account.session_step_slots [OF session(3)] ok by (auto simp: session_ok_def)
  have "session_ok (alpn, s', tr')" using sl ok session_step_tok [OF session(3)] by (simp add: session_ok_def)
  moreover have "conn_count ip sv = sum_list (map ?f ((sy_sessions sy)[i := (alpn, s', tr')]))"
    using b sum_list_update [OF session(1), of ?f "(alpn, s', tr')"] session(2,5) le
    by (simp add: conn_account.balanced_def conn_inv_def)
  ultimately show ?case using session(5) b
    by (auto simp: conn_inv_def conn_account.balanced_def intro: list_all_update)
next
  case (tick sy now)
  then show ?case by (simp add: conn_inv_def conn_ok_def conn_count_def)
qed

lemma system_conns:
  assumes "system_reachable cfg auth plain rj True sy" and "run_type cfg = SERVER"
    and "limits_connections (abuse_control cfg)" and "auth_frame auth"
  shows "conn_inv auth (nat (ac_per_ip_max_connections (abuse_control cfg))) ip sy"
proof -
  obtain now where "(system_step cfg auth plain rj True)\<^sup>*\<^sup>* (system_start cfg now) sy"
    using assms(1) by (auto simp: system_reachable_def)
  then show ?thesis
  proof (induction rule: rtranclp_induct)
    case base
    show ?case using assms(3,4)
      by (simp add: conn_inv_def system_start_def new_service_def conn_ok_def conn_count_def
          new_abuse_controller_def slots_in_use_def stats_at_def fresh_stats_def)
  next
    case (step y z)
    then show ?case using system_step_conns assms(2) by blast
  qed
qed

end
