(* ===== verification/Server_Session_Safety.thy ===== *)
theory Server_Session_Safety
  imports Server_Session_Slots
begin

text \<open>
  Who decides where a server session connects to.

  A session connects to the configured fallback target or to the target of the request that
  the data given to its gate holds, if the password of that request is authorised, and
  relays UDP only for such a request.
\<close>

section \<open>Targets\<close>

definition may_use :: "'w session_env \<Rightarrow> string \<Rightarrow> bool" where
  "may_use e pw \<longleftrightarrow> map_of (password (se_config e)) pw \<noteq> None \<or>
     (\<exists>a w. se_auth e = Some a \<and> au_auth a pw w)"

text \<open>\<open>p\<close> is the data the session has given to its gate, if any.  A request asks for a command when it
  is the request that data holds and its password is authorised.\<close>

definition asked :: "'w session_env \<Rightarrow> string option \<Rightarrow> Command \<Rightarrow> TrojanRequest \<Rightarrow> bool" where
  "asked e p cmd r \<longleftrightarrow>
     (\<exists>data. p = Some data \<and> trojan_request r data) \<and> req_command r = cmd \<and> may_use e (req_password r)"

definition target_ok :: "'w session_env \<Rightarrow> string option \<Rightarrow> ConnectTarget \<Rightarrow> bool" where
  "target_ok e p t \<longleftrightarrow>
     p \<noteq> None \<and> (\<exists>alpn. t = fallback_target (se_config e) alpn) \<or>
     (\<exists>r. t = request_target r \<and> asked e p CONNECT_cmd r)"

fun op_target :: "async_op \<Rightarrow> ConnectTarget option" where
  "op_target (Tcp_resolve t) = Some t"
| "op_target (Tcp_connect ep t) = Some t"
| "op_target op = None"

definition target_inv :: "'w session_env \<Rightarrow> string option \<Rightarrow> ServerSession \<Rightarrow> bool" where
  "target_inv e p s \<longleftrightarrow>
     list_all (\<lambda>q. case op_target (fst q) of None \<Rightarrow> True | Some t \<Rightarrow> target_ok e p t) (pending s) \<and>
     (status s = UDP_FORWARD \<longrightarrow> (\<exists>r. asked e p UDP_ASSOCIATE r))"

lemma gate_sound:
  assumes "gate_evaluate cfg auth input = Inr d"
  shows "sd_path d = FALLBACK \<and> sd_target d = fallback_target cfg (selected_alpn (gi_context input)) \<or>
    (\<exists>r :: TrojanRequest. trojan_request r (gi_initial_data input) \<and> authorised cfg auth (req_password r) \<and>
      sd_target d = request_target r \<and>
      sd_path d = (if req_command r = UDP_ASSOCIATE then AUTHENTICATED_UDP else AUTHENTICATED_TCP))"
proof -
  obtain r v where p: "trojan_parse blank_request (gi_initial_data input) = Inr (r, v)"
    using trojan_parse_no_exn by (metis surj_pair)
  show ?thesis
  proof (cases "v \<noteq> -1 \<and> authorised cfg auth (req_password r)")
    case True
    with trojan_parse_sound [OF p] have "trojan_request r (gi_initial_data input)" by simp
    with True p assms show ?thesis
      by (cases "map_of (password cfg) (req_password r)"; cases auth; cases "req_command r")
         (force simp: gate_evaluate_def Let_def authorised_def request_target_def)+
  next
    case False
    with p assms show ?thesis
      by (cases "map_of (password cfg) (req_password r)"; cases auth;
          cases "map_of (ssl_alpn_port_override (ssl cfg)) (selected_alpn (gi_context input))")
         (auto simp: gate_evaluate_def Let_def authorised_def fallback_target_def fallback_port_def)
  qed
qed

definition verdict_ok :: "'w session_env \<Rightarrow> string option \<Rightarrow> SessionDecision \<Rightarrow> bool" where
  "verdict_ok e p d \<longleftrightarrow>
     (sd_path d = FALLBACK \<or> sd_path d = AUTHENTICATED_TCP) \<and> target_ok e p (sd_target d) \<or>
     sd_path d = AUTHENTICATED_UDP \<and> (\<exists>r. asked e p UDP_ASSOCIATE r)"

lemma selector_sound:
  assumes "selector_evaluate (se_config e) (map_option (\<lambda>a pw. au_auth a pw w) (se_auth e)) sel ep alpn data = Inr d"
  shows "verdict_ok e (Some data) d"
proof -
  let ?auth = "map_option (\<lambda>a pw. au_auth a pw w) (se_auth e)"
  obtain input where g: "gate_evaluate (se_config e) ?auth input = Inr d" "gi_initial_data input = data"
    using assms by (auto simp: selector_evaluate_def front_evaluate_initial_data_def tls_evaluate_initial_data_def
        front_build_gate_input_def tls_build_gate_input_def split: if_splits option.splits)
  consider (fb) "sd_path d = FALLBACK" "sd_target d = fallback_target (se_config e) (selected_alpn (gi_context input))"
    | (req) r :: TrojanRequest where "trojan_request r data" "authorised (se_config e) ?auth (req_password r)"
      "sd_target d = request_target r"
      "sd_path d = (if req_command r = UDP_ASSOCIATE then AUTHENTICATED_UDP else AUTHENTICATED_TCP)"
    using gate_sound [OF g(1)] g(2) by blast
  then show ?thesis
  proof cases
    case fb
    then show ?thesis by (auto simp: verdict_ok_def target_ok_def)
  next
    case req
    then have "may_use e (req_password r)" by (auto simp: authorised_def may_use_def)
    with req show ?thesis by (cases "req_command r") (auto simp: verdict_ok_def target_ok_def asked_def)
  qed
qed

lemma target_start [simp]:
  "target_inv e p (start_op op s) \<longleftrightarrow> target_inv e p s \<and> (case op_target op of None \<Rightarrow> True | Some t \<Rightarrow> target_ok e p t)"
  by (auto simp: target_inv_def start_op_def)

lemma target_cancel [simp]: "target_inv e p (cancel_io obj s) = target_inv e p s"
  by (simp add: target_inv_def cancel_io_def list_all_iff)

lemma target_update [simp]:
  "target_inv e p (s\<lparr>bootstrap_mode := x_bootstrap_mode\<rparr>) = target_inv e p s"
  "target_inv e p (s\<lparr>external_front_handoff := x_external_front_handoff\<rparr>) = target_inv e p s"
  "target_inv e p (s\<lparr>trusted_front_bootstrap_buffer := x_trusted_front_bootstrap_buffer\<rparr>) = target_inv e p s"
  "target_inv e p (s\<lparr>connection_slot_acquired := x_connection_slot_acquired\<rparr>) = target_inv e p s"
  "target_inv e p (s\<lparr>fallback_slot_acquired := x_fallback_slot_acquired\<rparr>) = target_inv e p s"
  "target_inv e p (s\<lparr>auth_password := x_auth_password\<rparr>) = target_inv e p s"
  "target_inv e p (s\<lparr>in_read_size := x_in_read_size\<rparr>) = target_inv e p s"
  "target_inv e p (s\<lparr>out_read_size := x_out_read_size\<rparr>) = target_inv e p s"
  "target_inv e p (s\<lparr>udp_read_size := x_udp_read_size\<rparr>) = target_inv e p s"
  "target_inv e p (s\<lparr>in_write_data := x_in_write_data\<rparr>) = target_inv e p s"
  "target_inv e p (s\<lparr>out_write_data := x_out_write_data\<rparr>) = target_inv e p s"
  "target_inv e p (s\<lparr>udp_write_data := x_udp_write_data\<rparr>) = target_inv e p s"
  "target_inv e p (s\<lparr>recv_len := x_recv_len\<rparr>) = target_inv e p s"
  "target_inv e p (s\<lparr>sent_len := x_sent_len\<rparr>) = target_inv e p s"
  "target_inv e p (s\<lparr>out_write_buf := x_out_write_buf\<rparr>) = target_inv e p s"
  "target_inv e p (s\<lparr>udp_data_buf := x_udp_data_buf\<rparr>) = target_inv e p s"
  "target_inv e p (s\<lparr>in_endpoint := x_in_endpoint\<rparr>) = target_inv e p s"
  "target_inv e p (s\<lparr>in_open := x_in_open\<rparr>) = target_inv e p s"
  "target_inv e p (s\<lparr>out_open := x_out_open\<rparr>) = target_inv e p s"
  "target_inv e p (s\<lparr>udp_open := x_udp_open\<rparr>) = target_inv e p s"
  "target_inv e p s \<Longrightarrow> st \<noteq> UDP_FORWARD \<Longrightarrow> target_inv e p (s\<lparr>status := st\<rparr>)"
  by (simp_all add: target_inv_def)

lemma target_destroy: "target_inv e p s \<Longrightarrow> target_inv e p (fst (destroy e (s, w)))"
  by (simp add: destroy_def closing_defs split_beta)

lemma target_udp_sent: "target_inv e p s \<Longrightarrow> target_inv e p (fst (udp_sent e (s, w)))"
  using try_parse_udp_cases [of s] by (auto simp: udp_sent_def starts_defs intro: target_destroy)

lemma target_begin_tcp_relay:
  "target_inv e p s \<Longrightarrow> target_ok e p t \<Longrightarrow> target_inv e p (fst (snd (begin_tcp_relay e t b (s, w))))"
  by (auto simp: begin_tcp_relay_def Let_def intro!: target_destroy split: prod.split)

lemma target_execute_plan:
  assumes "target_inv e p s" and "verdict_ok e p d"
  shows "target_inv e p (fst (execute_plan e (build_execution_plan d) (s, w)))"
proof -
  have "target_inv e p (s\<lparr>out_write_buf := x, status := UDP_FORWARD, udp_data_buf := y\<rparr>)"
    if "sd_path d = AUTHENTICATED_UDP" for x y
    using assms that by (auto simp: target_inv_def verdict_ok_def)
  then show ?thesis using assms
    by (auto simp: execute_plan_def start_udp_forward_def connect_outbound_def Let_def plan_mode verdict_ok_def
        intro!: target_udp_sent target_begin_tcp_relay)
qed

lemma target_handle_payload:
  "target_inv e (Some data) s \<Longrightarrow> target_inv e (Some data) (fst (handle_handshake_payload e data (s, w)))"
  using selector_sound [of e w "select_ingress e s" "in_endpoint s" "se_alpn e" data]
  by (auto simp: handle_handshake_payload_def intro!: target_execute_plan split: sum.split prod.split)

text \<open>What the handler of a completion gives to the gate.\<close>

fun evaluated :: "'w session_env \<Rightarrow> ServerSession \<Rightarrow> async_op \<Rightarrow> completion \<Rightarrow> string option" where
  "evaluated e s In_read (Received data) = (if status s = HANDSHAKE then Some data else None)"
| "evaluated e s Bootstrap_read (Received data) =
     (let result = parse_ingress (se_read_json e) (trusted_front_bootstrap_buffer s @ data)
      in if ingress_parsed result then Some (downstream_payload result) else None)"
| "evaluated e s op c = None"

lemma target_bootstrap_read:
  assumes "target_inv e p s" and "evaluated e s Bootstrap_read (Received data) \<in> {None, p}"
  shows "target_inv e p (fst (trusted_front_ingress_read e data (s, w)))"
  using assms
  by (auto simp: trusted_front_ingress_read_def set_external_front_handoff_def Let_def starts_defs
      intro!: target_handle_payload target_destroy split: if_splits)

lemma target_in_recv:
  assumes "target_inv e p s" and "evaluated e s In_read (Received data) \<in> {None, p}"
  shows "target_inv e p (fst (in_recv e data (s, w)))"
  using assms
  by (auto simp: in_recv_def starts_defs Let_def intro!: target_handle_payload target_udp_sent split: Status.splits)

lemma target_tcp_resolved: "target_inv e p s \<Longrightarrow> target_ok e p t \<Longrightarrow> target_inv e p (fst (tcp_resolved e ok t c (s, w)))"
  by (auto simp: tcp_resolved_def intro!: target_destroy split: completion.split option.split)

lemma target_udp_resolved: "target_inv e p s \<Longrightarrow> target_inv e p (fst (udp_resolved e ok pl n c (s, w)))"
  by (auto simp: udp_resolved_def dispatch_udp_payload_def ensure_open_cases starts_defs split_beta
      intro!: target_destroy split: completion.split option.split)

lemma target_handshake_done: "target_inv e p s \<Longrightarrow> target_inv e p (fst (handshake_done e c (s, w)))"
  by (auto simp: handshake_done_def starts_defs intro!: target_destroy)

lemma target_on_complete:
  assumes "target_inv e p s" and "case op_target op of None \<Rightarrow> True | Some t \<Rightarrow> target_ok e p t"
    and "evaluated e s op c \<in> {None, p}"
  shows "target_inv e p (fst (on_complete e ok op c (s, w)))"
proof (cases "op = In_read \<or> op = Bootstrap_read")
  case True
  with assms show ?thesis
    by (cases c) (auto intro!: target_destroy target_in_recv target_bootstrap_read)
next
  case False
  with assms(1,2) show ?thesis
    by (cases op)
       (auto simp: in_sent_def out_recv_def out_sent_def udp_recv_def tcp_connected_def ssl_shutdown_cb_def
         close_in_socket_def starts_defs Let_def
         intro!: target_destroy target_handshake_done target_udp_sent target_tcp_resolved target_udp_resolved
         split: Status.split completion.split)
qed

lemma target_pending:
  assumes "target_inv e p s" and "i < length (pending s)" and "pending s ! i = (op, c)"
  shows "target_inv e p (s\<lparr>pending := remove_nth i (pending s)\<rparr>)"
    and "target_inv e p (s\<lparr>pending := (pending s)[i := (op, c')]\<rparr>)"
    and "case op_target op of None \<Rightarrow> True | Some t \<Rightarrow> target_ok e p t"
proof -
  show t: "case op_target op of None \<Rightarrow> True | Some t \<Rightarrow> target_ok e p t"
    using assms by (auto simp: target_inv_def list_all_length dest!: spec [of _ i])
  show "target_inv e p (s\<lparr>pending := remove_nth i (pending s)\<rparr>)"
    using assms(1) by (auto simp: target_inv_def remove_nth_def list_all_iff dest: in_set_takeD in_set_dropD)
  show "target_inv e p (s\<lparr>pending := (pending s)[i := (op, c')]\<rparr>)"
    using assms(1) t unfolding target_inv_def by (auto intro!: list_all_update)
qed

lemma start_target:
  assumes "fresh_session s"
  shows "target_inv e p (fst (start e remote (s, w)))"
proof -
  have "target_inv e p s" using assms by (auto simp: fresh_session_def new_session_def target_inv_def)
  then show ?thesis
    by (auto simp: start_def Let_def starts_defs intro!: target_destroy split: option.split BootstrapMode.split)
qed

text \<open>Before the gate has been asked nothing is connected to and nothing relayed, so the data may come
  later.\<close>

lemma target_unasked: "target_inv e None s \<Longrightarrow> target_inv e p s"
  by (auto simp: target_inv_def target_ok_def asked_def list_all_iff split: option.splits)

section \<open>One operation each\<close>

lemma one_operation_each: "tok_inv False False s \<Longrightarrow> length (ups s) \<le> 1 \<and> length (downs s) \<le> 1"
  by (cases "status s") (auto simp: tok_inv_def token_def split: if_splits)

end
