(* ===== verification/Server_Session_History.thy ===== *)
theory Server_Session_History
  imports Server_Session_Safety Server_Session_Bytes
begin

text \<open>
  What a session of the public listener makes of everything it has received.  The steps are
  those of the session, with the chunks its receive handlers were given kept as a history.
  The first chunk alone decides: its request or its fallback gives the target and the first
  bytes for it, and all later chunks are relayed behind them.
\<close>

section \<open>Steps with a history\<close>

fun in_chunk :: "async_op \<Rightarrow> completion \<Rightarrow> string list" where
  "in_chunk In_read (Received d) = [d]"
| "in_chunk Bootstrap_read (Received d) = [d]"
| "in_chunk op c = []"

inductive history_step ::
    "'w session_env \<Rightarrow> ServerSession \<times> 'w \<times> io_trace \<times> string list \<Rightarrow> ServerSession \<times> 'w \<times> io_trace \<times> string list \<Rightarrow> bool"
  for e where
  hist_ready: "i < length (pending s) \<Longrightarrow> pending s ! i = (op, None) \<Longrightarrow> admissible s tr op c \<Longrightarrow>
    history_step e (s, w, tr, h) (s\<lparr>pending := (pending s)[i := (op, Some c)]\<rparr>, w, tr, h)"
| hist_in_progress: "(In_write, None) \<in> set (pending s) \<Longrightarrow> tr_in_off tr + k \<le> length (in_write_data s) \<Longrightarrow>
    history_step e (s, w, tr, h)
      (s, w, tr\<lparr>tr_in_wire := tr_in_wire tr @ take k (drop (tr_in_off tr) (in_write_data s)), tr_in_off := tr_in_off tr + k\<rparr>, h)"
| hist_out_progress: "(Out_write n acc, None) \<in> set (pending s) \<Longrightarrow> tr_out_off tr + k \<le> length (out_write_data s) \<Longrightarrow>
    history_step e (s, w, tr, h)
      (s, w, tr\<lparr>tr_out_wire := tr_out_wire tr @ take k (drop (tr_out_off tr) (out_write_data s)), tr_out_off := tr_out_off tr + k\<rparr>, h)"
| hist_run: "i < length (pending s) \<Longrightarrow> pending s ! i = (op, Some c) \<Longrightarrow>
    on_complete e ok op c (s\<lparr>pending := remove_nth i (pending s)\<rparr>, w) = (s', w') \<Longrightarrow>
    history_step e (s, w, tr, h) (s', w', note_run s op c tr, h @ in_chunk op c)"
| hist_service: "history_step e (s, w, tr, h) (s, w', tr, h)"

text \<open>A session as one of the listeners creates it, with the chunks it has received; and a session of the
  public listener that no front has handed metadata to.\<close>

definition session_history :: "'w session_env \<Rightarrow> ServerSession \<Rightarrow> ServerSession \<Rightarrow> io_trace \<Rightarrow> string list \<Rightarrow> bool" where
  "session_history e s0 s tr h \<longleftrightarrow>
     (\<exists>remote w0 s1 w1 w. start e remote (s0, w0) = (s1, w1) \<and>
        (history_step e)\<^sup>*\<^sup>* (s1, w1, empty_trace, []) (s, w, tr, h))"

definition server_history :: "'w session_env \<Rightarrow> ServerSession \<Rightarrow> io_trace \<Rightarrow> string list \<Rightarrow> bool" where
  "server_history e s tr h \<longleftrightarrow> session_history e new_session s tr h"

text \<open>The history only observes: the steps are those of the session, and every run has one.\<close>

lemma history_step_server: "history_step e (s, w, tr, h) (s', w', tr', h') \<Longrightarrow> server_step e (s, w, tr) (s', w', tr')"
  by (induction "(s, w, tr, h)" "(s', w', tr', h')" rule: history_step.induct)
     (auto intro: session_step.intros server_step.intros)

lemma session_step_history:
  assumes "session_step e (s, w, tr) (s', w', tr')"
  shows "\<exists>h'. history_step e (s, w, tr, h) (s', w', tr', h')"
  using assms by cases (blast intro: history_step.intros)+

lemma server_step_history:
  assumes "server_step e (s, w, tr) (s', w', tr')"
  shows "\<exists>h'. history_step e (s, w, tr, h) (s', w', tr', h')"
  using assms by cases (auto intro: session_step_history history_step.intros)

lemma server_reachable_history:
  assumes "server_reachable e s tr"
  shows "\<exists>s0 h. fresh_session s0 \<and> session_history e s0 s tr h"
proof -
  have steps: "(server_step e)\<^sup>*\<^sup>* (s1, w1, tr1) c \<Longrightarrow>
      \<exists>h. (history_step e)\<^sup>*\<^sup>* (s1, w1, tr1, []) (fst c, fst (snd c), snd (snd c), h)" for s1 w1 tr1 c
  proof (induction rule: rtranclp_induct)
    case (step c c')
    obtain s w tr s' w' tr' where "c = (s, w, tr)" "c' = (s', w', tr')" by (metis prod_cases3)
    with step obtain h where h: "(history_step e)\<^sup>*\<^sup>* (s1, w1, tr1, []) (s, w, tr, h)" "server_step e (s, w, tr) (s', w', tr')"
      by auto
    from server_step_history [OF h(2), of h] obtain h' where "history_step e (s, w, tr, h) (s', w', tr', h')" by blast
    with h(1) have "(history_step e)\<^sup>*\<^sup>* (s1, w1, tr1, []) (s', w', tr', h')" by (rule rtranclp.rtrancl_into_rtrancl)
    with \<open>c' = (s', w', tr')\<close> show ?case by auto
  qed auto
  from assms obtain s0 remote w0 s1 w1 w where r: "fresh_session s0" "start e remote (s0, w0) = (s1, w1)"
      "(server_step e)\<^sup>*\<^sup>* (s1, w1, empty_trace) (s, w, tr)"
    by (auto simp: server_reachable_def)
  obtain h where "(history_step e)\<^sup>*\<^sup>* (s1, w1, empty_trace, []) (s, w, tr, h)" using steps [OF r(3)] by auto
  with r(1,2) show ?thesis unfolding session_history_def by blast
qed

lemma server_history_reachable: "server_history e s tr h \<Longrightarrow> server_reachable e s tr"
proof -
  have steps: "(history_step e)\<^sup>*\<^sup>* c c' \<Longrightarrow>
      (server_step e)\<^sup>*\<^sup>* (fst c, fst (snd c), fst (snd (snd c))) (fst c', fst (snd c'), fst (snd (snd c')))" for c c'
  proof (induction rule: rtranclp_induct)
    case (step c' c'')
    obtain s w tr h s' w' tr' h' where "c' = (s, w, tr, h)" "c'' = (s', w', tr', h')" by (metis prod_cases4)
    with step show ?case by (auto dest!: history_step_server intro: rtranclp.rtrancl_into_rtrancl)
  qed simp
  assume "server_history e s tr h"
  then obtain remote w0 s1 w1 w where r: "start e remote (new_session, w0) = (s1, w1)"
      "(history_step e)\<^sup>*\<^sup>* (s1, w1, empty_trace, []) (s, w, tr, h)"
    by (auto simp: server_history_def session_history_def)
  have "new_session = new_session\<lparr>bootstrap_mode := StandardTls, external_front_handoff := None\<rparr>"
    by (simp add: new_session_def)
  then have "fresh_session new_session" unfolding fresh_session_def by blast
  moreover have "(server_step e)\<^sup>*\<^sup>* (s1, w1, empty_trace) (s, w, tr)" using steps [OF r(2)] by simp
  ultimately show "server_reachable e s tr" using r(1) unfolding server_reachable_def by blast
qed

section \<open>The decision\<close>

definition has_target :: "async_op \<Rightarrow> bool" where
  "has_target op \<longleftrightarrow> op_target op \<noteq> None"

lemma has_target_simps [simp]: "has_target (Tcp_resolve t)" "has_target (Tcp_connect ep t)"
  by (simp_all add: has_target_def)

text \<open>What is fixed once the first chunk has been evaluated: the target (\<open>None\<close> before that) and the bytes
  to send first.\<close>

definition decided :: "ConnectTarget option \<Rightarrow> string \<Rightarrow> ServerSession \<Rightarrow> bool" where
  "decided t buf s \<longleftrightarrow> bootstrap_mode s = StandardTls \<and> external_front_handoff s = None \<and> out_write_buf s = buf \<and>
     list_all (\<lambda>p. fst p \<noteq> Bootstrap_read \<and> (op_target (fst p) = None \<or> op_target (fst p) = t)) (pending s)"

lemma decided_start [simp]:
  "decided t buf (start_op op s) \<longleftrightarrow> decided t buf s \<and> op \<noteq> Bootstrap_read \<and> (op_target op = None \<or> op_target op = t)"
  by (auto simp: decided_def start_op_def)

lemma decided_cancel [simp]: "decided t buf (cancel_io obj s) = decided t buf s"
  by (simp add: decided_def cancel_io_def list_all_iff)

lemma decided_update [simp]:
  "decided t buf (s\<lparr>status := st\<rparr>) = decided t buf s"
  "decided t buf (s\<lparr>connection_slot_acquired := b1\<rparr>) = decided t buf s"
  "decided t buf (s\<lparr>fallback_slot_acquired := b2\<rparr>) = decided t buf s"
  "decided t buf (s\<lparr>auth_password := x1\<rparr>) = decided t buf s"
  "decided t buf (s\<lparr>in_read_size := n1\<rparr>) = decided t buf s"
  "decided t buf (s\<lparr>out_read_size := n2\<rparr>) = decided t buf s"
  "decided t buf (s\<lparr>udp_read_size := n3\<rparr>) = decided t buf s"
  "decided t buf (s\<lparr>in_write_data := x2\<rparr>) = decided t buf s"
  "decided t buf (s\<lparr>out_write_data := x3\<rparr>) = decided t buf s"
  "decided t buf (s\<lparr>udp_write_data := x4\<rparr>) = decided t buf s"
  "decided t buf (s\<lparr>recv_len := l1\<rparr>) = decided t buf s"
  "decided t buf (s\<lparr>sent_len := l2\<rparr>) = decided t buf s"
  "decided t buf (s\<lparr>udp_data_buf := x5\<rparr>) = decided t buf s"
  "decided t buf (s\<lparr>in_endpoint := ep\<rparr>) = decided t buf s"
  "decided t buf (s\<lparr>in_open := b3\<rparr>) = decided t buf s"
  "decided t buf (s\<lparr>out_open := b4\<rparr>) = decided t buf s"
  "decided t buf (s\<lparr>udp_open := b5\<rparr>) = decided t buf s"
  by (simp_all add: decided_def)

lemma decided_destroy [simp]: "decided t buf (fst (destroy e (s, w))) = decided t buf s"
  by (simp add: destroy_def closing_defs split_beta)

lemma decided_udp_sent [simp]: "decided t buf s \<Longrightarrow> decided t buf (fst (udp_sent e (s, w)))"
  using try_parse_udp_cases [of s] by (auto simp: udp_sent_def starts_defs)

lemma decided_tcp_resolved: "decided (Some t) buf s \<Longrightarrow> decided (Some t) buf (fst (tcp_resolved e ok t c (s, w)))"
  by (auto simp: tcp_resolved_def split: completion.split option.split)

lemma decided_udp_resolved: "decided t buf s \<Longrightarrow> decided t buf (fst (udp_resolved e ok pl n c (s, w)))"
  by (auto simp: udp_resolved_def dispatch_udp_payload_def ensure_open_cases starts_defs split_beta
      split: completion.split option.split)

lemma decided_handshake_done: "decided t buf s \<Longrightarrow> decided t buf (fst (handshake_done e c (s, w)))"
  by (auto simp: handshake_done_def starts_defs decided_def [of t buf s])

text \<open>Every handler but that of the first chunk keeps the decision.\<close>

lemma decided_on_complete:
  assumes "decided t buf s" and "op \<noteq> Bootstrap_read" and "op_target op = None \<or> op_target op = t"
    and "op = In_read \<longrightarrow> status s \<noteq> HANDSHAKE"
  shows "decided t buf (fst (on_complete e ok op c (s, w)))"
  using assms
  by (cases op)
     (auto simp: in_recv_def in_sent_def out_recv_def out_sent_def udp_recv_def tcp_connected_def ssl_shutdown_cb_def
       close_in_socket_def starts_defs Let_def
       intro!: decided_handshake_done decided_tcp_resolved decided_udp_resolved
       split: Status.split completion.split)

text \<open>The first chunk: the gate's verdict on it is the decision.\<close>

definition verdict_on :: "'w session_env \<Rightarrow> string \<Rightarrow> SessionDecision \<Rightarrow> bool" where
  "verdict_on e data d \<longleftrightarrow>
     (\<exists>w ep. gate_evaluate (se_config e) (map_option (\<lambda>a pw. au_auth a pw w) (se_auth e))
        (tls_build_gate_input ep (se_alpn e) data) = Inr d)"

lemma decided_begin_tcp_relay:
  "decided t buf s \<Longrightarrow> t = Some target \<Longrightarrow> decided t buf (fst (snd (begin_tcp_relay e target b (s, w))))"
  by (auto simp: begin_tcp_relay_def Let_def split: prod.split)

lemma decided_buffer:
  "decided None buf s \<Longrightarrow> decided t x (s\<lparr>out_write_buf := x\<rparr>)"
  by (auto simp: decided_def list_all_iff)

lemma decided_execute_plan:
  assumes "decided None buf s"
  shows "decided (Some (sd_target d)) (outbound_payload d) (fst (execute_plan e (build_execution_plan d) (s, w)))"
  using decided_buffer [OF assms, of "Some (sd_target d)" "outbound_payload d"]
  by (simp add: execute_plan_def start_udp_forward_def connect_outbound_def Let_def plan_mode decided_begin_tcp_relay)

lemma decided_first_chunk:
  assumes "decided None buf s" and "status s = HANDSHAKE"
  shows "\<exists>d. verdict_on e data d \<and> decided (Some (sd_target d)) (outbound_payload d) (fst (in_recv e data (s, w)))"
proof -
  let ?s = "s\<lparr>in_read_size := grow_after_read (in_read_size s) (length data)\<rparr>"
  let ?auth = "map_option (\<lambda>a pw. au_auth a pw w) (se_auth e)"
  have sel: "select_ingress e ?s = select_default" using assms(1) by (simp add: decided_def select_ingress_def)
  obtain d where d: "gate_evaluate (se_config e) ?auth (tls_build_gate_input (in_endpoint s) (se_alpn e) data) = Inr d"
    using gate_total by blast
  obtain pw w' where a: "apply_auth_result (se_admission e) (in_endpoint s) d (auth_password s) w = (pw, w')" by fastforce
  have "in_recv e data (s, w) = execute_plan e (build_execution_plan d) (?s\<lparr>auth_password := pw\<rparr>, w')"
    using assms(2) sel d a
    by (simp add: in_recv_def handle_handshake_payload_def selector_evaluate_def select_default_def tls_evaluate_initial_data_def Let_def)
  moreover have "decided None buf (?s\<lparr>auth_password := pw\<rparr>)" using assms(1) by simp
  ultimately show ?thesis using decided_execute_plan [of buf _ d e w'] d unfolding verdict_on_def by metis
qed

section \<open>The invariant\<close>

text \<open>Before the first chunk nothing is decided; afterwards the session connects, and then relays every
  later chunk.\<close>

definition history_inv :: "'w session_env \<Rightarrow> ServerSession \<Rightarrow> io_trace \<Rightarrow> string list \<Rightarrow> bool" where
  "history_inv e s tr h \<longleftrightarrow> tok_inv False False s \<and>
     (case h of
        [] \<Rightarrow> decided None [] s \<and> (status s = HANDSHAKE \<or> status s = DESTROY \<and> ups s = [] \<and> downs s = []) \<and> tr_up tr = []
      | first # rest \<Rightarrow>
          (\<exists>d. verdict_on e first d \<and> decided (Some (sd_target d)) (outbound_payload d) s) \<and>
          is_prefix (tr_up tr) (concat rest) \<and>
          (status s = HANDSHAKE \<longrightarrow> rest = [] \<and> list_all (\<lambda>p. has_target (fst p)) (ups s)) \<and>
          (status s = FORWARD_TCP \<longrightarrow> tr_up tr = concat rest))"

lemma decided_pending:
  "decided t buf s \<Longrightarrow> list_all (\<lambda>p. fst p \<noteq> Bootstrap_read \<and> (op_target (fst p) = None \<or> op_target (fst p) = t)) ps \<Longrightarrow>
   decided t buf (s\<lparr>pending := ps\<rparr>)"
  by (simp add: decided_def)

lemma decided_nth:
  assumes "decided t buf s" and "i < length (pending s)" and "pending s ! i = (op, c)"
  shows "op \<noteq> Bootstrap_read" and "op_target op = None \<or> op_target op = t"
  using assms by (auto simp: decided_def list_all_length dest!: spec [of _ i])

lemma decided_remove: "decided t buf s \<Longrightarrow> decided t buf (s\<lparr>pending := remove_nth i (pending s)\<rparr>)"
  by (auto simp: decided_def remove_nth_def list_all_iff dest: in_set_takeD in_set_dropD)

lemma decided_ready:
  assumes "decided t buf s" and "i < length (pending s)" and "pending s ! i = (op, None)"
  shows "decided t buf (s\<lparr>pending := (pending s)[i := (op, Some c)]\<rparr>)"
proof (rule decided_pending [OF assms(1)])
  show "list_all (\<lambda>p. fst p \<noteq> Bootstrap_read \<and> (op_target (fst p) = None \<or> op_target (fst p) = t)) ((pending s)[i := (op, Some c)])"
    using assms(1) decided_nth [OF assms] by (intro list_all_update) (simp_all add: decided_def)
qed

text \<open>How the status changes.\<close>

definition stays :: "ServerSession \<Rightarrow> ServerSession \<Rightarrow> bool" where
  "stays s s' \<longleftrightarrow> status s' = DESTROY \<or> status s' = status s"

lemma stays_destroy [simp]: "stays s (fst (destroy e (s', w)))"
  by (simp add: stays_def)

lemma stays_udp_sent: "status s' = status s \<Longrightarrow> stays s (fst (udp_sent e (s', w)))"
  using try_parse_udp_cases [of s'] by (auto simp: udp_sent_def starts_defs stays_def)

lemma udp_sent_not_handshake: "status s = UDP_FORWARD \<Longrightarrow> status (fst (udp_sent e (s, w))) \<noteq> HANDSHAKE"
  using stays_udp_sent [of s s e w] by (auto simp: stays_def)

lemma stays_resolved: "stays s (fst (tcp_resolved e ok t c (s, w)))" "stays s (fst (udp_resolved e ok pl n c (s, w)))"
proof -
  show "stays s (fst (tcp_resolved e ok t c (s, w)))"
    by (cases c) (auto simp: tcp_resolved_def stays_def split: option.split)
  have "stays s (fst (dispatch_udp_payload e ok pl n ep (s, w)))" for ep
    by (auto simp: dispatch_udp_payload_def ensure_open_cases starts_defs stays_def split_beta)
  then show "stays s (fst (udp_resolved e ok pl n c (s, w)))"
    by (cases c) (auto simp: udp_resolved_def split: option.split)
qed

lemma stays_in_recv: "status s \<noteq> HANDSHAKE \<Longrightarrow> stays s (fst (in_recv e data (s, w)))"
  by (cases "status s") (simp_all add: in_recv_def Let_def starts_defs stays_udp_sent, simp_all add: stays_def)

lemma stays_handshake_done: "stays s (fst (handshake_done e c (s, w)))"
  by (auto simp: handshake_done_def starts_defs stays_def)

lemma status_first_chunk:
  assumes "status s = HANDSHAKE"
  shows "status (fst (in_recv e data (s, w))) \<noteq> FORWARD_TCP"
  using quiet_in_recv [OF assms, of e data w] by (auto simp: quiet_def)

lemma stays_on_complete:
  assumes "op \<noteq> Bootstrap_read" and "\<not> is_tcp_connect op" and "op = In_read \<longrightarrow> status s \<noteq> HANDSHAKE"
  shows "stays s (fst (on_complete e ok op c (s, w)))"
proof (cases op)
  case In_read
  with assms show ?thesis by (cases c) (auto intro: stays_in_recv)
next
  case Out_read
  then show ?thesis by (cases c) (auto simp: out_recv_def in_async_write_buffer_def Let_def stays_def)
next
  case Udp_read
  then show ?thesis by (cases c) (auto simp: udp_recv_def in_async_write_buffer_def Let_def stays_def)
next
  case In_write
  then show ?thesis by (cases "status s") (auto simp: in_sent_def starts_defs stays_def)
next
  case (Out_write n acc)
  then show ?thesis by (auto simp: out_sent_def starts_defs stays_def)
next
  case (Udp_write ep n)
  then show ?thesis by (auto intro!: stays_udp_sent)
next
  case Ssl_shutdown
  then show ?thesis by (auto simp: ssl_shutdown_cb_def close_in_socket_def stays_def)
next
  case Shutdown_timer
  then show ?thesis by (auto simp: ssl_shutdown_cb_def close_in_socket_def stays_def)
qed (use assms in \<open>auto intro: stays_resolved stays_handshake_done\<close>)

lemma tcp_connected_fields: "status (tcp_connected s) = FORWARD_TCP" "ups (tcp_connected s) = ups s @
    (if out_write_buf s = [] then [(In_read, None)] else [(Out_write (length (out_write_buf s)) True, None)])"
  by (simp_all add: tcp_connected_def starts_defs Let_def)

section \<open>Steps keep the invariant\<close>

lemma in_chunk_other [simp]: "op \<noteq> In_read \<Longrightarrow> op \<noteq> Bootstrap_read \<Longrightarrow> in_chunk op c = []"
  by (cases op; cases c) simp_all

lemma destroy_tokens: "ups s = [] \<Longrightarrow> ups (fst (destroy e (s, w))) = []" "downs s = [] \<Longrightarrow> downs (fst (destroy e (s, w))) = []"
  by (simp_all add: destroy_eq closed_down_entries)

text \<open>The operation whose handler runs, by the state of the session.\<close>

lemma run_op_cases:
  assumes "tok_inv False False s" and "i < length (pending s)" and "pending s ! i = (op, Some c)"
  shows "status s = HANDSHAKE \<Longrightarrow> ups s = [(op, Some c)] \<and> handshake_op op \<and>
      ups (s\<lparr>pending := remove_nth i (pending s)\<rparr>) = [] \<and> downs (s\<lparr>pending := remove_nth i (pending s)\<rparr>) = []"
    and "status s \<noteq> HANDSHAKE \<Longrightarrow> \<not> is_tcp_connect op"
    and "status s = DESTROY \<Longrightarrow> ups s = [] \<Longrightarrow> downs s = [] \<Longrightarrow> is_closer op"
proof -
  have kinds: "is_up op \<or> is_down op \<or> is_closer op" by (cases op) auto
  have cl: "is_closer op \<Longrightarrow> closers s \<noteq> []"
    using nth_mem [OF assms(2)] assms(3) by (force simp: closers_def filter_empty_conv)
  show "ups s = [(op, Some c)] \<and> handshake_op op \<and> ups (s\<lparr>pending := remove_nth i (pending s)\<rparr>) = [] \<and>
      downs (s\<lparr>pending := remove_nth i (pending s)\<rparr>) = []" if st: "status s = HANDSHAKE"
  proof -
    have "is_up op" using kinds cl tok_inv_take_down(3) [OF assms] assms(1) st by (auto simp: tok_inv_def)
    note u = tok_inv_take_up [OF assms this]
    then show ?thesis using st by (auto simp: tok_inv_def token_def)
  qed
  show "\<not> is_tcp_connect op" if st: "status s \<noteq> HANDSHAKE"
  proof
    assume "is_tcp_connect op"
    then have "is_up op" "\<not> forward_up op" "\<not> udp_up op" by (cases op; simp)+
    with tok_inv_take_up(3) [OF assms] st show False by (auto split: Status.splits)
  qed
  show "is_closer op" if "status s = DESTROY" "ups s = []" "downs s = []"
    using kinds tok_inv_take_up(2) [OF assms] tok_inv_take_down(2) [OF assms] that by auto
qed

lemma closer_tokens:
  "is_closer op \<Longrightarrow> ups s = [] \<Longrightarrow> ups (fst (on_complete e ok op c (s, w))) = []"
  "is_closer op \<Longrightarrow> downs s = [] \<Longrightarrow> downs (fst (on_complete e ok op c (s, w))) = []"
  by (cases op; simp add: ssl_shutdown_cb_def close_in_socket_def)+

text \<open>Before the first chunk.\<close>

lemma handle_payload_tokens:
  assumes "ups s = []" and "status (fst (handle_handshake_payload e data (s, w))) = HANDSHAKE"
  shows "list_all (\<lambda>p. has_target (fst p)) (ups (fst (handle_handshake_payload e data (s, w))))"
proof -
  have relay: "status (fst (snd (begin_tcp_relay e t b (s', w')))) = HANDSHAKE \<Longrightarrow> ups s' = [] \<Longrightarrow>
      list_all (\<lambda>p. has_target (fst p)) (ups (fst (snd (begin_tcp_relay e t b (s', w')))))" for t b s' and w' :: 'a
    by (auto simp: begin_tcp_relay_def Let_def split: prod.splits if_splits)
  have plan: "status (fst (execute_plan e p (s', w'))) = HANDSHAKE \<Longrightarrow> ups s' = [] \<Longrightarrow>
      list_all (\<lambda>p. has_target (fst p)) (ups (fst (execute_plan e p (s', w'))))" for p s' and w' :: 'a
    by (auto simp: execute_plan_def start_udp_forward_def connect_outbound_def Let_def udp_sent_not_handshake intro!: relay split: if_splits)
  show ?thesis using assms
    by (auto simp: handle_handshake_payload_def intro!: plan split: sum.splits prod.splits)
qed

lemma first_chunk_tokens:
  assumes "status s = HANDSHAKE" and "ups s = []" and "status (fst (in_recv e data (s, w))) = HANDSHAKE"
  shows "list_all (\<lambda>p. has_target (fst p)) (ups (fst (in_recv e data (s, w))))"
  using assms by (auto simp: in_recv_def Let_def intro!: handle_payload_tokens)

lemma run_before:
  assumes "history_inv e s tr []" and "i < length (pending s)" and "pending s ! i = (op, Some c)"
    and "on_complete e ok op c (s\<lparr>pending := remove_nth i (pending s)\<rparr>, w) = (s', w')"
  shows "history_inv e s' (note_run s op c tr) (in_chunk op c)"
proof -
  let ?s = "s\<lparr>pending := remove_nth i (pending s)\<rparr>"
  have tok: "tok_inv False False s" and dec: "decided None [] s" and up: "tr_up tr = []"
    and st: "status s = HANDSHAKE \<or> status s = DESTROY \<and> ups s = [] \<and> downs s = []"
    using assms(1) by (simp_all add: history_inv_def)
  have s': "s' = fst (on_complete e ok op c (?s, w))" using assms(4) by simp
  note o = decided_nth [OF dec assms(2,3)] and tok' = run_tok [OF tok assms(2-4)] and dec' = decided_remove [OF dec, of i]
  have "status s \<noteq> FORWARD_TCP" using st by auto
  with up have up': "tr_up (note_run s op c tr) = []" by (simp add: note_run_up)
  show ?thesis
  proof (cases "status s = HANDSHAKE")
    case True
    note r = run_op_cases(1) [OF tok assms(2,3) True]
    show ?thesis
    proof (cases "\<exists>d. op = In_read \<and> c = Received d")
      case chunk: True
      then obtain d where d: "op = In_read" "c = Received d" by blast
      then have eq: "s' = fst (in_recv e d (?s, w))" using s' by simp
      from decided_first_chunk [OF dec', of e d w] True obtain v where
        v: "verdict_on e d v" "decided (Some (sd_target v)) (outbound_payload v) s'" unfolding eq by auto
      have "status s' \<noteq> FORWARD_TCP" using status_first_chunk [of ?s e d w] True unfolding eq by simp
      moreover have "status s' = HANDSHAKE \<Longrightarrow> list_all (\<lambda>p. has_target (fst p)) (ups s')"
        using first_chunk_tokens [of ?s e d w] True r unfolding eq by simp
      ultimately show ?thesis using d v tok' up' by (auto simp: history_inv_def is_prefix_def)
    next
      case False
      have nc: "in_chunk op c = []" using False o(1) by (cases op; cases c) auto
      have "decided None [] s' \<and> (status s' = HANDSHAKE \<or> status s' = DESTROY \<and> ups s' = [] \<and> downs s' = [])"
      proof (cases "op = In_read")
        case True
        with False have "s' = fst (destroy e (?s, w))" using s' by (cases c) auto
        with dec' r show ?thesis by (simp add: destroy_tokens)
      next
        case other: False
        have nt: "op_target op = None" using o by auto
        then have h: "op = Handshake \<or> op = Plain_http_write" using r o other by (cases op) auto
        have "status s' = HANDSHAKE \<or> s' = fst (destroy e (?s, w))"
          using h s' True by (auto simp: handshake_done_def starts_defs split: if_splits)
        moreover have "decided None [] s'" using decided_on_complete [OF dec', of op e ok c w] o other unfolding s' by simp
        ultimately show ?thesis using r by (auto simp: destroy_tokens)
      qed
      with nc tok' up' show ?thesis by (simp add: history_inv_def)
    qed
  next
    case False
    with st have d: "status s = DESTROY" "ups s = []" "downs s = []" by auto
    have c: "is_closer op" by (rule run_op_cases(3) [OF tok assms(2,3) d])
    then have op: "op \<noteq> In_read" "op_target op = None" "op \<noteq> Bootstrap_read" by (cases op; simp)+
    have "ups ?s = []" "downs ?s = []" using d by (auto simp: ups_def downs_def filter_empty_conv remove_nth_def dest: in_set_takeD in_set_dropD)
    then have "ups s' = []" "downs s' = []" using closer_tokens [OF c, of ?s e ok] unfolding s' by simp_all
    moreover have "decided None [] s'" using decided_on_complete [OF dec', of op e ok c w] op unfolding s' by simp
    moreover have "status s' = DESTROY" using stays_on_complete [of op ?s e ok c w] op c d(1) unfolding s' stays_def by (cases op) auto
    ultimately show ?thesis using op tok' up' by (simp add: history_inv_def)
  qed
qed

text \<open>Connecting, and relaying.\<close>

lemma connecting_op:
  assumes "op = Tcp_resolve t \<or> op = Tcp_connect ep t" and "ups s = []" and "status s = HANDSHAKE"
    and "s' = fst (on_complete e ok op c (s, w))"
  shows "status s' = HANDSHAKE \<Longrightarrow> list_all (\<lambda>p. has_target (fst p)) (ups s')"
  using assms by (auto simp: tcp_resolved_def tcp_connected_fields split: completion.splits option.splits if_splits)

lemma run_after:
  assumes "history_inv e s tr (first # rest)" and "i < length (pending s)" and "pending s ! i = (op, Some c)"
    and "on_complete e ok op c (s\<lparr>pending := remove_nth i (pending s)\<rparr>, w) = (s', w')"
  shows "history_inv e s' (note_run s op c tr) ((first # rest) @ in_chunk op c)"
proof -
  let ?s = "s\<lparr>pending := remove_nth i (pending s)\<rparr>"
  from assms(1) obtain d where tok: "tok_inv False False s" and v: "verdict_on e first d"
    and dec: "decided (Some (sd_target d)) (outbound_payload d) s" and pre: "is_prefix (tr_up tr) (concat rest)"
    and hs: "status s = HANDSHAKE \<Longrightarrow> rest = [] \<and> list_all (\<lambda>p. has_target (fst p)) (ups s)"
    and fw: "status s = FORWARD_TCP \<Longrightarrow> tr_up tr = concat rest"
    by (auto simp: history_inv_def)
  have s': "s' = fst (on_complete e ok op c (?s, w))" using assms(4) by simp
  note o = decided_nth [OF dec assms(2,3)] and tok' = run_tok [OF tok assms(2-4)] and dec' = decided_remove [OF dec, of i]
  show ?thesis
  proof (cases "status s = HANDSHAKE")
    case True
    note r = run_op_cases(1) [OF tok assms(2,3) True]
    then have "has_target op" using hs True by auto
    then obtain t ep where op: "op = Tcp_resolve t \<or> op = Tcp_connect ep t" by (cases op) (auto simp: has_target_def)
    have "status s' = HANDSHAKE \<Longrightarrow> list_all (\<lambda>p. has_target (fst p)) (ups s')"
      using connecting_op [OF op, of ?s s' e ok c w] r True s' by simp
    moreover have "decided (Some (sd_target d)) (outbound_payload d) s'"
      using decided_on_complete [OF dec', of op e ok c w] o op unfolding s' by auto
    moreover have "tr_up tr = []" using pre hs True by (simp add: is_prefix_def)
    ultimately show ?thesis using tok' v hs True op
      by (auto simp: history_inv_def is_prefix_def note_run_up)
  next
    case False
    have nt: "\<not> is_tcp_connect op" by (rule run_op_cases(2) [OF tok assms(2,3) False])
    have st: "stays s s'" using stays_on_complete [of op ?s e ok c w] o nt False unfolding s' by (simp add: stays_def)
    have "decided (Some (sd_target d)) (outbound_payload d) s'"
      using decided_on_complete [OF dec', of op e ok c w] o False unfolding s' by simp
    moreover have "is_prefix (tr_up (note_run s op c tr)) (concat (rest @ in_chunk op c))"
      using pre fw o(1) by (cases op; cases c) (auto simp: is_prefix_def)
    moreover have "status s' = FORWARD_TCP \<Longrightarrow> tr_up (note_run s op c tr) = concat (rest @ in_chunk op c)"
      using st fw o(1) by (cases op; cases c) (auto simp: stays_def)
    ultimately show ?thesis using tok' v st False by (auto simp: history_inv_def stays_def)
  qed
qed

lemma history_step_inv:
  assumes "history_step e (s, w, tr, h) (s', w', tr', h')" and "history_inv e s tr h"
  shows "history_inv e s' tr' h'"
  using assms(1)
proof cases
  case (hist_ready i op c)
  have tok: "tok_inv False False s" using assms(2) by (simp add: history_inv_def)
  then have tok': "tok_inv False False s'" using ready_tok [OF tok hist_ready(5,6), of c] hist_ready by simp
  note u = ready_tokens_ups(1) [OF tok hist_ready(5,6), of c] ready_tokens_ups(2) [OF tok hist_ready(5,6)]
  have u': "list_all (\<lambda>p. P (fst p)) (ups s') = list_all (\<lambda>p. P (fst p)) (ups s)" "ups s' = [] \<longleftrightarrow> ups s = []" for P
    using u hist_ready by (auto split: if_splits)
  have "downs s' = [] \<longleftrightarrow> downs s = []"
    using hist_ready length_filter_update [of i "pending s" "\<lambda>p. is_down (fst p)" "(op, Some c)"]
    by (simp add: downs_def flip: length_0_conv)
  moreover have "decided t buf s \<Longrightarrow> decided t buf s'" for t buf
    using decided_ready [of t buf s i op c] hist_ready by simp
  moreover have "status s' = status s" "tr' = tr" "h' = h" using hist_ready by simp_all
  ultimately show ?thesis using assms(2) tok' u' by (auto simp: history_inv_def split: list.splits)
next
  case (hist_run i op c ok)
  with assms(2) show ?thesis
    using run_before [of e s tr i op c ok w s' w'] run_after [of e s tr _ _ i op c ok w s' w'] by (cases h) auto
qed (use assms(2) in \<open>auto simp: history_inv_def split: list.splits\<close>)

lemma start_history:
  assumes "start e remote (new_session, w) = (s, w')"
  shows "history_inv e s empty_trace []"
proof -
  have "new_session = new_session\<lparr>bootstrap_mode := StandardTls, external_front_handoff := None\<rparr>"
    by (simp add: new_session_def)
  then have f: "fresh_session new_session" unfolding fresh_session_def by blast
  have "tok_inv False False s" using start_tok [OF f, of e remote w] assms by simp
  moreover have n: "decided None [] new_session" "bootstrap_mode new_session = StandardTls" "ups new_session = []" "downs new_session = []"
      "status new_session = HANDSHAKE"
    by (simp_all add: decided_def new_session_def ups_def downs_def)
  have "decided None [] s \<and> (status s = HANDSHAKE \<or> status s = DESTROY \<and> ups s = [] \<and> downs s = [])"
  proof (cases remote)
    case None
    then have "s = fst (destroy e (new_session\<lparr>in_endpoint := no_endpoint\<rparr>, w))" using assms by (simp add: start_def)
    then show ?thesis using n by (simp add: destroy_tokens)
  next
    case (Some ep)
    then have "s = start_op Handshake (new_session\<lparr>in_endpoint := ep, connection_slot_acquired := True\<rparr>)"
      using assms n(2) by (simp add: start_def Let_def)
    then show ?thesis using n by simp
  qed
  ultimately show ?thesis by (simp add: history_inv_def empty_trace_def)
qed

lemma server_history_inv: "server_history e s tr h \<Longrightarrow> history_inv e s tr h"
proof -
  have steps: "(history_step e)\<^sup>*\<^sup>* c c' \<Longrightarrow> history_inv e (fst c) (fst (snd (snd c))) (snd (snd (snd c))) \<Longrightarrow>
      history_inv e (fst c') (fst (snd (snd c'))) (snd (snd (snd c')))" for c c'
  proof (induction rule: rtranclp_induct)
    case (step c' c'')
    obtain s w tr h s' w' tr' h' where "c' = (s, w, tr, h)" "c'' = (s', w', tr', h')" by (metis prod_cases4)
    with step show ?case using history_step_inv by auto
  qed simp
  assume "server_history e s tr h"
  then obtain remote w0 s1 w1 w where r: "start e remote (new_session, w0) = (s1, w1)"
      "(history_step e)\<^sup>*\<^sup>* (s1, w1, empty_trace, []) (s, w, tr, h)"
    by (auto simp: server_history_def session_history_def)
  from steps [OF r(2)] start_history [OF r(1)] show "history_inv e s tr h" by simp
qed

end
