(* ===== verification/Runs.thy ===== *)
theory Runs
  imports System Server_Session_History
begin

text \<open>
  Executable runs.  A list of actions determines what the environment and the \<open>io_context\<close> do,
  so a particular execution of a session, or of a whole server, can be evaluated.  Every
  such run is one the step relations allow; it is how the properties below are exhibited
  on concrete inputs, and how behaviours of the code that a reader may not expect are
  shown to occur.
\<close>

section \<open>Runs of a session\<close>

text \<open>The operation in place \<open>i\<close> completes; the socket takes bytes of the write in flight; the
  handler of the completion in place \<open>i\<close> runs.\<close>

datatype action =
    Complete nat completion
  | In_bytes nat
  | Out_bytes nat
  | Run nat bool

fun is_out_write :: "async_op \<Rightarrow> bool" where
  "is_out_write (Out_write n acc) = True"
| "is_out_write op = False"

fun act :: "'w session_env \<Rightarrow> action \<Rightarrow> ServerSession \<times> 'w \<times> io_trace \<Rightarrow> (ServerSession \<times> 'w \<times> io_trace) option" where
  "act e (Complete i c) (s, w, tr) =
     (if i < length (pending s) \<and> snd (pending s ! i) = None \<and> admissible s tr (fst (pending s ! i)) c
      then Some (s\<lparr>pending := (pending s)[i := (fst (pending s ! i), Some c)]\<rparr>, w, tr) else None)"
| "act e (In_bytes k) (s, w, tr) =
     (if list_ex (\<lambda>p. p = (In_write, None)) (pending s) \<and> tr_in_off tr + k \<le> length (in_write_data s)
      then Some (s, w, tr\<lparr>tr_in_wire := tr_in_wire tr @ take k (drop (tr_in_off tr) (in_write_data s)),
                          tr_in_off := tr_in_off tr + k\<rparr>) else None)"
| "act e (Out_bytes k) (s, w, tr) =
     (if list_ex (\<lambda>p. is_out_write (fst p) \<and> snd p = None) (pending s) \<and> tr_out_off tr + k \<le> length (out_write_data s)
      then Some (s, w, tr\<lparr>tr_out_wire := tr_out_wire tr @ take k (drop (tr_out_off tr) (out_write_data s)),
                          tr_out_off := tr_out_off tr + k\<rparr>) else None)"
| "act e (Run i ok) (s, w, tr) =
     (if i < length (pending s)
      then (case pending s ! i of
              (op, Some c) \<Rightarrow>
                (case on_complete e ok op c (s\<lparr>pending := remove_nth i (pending s)\<rparr>, w) of
                   (s', w') \<Rightarrow> Some (s', w', note_run s op c tr))
            | (op, None) \<Rightarrow> None)
      else None)"

fun acts :: "'w session_env \<Rightarrow> action list \<Rightarrow> ServerSession \<times> 'w \<times> io_trace \<Rightarrow> (ServerSession \<times> 'w \<times> io_trace) option" where
  "acts e [] c = Some c"
| "acts e (a # as) c = (case act e a c of None \<Rightarrow> None | Some c' \<Rightarrow> acts e as c')"

lemma act_step: "act e a c = Some c' \<Longrightarrow> session_step e c c'"
proof (induction e a c rule: act.induct)
  case (1 e i c s w tr)
  then show ?case by (auto split: if_splits intro!: session_step.ready) (metis prod.collapse)
next
  case (2 e k s w tr)
  then show ?case by (auto simp: list_ex_iff split: if_splits intro: session_step.in_progress)
next
  case (3 e k s w tr)
  then have o: "\<exists>p \<in> set (pending s). is_out_write (fst p) \<and> snd p = None"
    and off: "tr_out_off tr + k \<le> length (out_write_data s)"
    and c': "c' = (s, w, tr\<lparr>tr_out_wire := tr_out_wire tr @ take k (drop (tr_out_off tr) (out_write_data s)),
                             tr_out_off := tr_out_off tr + k\<rparr>)"
    by (auto simp: list_ex_iff split: if_splits)
  from o obtain op where op: "(op, None) \<in> set (pending s)" "is_out_write op" by (metis prod.collapse)
  then obtain n acc where "(Out_write n acc, None) \<in> set (pending s)" by (cases op) auto
  then show ?case using off c' by (simp add: session_step.out_progress)
next
  case (4 e i ok s w tr)
  then show ?case by (auto split: if_splits prod.splits option.splits intro: session_step.run)
qed

lemma acts_steps: "acts e as c = Some c' \<Longrightarrow> (session_step e)\<^sup>*\<^sup>* c c'"
  by (induction e as c rule: acts.induct)
     (auto split: option.splits dest!: act_step intro: converse_rtranclp_into_rtranclp)

text \<open>A run of a session from its start.\<close>

definition session_run ::
    "'w session_env \<Rightarrow> ServerSession \<Rightarrow> endpoint option \<Rightarrow> 'w \<Rightarrow> action list \<Rightarrow> (ServerSession \<times> 'w \<times> io_trace) option" where
  "session_run e s0 remote w0 as =
     (case start e remote (s0, w0) of (s, w) \<Rightarrow> acts e as (s, w, empty_trace))"

lemma session_run_reachable:
  assumes "session_run e s0 remote w0 as = Some (s, w, tr)" and "fresh_session s0"
  shows "server_reachable e s tr"
proof -
  obtain s1 w1 where st: "start e remote (s0, w0) = (s1, w1)" by fastforce
  with assms(1) have "(session_step e)\<^sup>*\<^sup>* (s1, w1, empty_trace) (s, w, tr)"
    by (auto simp: session_run_def dest: acts_steps)
  then have "(server_step e)\<^sup>*\<^sup>* (s1, w1, empty_trace) (s, w, tr)"
    by (rule rtranclp_mono [THEN predicate2D, rotated]) (auto intro: server_step.own)
  with st assms(2) show ?thesis unfolding server_reachable_def by blast
qed

text \<open>The chunks that the receive handlers of a run are given.\<close>

fun act_chunks :: "action \<Rightarrow> ServerSession \<Rightarrow> string list" where
  "act_chunks (Run i ok) s =
     (if i < length (pending s) then (case pending s ! i of (op, Some c) \<Rightarrow> in_chunk op c | (op, None) \<Rightarrow> []) else [])"
| "act_chunks a s = []"

fun acts_chunks :: "'w session_env \<Rightarrow> action list \<Rightarrow> ServerSession \<times> 'w \<times> io_trace \<Rightarrow> string list" where
  "acts_chunks e [] c = []"
| "acts_chunks e (a # as) c = act_chunks a (fst c) @ (case act e a c of None \<Rightarrow> [] | Some c' \<Rightarrow> acts_chunks e as c')"

lemma act_history:
  assumes "act e a (s, w, tr) = Some (s', w', tr')"
  shows "history_step e (s, w, tr, h) (s', w', tr', h @ act_chunks a s)"
proof (cases a)
  case (Complete i c)
  have "history_step e (s, w, tr, h) (s\<lparr>pending := (pending s)[i := (fst (pending s ! i), Some c)]\<rparr>, w, tr, h)"
    if "i < length (pending s)" "snd (pending s ! i) = None" "admissible s tr (fst (pending s ! i)) c"
    using history_step.hist_ready [OF that(1) _ that(3)] that(2) by (metis prod.collapse)
  with Complete assms show ?thesis by (auto split: if_splits)
next
  case (In_bytes k)
  with assms show ?thesis by (auto simp: list_ex_iff split: if_splits intro: history_step.hist_in_progress)
next
  case (Out_bytes k)
  with assms obtain op where op: "(op, None) \<in> set (pending s)" "is_out_write op"
    by (auto simp: list_ex_iff split: if_splits)
  then obtain n acc where "(Out_write n acc, None) \<in> set (pending s)" by (cases op) auto
  with Out_bytes assms show ?thesis by (auto split: if_splits intro: history_step.hist_out_progress)
next
  case (Run i ok)
  with assms show ?thesis by (auto split: if_splits prod.splits option.splits intro: history_step.hist_run)
qed

lemma acts_history:
  "acts e as (s, w, tr) = Some (s', w', tr') \<Longrightarrow>
     (history_step e)\<^sup>*\<^sup>* (s, w, tr, h) (s', w', tr', h @ acts_chunks e as (s, w, tr))"
proof (induction as arbitrary: s w tr h)
  case (Cons a as)
  from Cons.prems obtain s1 w1 tr1 where a: "act e a (s, w, tr) = Some (s1, w1, tr1)" "acts e as (s1, w1, tr1) = Some (s', w', tr')"
    by (auto split: option.splits)
  show ?case using converse_rtranclp_into_rtranclp [OF act_history [OF a(1)] Cons.IH [OF a(2)]] a(1) by simp
qed simp

lemma session_run_history:
  assumes "session_run e s0 remote w0 as = Some (s, w, tr)" and "start e remote (s0, w0) = (s1, w1)"
  shows "session_history e s0 s tr (acts_chunks e as (s1, w1, empty_trace))"
proof -
  have "acts e as (s1, w1, empty_trace) = Some (s, w, tr)" using assms by (simp add: session_run_def)
  from acts_history [OF this, of "[]"] assms(2) show ?thesis unfolding session_history_def append_Nil by blast
qed

section \<open>Runs of a server\<close>

datatype server_action =
    Accept "string option" "endpoint option" accept_error "endpoint option" bool
  | Session nat action
  | Tick int

fun server_act ::
    "Config \<Rightarrow> ServiceState Authenticator option \<Rightarrow> string \<Rightarrow> (string \<Rightarrow> ptree option) \<Rightarrow> bool \<Rightarrow>
     server_action \<Rightarrow> system \<Rightarrow> system option" where
  "server_act cfg auth plain rj public (Accept alpn remote' err remote bypass) sy =
     (if (bypass \<longrightarrow> trusted_front_listening cfg) \<and> (public \<longrightarrow> \<not> bypass \<and> remote' = remote)
      then (case handle_accept_completion cfg (start (server_env cfg auth plain rj alpn) remote') close_accepted
                   err remote bypass (accepting rj cfg bypass, sy_service sy) of
              (continue, started, s, sv) \<Rightarrow>
                Some \<lparr>sy_service = sv,
                      sy_sessions = sy_sessions sy @ (if started then [(alpn, s, empty_trace)] else [])\<rparr>)
      else None)"
| "server_act cfg auth plain rj public (Session i a) sy =
     (if i < length (sy_sessions sy)
      then (case sy_sessions sy ! i of (alpn, s, tr) \<Rightarrow>
              (case act (server_env cfg auth plain rj alpn) a (s, sy_service sy, tr) of
                 Some (s', sv, tr') \<Rightarrow> Some \<lparr>sy_service = sv, sy_sessions = (sy_sessions sy)[i := (alpn, s', tr')]\<rparr>
               | None \<Rightarrow> None))
      else None)"
| "server_act cfg auth plain rj public (Tick now) sy =
     (if sv_now (sy_service sy) \<le> now then Some (sy\<lparr>sy_service := (sy_service sy)\<lparr>sv_now := now\<rparr>\<rparr>) else None)"

fun server_acts ::
    "Config \<Rightarrow> ServiceState Authenticator option \<Rightarrow> string \<Rightarrow> (string \<Rightarrow> ptree option) \<Rightarrow> bool \<Rightarrow>
     server_action list \<Rightarrow> system \<Rightarrow> system option" where
  "server_acts cfg auth plain rj public [] sy = Some sy"
| "server_acts cfg auth plain rj public (a # as) sy =
     (case server_act cfg auth plain rj public a sy of
        None \<Rightarrow> None | Some sy' \<Rightarrow> server_acts cfg auth plain rj public as sy')"

lemma server_act_step:
  assumes "server_act cfg auth plain rj public a sy = Some sy'"
  shows "system_step cfg auth plain rj public sy sy'"
proof (cases a)
  case (Accept alpn remote' err remote bypass)
  obtain continue started s sv where h:
    "handle_accept_completion cfg (start (server_env cfg auth plain rj alpn) remote') close_accepted
       err remote bypass (accepting rj cfg bypass, sy_service sy) = (continue, started, s, sv)"
    by (metis prod_cases4)
  show ?thesis using assms Accept system_step.accept [OF h, of public] h by (auto split: if_splits)
next
  case (Session i b)
  then show ?thesis using assms
    by (auto split: if_splits prod.splits option.splits intro!: system_step.session act_step)
next
  case (Tick now)
  then show ?thesis using assms by (auto split: if_splits intro: system_step.tick)
qed

lemma server_acts_steps:
  "server_acts cfg auth plain rj public as sy = Some sy' \<Longrightarrow> (system_step cfg auth plain rj public)\<^sup>*\<^sup>* sy sy'"
  by (induction cfg auth plain rj public as sy rule: server_acts.induct)
     (auto split: option.splits dest!: server_act_step intro: converse_rtranclp_into_rtranclp)

lemma server_run_reachable:
  "server_acts cfg auth plain rj public as (system_start cfg now) = Some sy \<Longrightarrow>
   system_reachable cfg auth plain rj public sy"
  unfolding system_reachable_def using server_acts_steps by blast

end
