(* ===== verification/Samples.thy ===== *)
theory Samples
  imports Runs
begin

text \<open>
  A concrete server, client and configuration, on which the properties are exhibited.  The
  configuration is what \<open>populate\<close> makes of a small tree; its hash function stands for
  OpenSSL's and prints the message itself.
\<close>

definition empty_tree :: ptree where
  "empty_tree = \<lparr>pt_string = (\<lambda>_. None), pt_int = (\<lambda>_. None), pt_long = (\<lambda>_. None), pt_u16 = (\<lambda>_. None),
     pt_bool = (\<lambda>_. None), pt_children = (\<lambda>_. None)\<rparr>"

text \<open>A server with the password \<open>p\<close> (the hash of which is \<open>70\<close>), the fallback target \<open>web:80\<close>, one
  fallback session at a time and two connections per address.\<close>

definition sample_tree :: ptree where
  "sample_tree = empty_tree\<lparr>
     pt_string := map_of [(''run_type'', ''server''), (''remote_addr'', ''web'')],
     pt_u16 := map_of [(''remote_port'', 80)],
     pt_int := map_of [(''abuse_control.per_ip_max_connections'', 2), (''abuse_control.fallback_max_active'', 1),
                       (''abuse_control.auth_fail_max'', 2)],
     pt_children := map_of [(''password'', [\<lparr>ch_key = '''', ch_text = ''p'', ch_u16 = None\<rparr>])]\<rparr>"

definition sample_config :: Config where
  "sample_config = (case populate Inr sample_tree of Inr c \<Rightarrow> c)"

definition no_json :: "string \<Rightarrow> ptree option" where
  "no_json s = None"

definition sample_env :: "ServiceState session_env" where
  "sample_env = server_env sample_config None '''' no_json None"

definition sample_endpoint :: "string \<Rightarrow> u16 \<Rightarrow> endpoint" where
  "sample_endpoint ip p = \<lparr>ep_address = \<lparr>ia_is_v4 = True, ia_bytes = [CHR 0x0A, CHR 0x00, CHR 0x00, CHR 0x01],
     ia_text = ip\<rparr>, ep_port = p\<rparr>"

text \<open>A request of that client: connect to \<open>h:443\<close>, then the bytes \<open>hi\<close>.\<close>

definition sample_request :: string where
  "sample_request = trojan_generate ''70'' ''h'' 443 True @ ''hi''"

definition sample_peer :: endpoint where
  "sample_peer = sample_endpoint ''10.0.0.1'' 5000"

definition relay_actions :: "action list" where
  "relay_actions = [Complete 0 Done, Run 0 True,
     Complete 0 (Received sample_request), Run 0 True,
     Complete 0 (Resolved [sample_endpoint ''10.0.0.9'' 443]), Run 0 True,
     Complete 0 Done, Run 0 True,
     Out_bytes 2, Complete 1 Done, Run 1 True,
     Complete 0 (Received ''ok''), Run 0 True, In_bytes 1]"

section \<open>Evaluating runs\<close>

lemma sample_config_simps [simp]:
  "run_type sample_config = SERVER" "password sample_config = [(''70'', ''p'')]"
  "remote_addr sample_config = ''web''" "remote_port sample_config = 80"
  "ssl_alpn_port_override (ssl sample_config) = []"
  "tcp_prefer_ipv4 (tcp sample_config) = False"
  "ef_enabled (external_front sample_config) = False"
  "ef_inject_test_metadata (external_front sample_config) = False"
  "ef_enable_trusted_internal_handoff_stub (external_front sample_config) = False"
  "ef_trusted_front_listener_use_mtls (external_front sample_config) = False"
  "ef_require_trusted_front_loopback_source (external_front sample_config) = True"
  "abuse_control sample_config = \<lparr>ac_enabled = True, ac_per_ip_max_connections = 2, ac_auth_fail_window_seconds = 60,
     ac_auth_fail_max = 2, ac_cooldown_seconds = 60, ac_fallback_max_active = 1\<rparr>"
  by code_simp+

lemma sample_env_simps [simp]:
  "se_config sample_env = sample_config" "se_auth sample_env = None" "se_plain_http_response sample_env = ''''"
  "cb_record_auth_success (se_admission sample_env) = Some svc_record_auth_success"
  "cb_record_auth_failure (se_admission sample_env) = Some svc_record_auth_failure"
  "cb_acquire_fallback_slot (se_admission sample_env) = Some (svc_record_fallback_connection sample_config)"
  "cb_release_connection_slot (se_lifecycle sample_env) = Some svc_release_connection_slot"
  "cb_release_fallback_slot (se_lifecycle sample_env) = Some svc_release_fallback_slot"
  "se_read_json sample_env = no_json" "se_alpn sample_env = None"
  by (simp_all add: sample_env_def server_env_def)

lemma sample_request_bytes: "sample_request = [CHR ''7'', CHR ''0'', CHR 0x0D, CHR 0x0A, CHR 0x01, CHR 0x03, CHR 0x01,
  CHR ''h'', CHR 0x01, CHR 0xBB, CHR 0x0D, CHR 0x0A, CHR ''h'', CHR ''i'']"
  by code_simp

lemma sample_request_length [simp]: "length sample_request = 14" "sample_request \<noteq> []"
  by (simp_all add: sample_request_bytes)

lemma sample_gate: 
  "gate_evaluate sample_config None (tls_build_gate_input ep None sample_request) = Inr \<lparr>sd_path = AUTHENTICATED_TCP, 
     valid_trojan_request = True, authenticated = True, used_external_authenticator = False,
     sd_request = \<lparr>req_password = ''70'', req_command = CONNECT_cmd, req_address = \<lparr>address_type = DOMAINNAME, address = ''h'', port = 443\<rparr>, req_payload = ''hi''\<rparr>,
     sd_target = \<lparr>ct_host = ''h'', ct_port = 443, ct_is_fallback = False\<rparr>, outbound_payload = ''hi'', auth_record_password = ''''\<rparr>"
proof -
  have "trojan_parse blank_request sample_request = Inr (\<lparr>req_password = ''70'', req_command = CONNECT_cmd, req_address = \<lparr>address_type = DOMAINNAME, address = ''h'', port = 443\<rparr>, req_payload = ''hi''\<rparr>, 14)"
    by code_simp
  then show ?thesis by (simp add: gate_evaluate_def tls_build_gate_input_def Let_def)
qed

lemmas run_defs = session_run_def start_def handshake_done_def in_async_read_def out_async_read_def
  in_async_write_buffer_def out_async_write_buffer_def start_op_def remove_nth_def
  in_recv_def handle_handshake_payload_def select_ingress_def selector_evaluate_def select_default_def
  tls_evaluate_initial_data_def apply_auth_result_def call0_def execute_plan_def connect_outbound_def begin_tcp_relay_def
  tcp_resolved_def choose_endpoint_def tcp_connected_def out_sent_def in_sent_def out_recv_def grow_after_read_def
  build_execution_plan_def

text \<open>The run of \<^const>\<open>relay_actions\<close>: the session relays, the target has the first bytes of the request
  and the client half of the answer.\<close>

lemma new_session_fresh: "fresh_session new_session"
proof -
  have "new_session = new_session\<lparr>bootstrap_mode := StandardTls, external_front_handoff := None\<rparr>"
    by (simp add: new_session_def)
  then show ?thesis unfolding fresh_session_def by blast
qed

lemma resolve_run:
  obtains s tr where "session_history sample_env new_session s tr [sample_request]"
    "pending s = [(Tcp_resolve \<lparr>ct_host = ''h'', ct_port = 443, ct_is_fallback = False\<rparr>, None)]"
proof -
  obtain s1 w1 where st: "start sample_env (Some sample_peer) (new_session, new_service sample_config 1) = (s1, w1)" by fastforce
  have "\<exists>s w tr. session_run sample_env new_session (Some sample_peer) (new_service sample_config 1) (take 4 relay_actions) =
     Some (s, w, tr) \<and> pending s = [(Tcp_resolve \<lparr>ct_host = ''h'', ct_port = 443, ct_is_fallback = False\<rparr>, None)]"
    by (simp add: relay_actions_def run_defs sample_gate new_session_def DEFAULT_BUFFER_SIZE_def empty_trace_def Let_def)
  moreover have "acts_chunks sample_env (take 4 relay_actions) (s1, w1, empty_trace) = [sample_request]"
    using st by (auto simp: relay_actions_def run_defs sample_gate new_session_def DEFAULT_BUFFER_SIZE_def empty_trace_def Let_def)
  ultimately show thesis using session_run_history [OF _ st] that by metis
qed

lemma relay_run:
  "\<exists>s w tr. session_run sample_env new_session (Some sample_peer) (new_service sample_config 1) relay_actions =
     Some (s, w, tr) \<and> status s = FORWARD_TCP \<and> tr_out_wire tr = ''hi'' \<and> tr_in_wire tr = ''o'' \<and> tr_down tr = ''ok'' \<and>
     pending s = [(In_read, None), (In_write, None)]"
  by (simp add: relay_actions_def run_defs sample_gate new_session_def DEFAULT_BUFFER_SIZE_def empty_trace_def Let_def)

lemma relay_reachable:
  obtains s tr where "server_reachable sample_env s tr" "status s = FORWARD_TCP" "tr_out_wire tr = ''hi''"
    "tr_in_wire tr = ''o''" "tr_down tr = ''ok''" "pending s = [(In_read, None), (In_write, None)]"
proof -
  from relay_run obtain s w tr where
    r: "session_run sample_env new_session (Some sample_peer) (new_service sample_config 1) relay_actions = Some (s, w, tr)"
      "status s = FORWARD_TCP" "tr_out_wire tr = ''hi''" "tr_in_wire tr = ''o''" "tr_down tr = ''ok''"
      "pending s = [(In_read, None), (In_write, None)]"
    by blast
  show thesis by (rule that [OF session_run_reachable [OF r(1) new_session_fresh] r(2-)])
qed

section \<open>Runs of the sample server\<close>

definition accept_from :: "endpoint \<Rightarrow> server_action" where
  "accept_from ep = Accept None (Some ep) Accept_ok (Some ep) False"

lemma sample_peer_ip [simp]: "ep_ip sample_peer = ''10.0.0.1''"
  by (simp add: sample_peer_def sample_endpoint_def)

lemma sample_accepting [simp]: "accepting rj sample_config False = new_session"
  by (simp add: accepting_def create_server_session_def maybe_build_external_front_handoff_def stub_evaluate_def
      stub_active_def evaluate_injection_def metadata_active_def maybe_apply_external_front_handoff_def Let_def)

lemmas admission_run_defs = handle_accept_completion_def evaluate_incoming_connection_def is_ip_in_cooldown_def
  try_acquire_connection_slot_def stats_at_def put_stats_def fresh_stats_def new_abuse_controller_def
  new_service_def system_start_def accept_from_def start_def start_op_def Let_def slots_in_use_def

text \<open>Three connections of one address, two of which are admitted.\<close>

lemma three_accepts:
  "\<exists>sy. server_acts sample_config None '''' no_json True (replicate 3 (accept_from sample_peer))
      (system_start sample_config 1) = Some sy \<and>
    length (sy_sessions sy) = 2 \<and> slots_in_use (sv_abuse (sy_service sy)) ''10.0.0.1'' = 2"
  by (simp add: numeral_3_eq_3 admission_run_defs new_session_def)

text \<open>A prober: the session takes the only fallback slot.\<close>

definition probe_actions :: "server_action list" where
  "probe_actions = accept_from sample_peer #
     map (Session 0) [Complete 0 Done, Run 0 True, Complete 0 (Received ''GET /''), Run 0 True]"

definition probe_decision :: SessionDecision where
  "probe_decision = \<lparr>sd_path = FALLBACK, valid_trojan_request = False, authenticated = False,
     used_external_authenticator = False, sd_request = blank_request,
     sd_target = \<lparr>ct_host = ''web'', ct_port = 80, ct_is_fallback = True\<rparr>, outbound_payload = ''GET /'',
     auth_record_password = ''''\<rparr>"

lemma probe_gate:
  "gate_evaluate sample_config None (tls_build_gate_input ep None ''GET /'') = Inr probe_decision"
proof -
  have "trojan_parse blank_request ''GET /'' = Inr (blank_request, -1)" by code_simp
  then show ?thesis
    by (simp add: gate_evaluate_def tls_build_gate_input_def tls_build_context_def Let_def probe_decision_def)
qed

lemma sample_server_env: "server_env sample_config None '''' no_json None = sample_env"
  by (simp add: sample_env_def)

lemmas fallback_run_defs = try_acquire_fallback_slot_def svc_record_fallback_connection_def try_acquire_slot_def
  fallback_budget_def zero_metrics_def

lemma probe_run:
  "\<exists>sy. server_acts sample_config None '''' no_json True probe_actions (system_start sample_config 1) = Some sy \<and>
    length (filter (\<lambda>(alpn, s, tr). fallback_slot_acquired s) (sy_sessions sy)) = 1"
  by (simp add: probe_actions_def probe_gate probe_decision_def sample_server_env admission_run_defs run_defs
      fallback_run_defs new_session_def DEFAULT_BUFFER_SIZE_def empty_trace_def)

text \<open>The exchange by which one of two threads is granted the slot.\<close>

lemma granted_step:
  "\<exists>s s'. fb_reachable (abuse_control sample_config) 2 s \<and> fb_at s 0 (Acq_loop 0) \<and>
     fb_step (abuse_control sample_config) s s' \<and> fb_at s' 0 Acq_granted"
proof -
  let ?cfg = "abuse_control sample_config"
  let ?s0 = "fb_start 2" let ?s1 = "fb_goto 0 Acq_begin ?s0" let ?s2 = "fb_goto 0 (Acq_loop 0) ?s1"
  have zero: "fb_active ?s2 = 0" and len: "length (fb_threads ?s2) = 2" by (simp_all add: fb_start_def zero_metrics_def)
  have "fb_step ?cfg ?s0 ?s1" by (rule call_acquire) (simp add: fb_at_def fb_start_def)
  moreover have "fb_step ?cfg ?s1 ?s2"
    by (rule load_acquire) (simp_all add: fb_at_def fb_start_def limits_fallback_def)
  ultimately have "fb_reachable ?cfg 2 ?s2" unfolding fb_reachable_def
    by (metis (no_types) rtranclp.rtrancl_into_rtrancl rtranclp.rtrancl_refl)
  moreover have "fb_at ?s2 0 (Acq_loop 0)" by (simp add: fb_at_def fb_start_def)
  moreover have "fb_step ?cfg ?s2 (fb_goto 0 Acq_granted
      (?s2\<lparr>fb_metrics := (fb_metrics ?s2)\<lparr>active_fallback_sessions := 0 + 1\<rparr>\<rparr>))" (is "fb_step _ _ ?s3")
    by (rule exchange_acquire) (use zero len in \<open>simp_all add: fb_at_def fb_start_def fallback_budget_def\<close>)
  moreover have "fb_at ?s3 0 Acq_granted" using len by (simp add: fb_at_def)
  ultimately show ?thesis by blast
qed

lemma granted_run: "\<exists>s. fb_reachable (abuse_control sample_config) 2 s \<and> fb_at s 0 Acq_granted"
  using granted_step unfolding fb_reachable_def by (metis (no_types) rtranclp.rtrancl_into_rtrancl)

section \<open>A front\<close>

text \<open>A JSON reader that reads one envelope.\<close>

definition front_json :: "string \<Rightarrow> ptree option" where
  "front_json s = (if s = ''{}'' then Some (empty_tree\<lparr>
     pt_string := map_of [(''source_name'', ''front''), (''trusted_front_id'', ''f1''), (''original_client_ip'', ''192.0.2.7'')],
     pt_bool := map_of [(''tls_terminated_by_front'', True), (''metadata_verified'', True)]\<rparr>) else None)"

lemma front_line: "length_line ''2'' (length ''{}'')"
  by (simp add: length_line_def is_digit_def digits_value_def)

lemma front_built: "ingress_handoff front_json ''{}'' \<noteq> None"
  by code_simp

lemma front_parsed:
  "ingress_parsed (parse_ingress front_json (ingress_frame ''2'' ''{}'' ''x''))"
  "downstream_payload (parse_ingress front_json (ingress_frame ''2'' ''{}'' ''x'')) = ''x''"
  using front_built parse_ingress_complete [OF front_line, of "''x''" front_json] by (auto simp: ingress_parsed_def)

section \<open>Unexpected runs\<close>

text \<open>A UDP session whose second frame is being resolved when its UDP socket fails: the queued result
  of the resolver is handled after the session has ended.\<close>

definition udp_payload :: string where
  "udp_payload = concat (replicate 2 (udp_generate_domain ''d'' 53 ''q''))"

definition udp_request :: string where
  "udp_request = trojan_generate ''70'' ''h'' 443 False @ udp_payload"

definition udp_decision :: SessionDecision where
  "udp_decision = \<lparr>sd_path = AUTHENTICATED_UDP,
     valid_trojan_request = True, authenticated = True, used_external_authenticator = False,
     sd_request = \<lparr>req_password = ''70'', req_command = UDP_ASSOCIATE,
       req_address = \<lparr>address_type = DOMAINNAME, address = ''h'', port = 443\<rparr>, req_payload = udp_payload\<rparr>,
     sd_target = \<lparr>ct_host = ''h'', ct_port = 443, ct_is_fallback = False\<rparr>, outbound_payload = udp_payload,
     auth_record_password = ''''\<rparr>"

lemma udp_gate:
  "gate_evaluate sample_config None (tls_build_gate_input ep None udp_request) = Inr udp_decision"
proof -
  have "trojan_parse blank_request udp_request = Inr (sd_request udp_decision, 32)" by code_simp
  then show ?thesis by (simp add: gate_evaluate_def tls_build_gate_input_def Let_def udp_decision_def)
qed

lemma udp_frames:
  "udp_decode udp_payload = Some (\<lparr>pkt_address = \<lparr>address_type = DOMAINNAME, address = ''d'', port = 53\<rparr>,
     pkt_length = 1, pkt_payload = ''q''\<rparr>, 10)"
  "udp_decode (drop 10 udp_payload) = Some (\<lparr>pkt_address = \<lparr>address_type = DOMAINNAME, address = ''d'', port = 53\<rparr>,
     pkt_length = 1, pkt_payload = ''q''\<rparr>, 10)"
  by code_simp+

lemma udp_request_length [simp]: "length udp_request = 32" "udp_request \<noteq> []"
  by code_simp+

lemmas udp_run_defs = start_udp_forward_def udp_sent_def try_parse_udp_packet_def udp_resolved_def dispatch_udp_payload_def
  ensure_udp_socket_open_def udp_async_read_def udp_async_write_def udp_frames

lemmas destroy_run_defs = destroy_def release_slots_def record_usage_def shutdown_inbound_tls_def close_outbound_sockets_def
  cancel_runtime_io_def cancel_io_def abort_on_def abort_set_def

definition stale_actions :: "action list" where
  "stale_actions = [Complete 0 Done, Run 0 True,
     Complete 0 (Received udp_request), Run 0 True,
     Complete 0 (Resolved [sample_endpoint ''10.0.0.9'' 53]), Run 0 True,
     Complete 1 Done, Run 1 True,
     Complete 1 (Resolved [sample_endpoint ''10.0.0.9'' 53]),
     Complete 0 (Failed ''reset''), Run 0 True, Run 0 True]"

lemma stale_run:
  "\<exists>s w tr. session_run sample_env new_session (Some sample_peer) (new_service sample_config 1) stale_actions =
     Some (s, w, tr) \<and> status s = DESTROY \<and> udp_open s \<and> (Udp_read, None) \<in> set (pending s)"
  by (simp add: stale_actions_def run_defs udp_run_defs udp_gate udp_decision_def destroy_run_defs new_session_def
      DEFAULT_BUFFER_SIZE_def empty_trace_def Let_def)

text \<open>A server with a listener for the trusted front: a front connects from the address of a public client, and
  disconnects.\<close>

definition front_config :: Config where
  "front_config = sample_config\<lparr>external_front := (external_front sample_config)\<lparr>ef_enabled := True,
     ef_enable_trusted_front_listener := True\<rparr>\<rparr>"

definition loopback_peer :: endpoint where
  "loopback_peer = \<lparr>ep_address = \<lparr>ia_is_v4 = True, ia_bytes = [CHR 0x7F, CHR 0x00, CHR 0x00, CHR 0x01],
     ia_text = ''127.0.0.1''\<rparr>, ep_port = 9\<rparr>"

definition front_actions :: "server_action list" where
  "front_actions = [accept_from loopback_peer, Accept None (Some loopback_peer) Accept_ok (Some loopback_peer) True]"

definition front_ends :: "server_action list" where
  "front_ends = [Session 1 (Complete 0 (Failed ''reset'')), Session 1 (Run 0 True)]"

lemma front_config_simps [simp]:
  "run_type front_config = SERVER" "abuse_control front_config = abuse_control sample_config"
  "ef_require_trusted_front_loopback_source (external_front front_config) = True"
  "accepting no_json front_config True = new_session\<lparr>bootstrap_mode := TrustedFrontIngress\<rparr>"
  "trusted_front_listening front_config"
proof -
  show "accepting no_json front_config True = new_session\<lparr>bootstrap_mode := TrustedFrontIngress\<rparr>"
    by (simp add: accepting_def create_trusted_front_server_session_def enable_trusted_front_ingress_mode_def front_config_def)
qed (simp_all add: front_config_def trusted_front_listening_def)

lemma front_config_public [simp]: "accepting no_json front_config False = new_session"
proof -
  have "maybe_build_external_front_handoff no_json front_config = None" by code_simp
  then show ?thesis by (simp add: accepting_def create_server_session_def maybe_apply_external_front_handoff_def)
qed

lemma front_env_simps [simp]:
  "se_lifecycle (server_env front_config None '''' no_json None) = se_lifecycle sample_env"
  "se_auth (server_env front_config None '''' no_json None) = None"
  by (simp_all add: sample_env_def server_env_def)

lemmas front_run_defs = evaluate_trusted_front_admission_def admission_decision_def admission_allowed_def is_loopback_def
  loopback_peer_def trusted_front_ingress_async_read_def svc_release_connection_slot_def release_connection_slot_def

text \<open>The number of slots taken is that of the public client while both are connected, and none once the
  front has gone, although nothing has happened to the client.\<close>

lemma front_run:
  "\<exists>sy sy' s tr f ftr f' ftr'. server_acts front_config None '''' no_json False front_actions (system_start front_config 1) = Some sy \<and>
    sy_sessions sy = [(None, s, tr), (None, f, ftr)] \<and> status s = HANDSHAKE \<and> connection_slot_acquired s \<and>
    ep_ip (in_endpoint s) = ''127.0.0.1'' \<and> bootstrap_mode f = TrustedFrontIngress \<and> status f = HANDSHAKE \<and>
    slots_in_use (sv_abuse (sy_service sy)) ''127.0.0.1'' = 1 \<and>
    server_acts front_config None '''' no_json False front_ends sy = Some sy' \<and>
    sy_sessions sy' = [(None, s, tr), (None, f', ftr')] \<and> status f' = DESTROY \<and>
    slots_in_use (sv_abuse (sy_service sy')) ''127.0.0.1'' = 0"
  by (simp add: front_actions_def front_ends_def admission_run_defs run_defs front_run_defs destroy_run_defs
      close_in_socket_def new_session_def empty_trace_def zero_metrics_def)

text \<open>A client that is gone when its session looks for it.\<close>

definition gone_actions :: "server_action list" where
  "gone_actions = [Accept None None Accept_ok (Some sample_peer) False]"

lemma gone_run:
  "\<exists>sy. server_acts sample_config None '''' no_json False gone_actions (system_start sample_config 1) = Some sy \<and>
    slots_in_use (sv_abuse (sy_service sy)) ''10.0.0.1'' = 1 \<and> active_sessions (sv_metrics (sy_service sy)) = 1 \<and>
    (\<exists>s tr. sy_sessions sy = [(None, s, tr)] \<and> status s = DESTROY)"
  by (simp add: gone_actions_def sample_server_env admission_run_defs run_defs destroy_run_defs
      new_session_def empty_trace_def zero_metrics_def)

end
