(* ===== verification/Tunnel.thy ===== *)
theory Tunnel
  imports Session_Runtime Trojan_Request Asio
begin

text \<open>
  What the sessions of the client side share (\<open>src/session/{clientsession,forwardsession,natsession,
  udpforwardsession}.cpp\<close>): the asynchronous operations of a session that carries a local
  connection, or local datagrams, through a TLS tunnel to a trojan server.

  As for the server session, an operation is in flight (\<open>None\<close>) or complete and queued; the
  cancellation of an I/O object gives what is in flight on it the completion \<open>Aborted\<close> and
  leaves queued completions alone.  TLS options, session reuse and log lines are left out;
  socket options are taken to be set without an exception.
\<close>

section \<open>Operations\<close>

datatype tun_object = Client_socket | Proxy_socket | Relay_socket | Proxy_resolver | Close_timer | Gc_timer

datatype tun_op =
    Client_read
  | Client_write
  | Tunnel_read
  | Tunnel_write
  | Relay_read
  | Relay_write endpoint
  | Proxy_resolve
  | Proxy_connect endpoint
  | Proxy_handshake
  | Proxy_shutdown
  | Close_wait
  | Gc_wait

fun tun_object_of :: "tun_op \<Rightarrow> tun_object" where
  "tun_object_of Client_read = Client_socket"
| "tun_object_of Client_write = Client_socket"
| "tun_object_of Tunnel_read = Proxy_socket"
| "tun_object_of Tunnel_write = Proxy_socket"
| "tun_object_of Relay_read = Relay_socket"
| "tun_object_of (Relay_write ep) = Relay_socket"
| "tun_object_of Proxy_resolve = Proxy_resolver"
| "tun_object_of (Proxy_connect ep) = Proxy_socket"
| "tun_object_of Proxy_handshake = Proxy_socket"
| "tun_object_of Proxy_shutdown = Proxy_socket"
| "tun_object_of Close_wait = Close_timer"
| "tun_object_of Gc_wait = Gc_timer"

type_synonym tun_ops = "(tun_op \<times> completion option) list"

definition begin_op :: "tun_op \<Rightarrow> tun_ops \<Rightarrow> tun_ops" where
  "begin_op op ps = ps @ [(op, None)]"

definition abort_op :: "tun_object \<Rightarrow> tun_op \<times> completion option \<Rightarrow> tun_op \<times> completion option" where
  "abort_op obj p = (if tun_object_of (fst p) = obj \<and> snd p = None then (fst p, Some Aborted) else p)"

definition abort_ops :: "tun_object \<Rightarrow> tun_ops \<Rightarrow> tun_ops" where
  "abort_ops obj ps = map (abort_op obj) ps"

text \<open>The password hash a client authenticates with: \<open>config.password.cbegin()->first\<close>, which is
  undefined for a configuration without a password.\<close>

definition first_password :: "Config \<Rightarrow> string cxx" where
  "first_password cfg = (case password cfg of [] \<Rightarrow> Inl Undefined_behaviour | (h, pw) # rest \<Rightarrow> Inr h)"

text \<open>The completions the operating system may report, from the sizes of the read buffers and whether
  the writes in flight have been taken whole.  A timer ends by expiring or by cancellation.\<close>

fun tun_admissible :: "nat \<Rightarrow> nat \<Rightarrow> nat \<Rightarrow> bool \<Rightarrow> bool \<Rightarrow> tun_op \<Rightarrow> completion \<Rightarrow> bool" where
  "tun_admissible inr outr udpr inw outw op Aborted = False"
| "tun_admissible inr outr udpr inw outw op (Failed m) = (op \<noteq> Gc_wait \<and> op \<noteq> Close_wait)"
| "tun_admissible inr outr udpr inw outw Client_read (Received d) = (d \<noteq> [] \<and> length d \<le> inr)"
| "tun_admissible inr outr udpr inw outw Tunnel_read (Received d) = (d \<noteq> [] \<and> length d \<le> outr)"
| "tun_admissible inr outr udpr inw outw Relay_read (Datagram d ep) = (length d \<le> udpr)"
| "tun_admissible inr outr udpr inw outw Client_write Done = inw"
| "tun_admissible inr outr udpr inw outw Tunnel_write Done = outw"
| "tun_admissible inr outr udpr inw outw (Relay_write ep) Done = True"
| "tun_admissible inr outr udpr inw outw Proxy_resolve (Resolved es) = True"
| "tun_admissible inr outr udpr inw outw (Proxy_connect ep) Done = True"
| "tun_admissible inr outr udpr inw outw Proxy_handshake Done = True"
| "tun_admissible inr outr udpr inw outw Proxy_shutdown Done = True"
| "tun_admissible inr outr udpr inw outw Close_wait Done = True"
| "tun_admissible inr outr udpr inw outw Gc_wait Done = True"
| "tun_admissible inr outr udpr inw outw op c = False"

section \<open>Filtering operations\<close>

lemma filter_begin_op [simp]:
  "filter (\<lambda>p. P (fst p)) (begin_op op ps) = filter (\<lambda>p. P (fst p)) ps @ (if P op then [(op, None)] else [])"
  by (simp add: begin_op_def)

lemma fst_abort_op [simp]: "fst (abort_op obj p) = fst p"
  by (simp add: abort_op_def)

lemma filter_abort_ops [simp]:
  "filter (\<lambda>p. P (fst p)) (abort_ops obj ps) = map (abort_op obj) (filter (\<lambda>p. P (fst p)) ps)"
  by (simp add: abort_ops_def filter_map comp_def)

lemma abort_op_simps [simp]:
  "abort_op obj (op, Some c) = (op, Some c)"
  "abort_op obj (op, None) = (op, if tun_object_of op = obj then Some Aborted else None)"
  by (auto simp: abort_op_def)

text \<open>Removing an operation from the list, or completing it, seen through a filter.\<close>

lemma remove_single:
  assumes "i < length xs" and "length (filter P xs) \<le> 1" and "P (xs ! i)"
  shows "filter P xs = [xs ! i]" and "filter P (remove_nth i xs) = []"
proof -
  have "filter P xs \<noteq> []" using assms(1,3) by (auto simp: filter_empty_conv)
  then obtain x where x: "filter P xs = [x]" using assms(2) by (cases "filter P xs") auto
  from remove_nth_filter(2) [where P = P, OF assms(1,3) x] x show "filter P xs = [xs ! i]" "filter P (remove_nth i xs) = []" by auto
qed

section \<open>Operations by kind\<close>

definition is_connecting :: "tun_op \<Rightarrow> bool" where
  "is_connecting op \<longleftrightarrow> op = Proxy_resolve \<or> op = Proxy_handshake \<or> (\<exists>ep. op = Proxy_connect ep)"

definition delivers :: "completion option \<Rightarrow> bool" where
  "delivers c \<longleftrightarrow> c = None \<or> (\<exists>d. c = Some (Received d))"

text \<open>Reads that have brought or may bring client data; writes into the tunnel; operations of the
  direction to the client; operations that establish the tunnel.\<close>

definition live_reads :: "tun_ops \<Rightarrow> tun_ops" where
  "live_reads ps = filter (\<lambda>p. fst p = Client_read \<and> delivers (snd p)) ps"

definition tun_writes :: "tun_ops \<Rightarrow> tun_ops" where
  "tun_writes ps = filter (\<lambda>p. fst p = Tunnel_write) ps"

definition tun_downs :: "tun_ops \<Rightarrow> tun_ops" where
  "tun_downs ps = filter (\<lambda>p. fst p = Tunnel_read \<or> fst p = Client_write) ps"

definition connecting :: "tun_ops \<Rightarrow> tun_ops" where
  "connecting ps = filter (\<lambda>p. is_connecting (fst p)) ps"

definition tun_closers :: "tun_ops \<Rightarrow> tun_ops" where
  "tun_closers ps = filter (\<lambda>p. fst p = Proxy_shutdown \<or> fst p = Close_wait) ps"

lemmas tun_lists = live_reads_def tun_writes_def tun_downs_def connecting_def tun_closers_def

lemma delivers_simps [simp]: "delivers None" "delivers (Some (Received d))" "\<not> delivers (Some Aborted)" "\<not> delivers (Some (Failed m))"
  by (simp_all add: delivers_def)

lemma is_connecting_simps [simp]:
  "is_connecting Proxy_resolve" "is_connecting Proxy_handshake" "is_connecting (Proxy_connect ep)"
  "\<not> is_connecting Client_read" "\<not> is_connecting Client_write" "\<not> is_connecting Tunnel_read"
  "\<not> is_connecting Tunnel_write" "\<not> is_connecting Proxy_shutdown" "\<not> is_connecting Close_wait"
  "\<not> is_connecting Gc_wait" "\<not> is_connecting Relay_read" "\<not> is_connecting (Relay_write e')"
  by (simp_all add: is_connecting_def)

lemma tun_lists_begin [simp]:
  "live_reads (begin_op op ps) = live_reads ps @ (if op = Client_read then [(op, None)] else [])"
  "tun_writes (begin_op op ps) = tun_writes ps @ (if op = Tunnel_write then [(op, None)] else [])"
  "tun_downs (begin_op op ps) = tun_downs ps @ (if op = Tunnel_read \<or> op = Client_write then [(op, None)] else [])"
  "connecting (begin_op op ps) = connecting ps @ (if is_connecting op then [(op, None)] else [])"
  "tun_closers (begin_op op ps) = tun_closers ps @ (if op = Proxy_shutdown \<or> op = Close_wait then [(op, None)] else [])"
  by (auto simp: tun_lists begin_op_def)

lemma tun_lists_abort [simp]:
  "tun_writes (abort_ops obj ps) = map (abort_op obj) (tun_writes ps)"
  "tun_downs (abort_ops obj ps) = map (abort_op obj) (tun_downs ps)"
  "connecting (abort_ops obj ps) = map (abort_op obj) (connecting ps)"
  "tun_closers (abort_ops obj ps) = map (abort_op obj) (tun_closers ps)"
  by (simp_all add: tun_lists abort_ops_def filter_map comp_def)

lemma live_reads_abort [simp]:
  "live_reads (abort_ops obj ps) =
     (if obj = Client_socket then filter (\<lambda>p. snd p \<noteq> None) (live_reads ps) else live_reads ps)"
proof (induction ps)
  case (Cons p ps)
  obtain op c where "p = (op, c)" by fastforce
  with Cons show ?case by (cases c) (auto simp: live_reads_def abort_ops_def abort_op_def)
qed (simp add: live_reads_def abort_ops_def)

definition in_flight :: "tun_op \<Rightarrow> tun_ops \<Rightarrow> bool" where
  "in_flight op ps \<longleftrightarrow> (op, None) \<in> set ps"

lemma in_flight_simps [simp]:
  "in_flight op (begin_op op' ps) \<longleftrightarrow> op = op' \<or> in_flight op ps"
  "in_flight op (abort_ops obj ps) \<longleftrightarrow> tun_object_of op \<noteq> obj \<and> in_flight op ps"
  by (auto simp: in_flight_def begin_op_def abort_ops_def abort_op_def image_iff)

lemma in_flight_remove: "in_flight op (remove_nth i ps) \<Longrightarrow> in_flight op ps"
  by (auto simp: in_flight_def remove_nth_def dest: in_set_takeD in_set_dropD)

lemma in_flight_writes: "tun_writes ps = [] \<Longrightarrow> \<not> in_flight Tunnel_write ps"
  by (auto simp: in_flight_def tun_writes_def filter_empty_conv)

definition write_of :: "tun_op \<Rightarrow> tun_ops \<Rightarrow> completion option option" where
  "write_of op ps = (case ps of [(op', c)] \<Rightarrow> if op' = op then Some c else None | _ \<Rightarrow> None)"

text \<open>The lists when an operation completes.\<close>

lemma filter_fst_update:
  assumes "i < length ps" and "ps ! i = (op, x)"
  shows "map fst (filter (\<lambda>p. P (fst p)) (ps[i := (op, y)])) = map fst (filter (\<lambda>p. P (fst p)) ps)"
proof -
  have "map fst (ps[i := (op, y)]) = map fst ps"
    using assms by (metis fst_conv list_update_id map_update)
  then show ?thesis using filter_map [of P fst "ps[i := (op, y)]"] filter_map [of P fst ps] by (simp add: comp_def)
qed

lemma complete_lists:
  assumes "i < length ps" and "ps ! i = (op, None)"
  shows "map fst (tun_writes (ps[i := (op, Some c)])) = map fst (tun_writes ps)"
    and "map fst (tun_downs (ps[i := (op, Some c)])) = map fst (tun_downs ps)"
    and "map fst (connecting (ps[i := (op, Some c)])) = map fst (connecting ps)"
    and "map fst (tun_closers (ps[i := (op, Some c)])) = map fst (tun_closers ps)"
  using filter_fst_update [OF assms, of "\<lambda>op. op = Tunnel_write"] filter_fst_update [OF assms, of "\<lambda>op. op = Tunnel_read \<or> op = Client_write"]
    filter_fst_update [OF assms, of is_connecting] filter_fst_update [OF assms, of "\<lambda>op. op = Proxy_shutdown \<or> op = Close_wait"]
  by (simp_all add: tun_lists)

lemma complete_live_reads:
  assumes "i < length ps" and "ps ! i = (op, None)"
  shows "length (live_reads (ps[i := (op, Some c)])) \<le> length (live_reads ps)"
  using length_filter_update [OF assms(1), of "\<lambda>p. fst p = Client_read \<and> delivers (snd p)" "(op, Some c)"] assms(2)
  by (auto simp: live_reads_def split: if_splits)

lemma complete_in_flight: "in_flight op' (ps[i := (op, Some c)]) \<Longrightarrow> in_flight op' ps"
  by (auto simp: in_flight_def dest!: set_update_subset_insert [THEN subsetD])

lemma complete_write:
  assumes "i < length ps" and "ps ! i = (op, None)" and "length (tun_writes ps) \<le> 1" and "length (tun_downs ps) \<le> 1"
  shows "write_of Tunnel_write (tun_writes (ps[i := (op, Some c)])) =
      (if op = Tunnel_write then Some (Some c) else write_of Tunnel_write (tun_writes ps))"
    and "op = Tunnel_write \<Longrightarrow> write_of Tunnel_write (tun_writes ps) = Some None"
    and "write_of Client_write (tun_downs (ps[i := (op, Some c)])) =
      (if op = Client_write then Some (Some c) else write_of Client_write (tun_downs ps))"
    and "op = Client_write \<Longrightarrow> write_of Client_write (tun_downs ps) = Some None"
proof -
  have s: "filter P ps = [(op, None)] \<and> filter P (ps[i := (op, Some c)]) = [(op, Some c)]"
    if "P (op, None)" "P (op, Some c)" "length (filter P ps) \<le> 1" for P
    using remove_single(1) [OF assms(1) that(3)] update_filter(2) [OF assms(1), of P "(op, Some c)" "(op, None)"] that assms(2)
    by simp
  have n: "filter P (ps[i := (op, Some c)]) = filter P ps" if "\<not> P (op, None)" "\<not> P (op, Some c)" for P
    using update_filter(1) [OF assms(1), of P "(op, Some c)"] that assms(2) by simp
  show "write_of Tunnel_write (tun_writes (ps[i := (op, Some c)])) =
      (if op = Tunnel_write then Some (Some c) else write_of Tunnel_write (tun_writes ps))"
    using s [of "\<lambda>p. fst p = Tunnel_write"] n [of "\<lambda>p. fst p = Tunnel_write"] assms(3)
    by (auto simp: tun_writes_def write_of_def)
  show "op = Tunnel_write \<Longrightarrow> write_of Tunnel_write (tun_writes ps) = Some None"
    using s [of "\<lambda>p. fst p = Tunnel_write"] assms(3) by (auto simp: tun_writes_def write_of_def)
  show "op = Client_write \<Longrightarrow> write_of Client_write (tun_downs ps) = Some None"
    using s [of "\<lambda>p. fst p = Tunnel_read \<or> fst p = Client_write"] assms(4) by (auto simp: tun_downs_def write_of_def)
  show "write_of Client_write (tun_downs (ps[i := (op, Some c)])) =
      (if op = Client_write then Some (Some c) else write_of Client_write (tun_downs ps))"
    using s [of "\<lambda>p. fst p = Tunnel_read \<or> fst p = Client_write"] n [of "\<lambda>p. fst p = Tunnel_read \<or> fst p = Client_write"] assms(4)
    by (cases "op = Tunnel_read") (auto simp: tun_downs_def write_of_def)
qed

text \<open>The lists of operations when one of them is taken out.\<close>

lemma taken_lists:
  assumes "i < length ps" and "ps ! i = (op, Some c)"
  shows "op \<noteq> Tunnel_write \<Longrightarrow> tun_writes (remove_nth i ps) = tun_writes ps"
    and "op \<noteq> Tunnel_read \<Longrightarrow> op \<noteq> Client_write \<Longrightarrow> tun_downs (remove_nth i ps) = tun_downs ps"
    and "\<not> is_connecting op \<Longrightarrow> connecting (remove_nth i ps) = connecting ps"
    and "op \<noteq> Proxy_shutdown \<Longrightarrow> op \<noteq> Close_wait \<Longrightarrow> tun_closers (remove_nth i ps) = tun_closers ps"
    and "op \<noteq> Client_read \<or> \<not> delivers (Some c) \<Longrightarrow> live_reads (remove_nth i ps) = live_reads ps"
  using remove_nth_filter(1) [OF assms(1)] assms(2) by (auto simp: tun_lists)

lemma taken_single:
  assumes "i < length ps" and "ps ! i = (op, Some c)"
  shows "op = Tunnel_write \<Longrightarrow> length (tun_writes ps) \<le> 1 \<Longrightarrow> tun_writes ps = [(op, Some c)] \<and> tun_writes (remove_nth i ps) = []"
    and "op = Tunnel_read \<or> op = Client_write \<Longrightarrow> length (tun_downs ps) \<le> 1 \<Longrightarrow> tun_downs ps = [(op, Some c)] \<and> tun_downs (remove_nth i ps) = []"
    and "is_connecting op \<Longrightarrow> length (connecting ps) \<le> 1 \<Longrightarrow> connecting ps = [(op, Some c)] \<and> connecting (remove_nth i ps) = []"
    and "op = Client_read \<Longrightarrow> delivers (Some c) \<Longrightarrow> length (live_reads ps) \<le> 1 \<Longrightarrow>
      live_reads ps = [(op, Some c)] \<and> live_reads (remove_nth i ps) = []"
    and "op = Proxy_shutdown \<or> op = Close_wait \<Longrightarrow> tun_closers ps \<noteq> []"
proof -
  have s: "filter P ps = [(op, Some c)] \<and> filter P (remove_nth i ps) = []" if "length (filter P ps) \<le> 1" "P (op, Some c)" for P
    using remove_single [OF assms(1) that(1)] that(2) assms(2) by simp
  show "op = Tunnel_write \<Longrightarrow> length (tun_writes ps) \<le> 1 \<Longrightarrow> tun_writes ps = [(op, Some c)] \<and> tun_writes (remove_nth i ps) = []"
    using s unfolding tun_lists by simp
  show "op = Tunnel_read \<or> op = Client_write \<Longrightarrow> length (tun_downs ps) \<le> 1 \<Longrightarrow> tun_downs ps = [(op, Some c)] \<and> tun_downs (remove_nth i ps) = []"
    using s unfolding tun_lists by simp
  show "is_connecting op \<Longrightarrow> length (connecting ps) \<le> 1 \<Longrightarrow> connecting ps = [(op, Some c)] \<and> connecting (remove_nth i ps) = []"
    using s unfolding tun_lists by simp
  show "op = Client_read \<Longrightarrow> delivers (Some c) \<Longrightarrow> length (live_reads ps) \<le> 1 \<Longrightarrow>
      live_reads ps = [(op, Some c)] \<and> live_reads (remove_nth i ps) = []"
    using s unfolding tun_lists by simp
  have "(op, Some c) \<in> set ps" using nth_mem [OF assms(1)] assms(2) by simp
  then show "op = Proxy_shutdown \<or> op = Close_wait \<Longrightarrow> tun_closers ps \<noteq> []"
    by (force simp: tun_closers_def filter_empty_conv)
qed

lemma in_flight_single:
  "in_flight Tunnel_write ps \<Longrightarrow> length (tun_writes ps) \<le> 1 \<Longrightarrow> write_of Tunnel_write (tun_writes ps) = Some None"
  "in_flight Client_write ps \<Longrightarrow> length (tun_downs ps) \<le> 1 \<Longrightarrow> write_of Client_write (tun_downs ps) = Some None"
proof -
  have s: "filter P ps = [(op, None)]" if "(op, None) \<in> set ps" "P (op, None)" "length (filter P ps) \<le> 1" for P op
    using remove_single(1) [of _ ps P] that by (metis in_set_conv_nth)
  show "in_flight Tunnel_write ps \<Longrightarrow> length (tun_writes ps) \<le> 1 \<Longrightarrow> write_of Tunnel_write (tun_writes ps) = Some None"
    using s [of Tunnel_write "\<lambda>p. fst p = Tunnel_write"] by (simp add: in_flight_def tun_writes_def write_of_def)
  show "in_flight Client_write ps \<Longrightarrow> length (tun_downs ps) \<le> 1 \<Longrightarrow> write_of Client_write (tun_downs ps) = Some None"
    using s [of Client_write "\<lambda>p. fst p = Tunnel_read \<or> fst p = Client_write"]
    by (simp add: in_flight_def tun_downs_def write_of_def)
qed

section \<open>Operations of a UDP association\<close>

definition datagrams_in :: "completion option \<Rightarrow> bool" where
  "datagrams_in c \<longleftrightarrow> c = None \<or> (\<exists>d ep. c = Some (Datagram d ep))"

definition is_udp_down :: "tun_op \<Rightarrow> bool" where
  "is_udp_down op \<longleftrightarrow> op = Tunnel_read \<or> (\<exists>ep. op = Relay_write ep)"

text \<open>Receives that have brought or may bring a datagram of the application; operations of the
  direction to the application.\<close>

definition live_relays :: "tun_ops \<Rightarrow> tun_ops" where
  "live_relays ps = filter (\<lambda>p. fst p = Relay_read \<and> datagrams_in (snd p)) ps"

definition udp_downs :: "tun_ops \<Rightarrow> tun_ops" where
  "udp_downs ps = filter (\<lambda>p. is_udp_down (fst p)) ps"

lemma udp_ops_simps [simp]:
  "datagrams_in None" "datagrams_in (Some (Datagram d ep))" "\<not> datagrams_in (Some Aborted)" "\<not> datagrams_in (Some (Failed m))"
  "is_udp_down Tunnel_read" "is_udp_down (Relay_write ep)" "\<not> is_udp_down Client_read" "\<not> is_udp_down Client_write"
  "\<not> is_udp_down Tunnel_write" "\<not> is_udp_down Relay_read" "\<not> is_udp_down Proxy_resolve" "\<not> is_udp_down (Proxy_connect ep)"
  "\<not> is_udp_down Proxy_handshake" "\<not> is_udp_down Proxy_shutdown" "\<not> is_udp_down Close_wait" "\<not> is_udp_down Gc_wait"
  by (simp_all add: datagrams_in_def is_udp_down_def)

lemma udp_lists_begin [simp]:
  "live_relays (begin_op op ps) = live_relays ps @ (if op = Relay_read then [(op, None)] else [])"
  "udp_downs (begin_op op ps) = udp_downs ps @ (if is_udp_down op then [(op, None)] else [])"
  by (auto simp: live_relays_def udp_downs_def begin_op_def)

lemma udp_downs_abort [simp]: "udp_downs (abort_ops obj ps) = map (abort_op obj) (udp_downs ps)"
  by (simp add: udp_downs_def abort_ops_def filter_map comp_def)

lemma live_relays_abort [simp]:
  "live_relays (abort_ops obj ps) = (if obj = Relay_socket then filter (\<lambda>p. snd p \<noteq> None) (live_relays ps) else live_relays ps)"
proof (induction ps)
  case (Cons p ps)
  obtain op c where "p = (op, c)" by fastforce
  with Cons show ?case by (cases c) (auto simp: live_relays_def abort_ops_def abort_op_def)
qed (simp add: live_relays_def abort_ops_def)

lemma complete_live_relays:
  assumes "i < length ps" and "ps ! i = (op, None)"
  shows "length (live_relays (ps[i := (op, Some c)])) \<le> length (live_relays ps)"
  using length_filter_update [OF assms(1), of "\<lambda>p. fst p = Relay_read \<and> datagrams_in (snd p)" "(op, Some c)"] assms(2)
  by (auto simp: live_relays_def split: if_splits)

lemma complete_udp_downs:
  assumes "i < length ps" and "ps ! i = (op, None)" and "length (udp_downs ps) \<le> 1"
  shows "udp_downs (ps[i := (op, Some c)]) = (if is_udp_down op then [(op, Some c)] else udp_downs ps)"
    and "is_udp_down op \<Longrightarrow> udp_downs ps = [(op, None)]"
proof -
  have s: "udp_downs ps = [(op, None)]" if "is_udp_down op"
    using remove_single(1) [OF assms(1), of "\<lambda>p. is_udp_down (fst p)"] assms(2,3) that by (simp add: udp_downs_def)
  show "is_udp_down op \<Longrightarrow> udp_downs ps = [(op, None)]" by (rule s)
  show "udp_downs (ps[i := (op, Some c)]) = (if is_udp_down op then [(op, Some c)] else udp_downs ps)"
    using update_filter [OF assms(1), of "\<lambda>p. is_udp_down (fst p)" "(op, Some c)"] s assms(2) by (auto simp: udp_downs_def)
qed

lemma taken_udp_lists:
  assumes "i < length ps" and "ps ! i = (op, Some c)"
  shows "\<not> is_udp_down op \<Longrightarrow> udp_downs (remove_nth i ps) = udp_downs ps"
    and "op \<noteq> Relay_read \<or> \<not> datagrams_in (Some c) \<Longrightarrow> live_relays (remove_nth i ps) = live_relays ps"
    and "is_udp_down op \<Longrightarrow> length (udp_downs ps) \<le> 1 \<Longrightarrow> udp_downs ps = [(op, Some c)] \<and> udp_downs (remove_nth i ps) = []"
    and "op = Relay_read \<Longrightarrow> datagrams_in (Some c) \<Longrightarrow> length (live_relays ps) \<le> 1 \<Longrightarrow>
      live_relays ps = [(op, Some c)] \<and> live_relays (remove_nth i ps) = []"
proof -
  show "\<not> is_udp_down op \<Longrightarrow> udp_downs (remove_nth i ps) = udp_downs ps"
    "op \<noteq> Relay_read \<or> \<not> datagrams_in (Some c) \<Longrightarrow> live_relays (remove_nth i ps) = live_relays ps"
    using remove_nth_filter(1) [OF assms(1)] assms(2) by (auto simp: udp_downs_def live_relays_def)
  show "is_udp_down op \<Longrightarrow> length (udp_downs ps) \<le> 1 \<Longrightarrow> udp_downs ps = [(op, Some c)] \<and> udp_downs (remove_nth i ps) = []"
    using remove_single [OF assms(1), of "\<lambda>p. is_udp_down (fst p)"] assms(2) by (simp add: udp_downs_def)
  show "op = Relay_read \<Longrightarrow> datagrams_in (Some c) \<Longrightarrow> length (live_relays ps) \<le> 1 \<Longrightarrow>
      live_relays ps = [(op, Some c)] \<and> live_relays (remove_nth i ps) = []"
    using remove_single [OF assms(1), of "\<lambda>p. fst p = Relay_read \<and> datagrams_in (snd p)"] assms(2) by (simp add: live_relays_def)
qed

lemma complete_tunnel_write:
  assumes "i < length ps" and "ps ! i = (op, None)" and "length (tun_writes ps) \<le> 1"
  shows "write_of Tunnel_write (tun_writes (ps[i := (op, Some c)])) =
      (if op = Tunnel_write then Some (Some c) else write_of Tunnel_write (tun_writes ps))"
    and "op = Tunnel_write \<Longrightarrow> write_of Tunnel_write (tun_writes ps) = Some None"
proof -
  have s: "tun_writes ps = [(op, None)]" if "op = Tunnel_write"
    using remove_single(1) [OF assms(1), of "\<lambda>p. fst p = Tunnel_write"] assms(2,3) that by (simp add: tun_writes_def)
  then show "op = Tunnel_write \<Longrightarrow> write_of Tunnel_write (tun_writes ps) = Some None" by (simp add: write_of_def)
  show "write_of Tunnel_write (tun_writes (ps[i := (op, Some c)])) =
      (if op = Tunnel_write then Some (Some c) else write_of Tunnel_write (tun_writes ps))"
  proof (cases "op = Tunnel_write")
    case True
    with update_filter(2) [OF assms(1), of "\<lambda>p. fst p = Tunnel_write" "(op, Some c)" "(op, None)"] s assms(2)
    show ?thesis by (simp add: tun_writes_def write_of_def)
  next
    case False
    with update_filter(1) [OF assms(1), of "\<lambda>p. fst p = Tunnel_write" "(op, Some c)"] assms(2)
    show ?thesis by (simp add: tun_writes_def)
  qed
qed

end
