(* ===== verification/Forward_Session.thy ===== *)
theory Forward_Session
  imports Tunnel
begin

text \<open>
  \<open>src/session/forwardsession.{h,cpp}\<close> and \<open>src/session/natsession.{h,cpp}\<close>: a local TCP connection
  carried to one target through the tunnel.  The two classes differ in where the target
  comes from, the configuration or the original destination of a redirected connection.

  The peer's address serves log lines only and is not kept.
\<close>

section \<open>State\<close>

datatype ForwardStatus = F_CONNECT | F_FORWARD | F_DESTROY

record ForwardSession =
  fs_status :: ForwardStatus
  fs_first_packet_recv :: bool
  fs_in_read_size :: nat
  fs_out_read_size :: nat
  fs_in_write_data :: string
  fs_out_write_data :: string
  fs_recv_len :: u64
  fs_sent_len :: u64
  fs_out_write_buf :: string
  fs_in_open :: bool
  fs_out_open :: bool
  fs_pending :: tun_ops

definition new_forward_session :: ForwardSession where
  "new_forward_session = \<lparr>fs_status = F_CONNECT, fs_first_packet_recv = False,
     fs_in_read_size = DEFAULT_BUFFER_SIZE, fs_out_read_size = DEFAULT_BUFFER_SIZE,
     fs_in_write_data = '''', fs_out_write_data = '''', fs_recv_len = 0, fs_sent_len = 0,
     fs_out_write_buf = '''', fs_in_open = True, fs_out_open = False, fs_pending = []\<rparr>"

definition fs_begin :: "tun_op \<Rightarrow> ForwardSession \<Rightarrow> ForwardSession" where
  "fs_begin op s = s\<lparr>fs_pending := begin_op op (fs_pending s)\<rparr>"

definition fs_cancel :: "tun_object \<Rightarrow> ForwardSession \<Rightarrow> ForwardSession" where
  "fs_cancel obj s = s\<lparr>fs_pending := abort_ops obj (fs_pending s)\<rparr>"

section \<open>\<open>ForwardSession\<close>\<close>

definition fwd_destroy :: "ForwardSession \<Rightarrow> ForwardSession" where
  "fwd_destroy s =
     (if fs_status s = F_DESTROY then s
      else
        (let s = fs_cancel Proxy_resolver (s\<lparr>fs_status := F_DESTROY\<rparr>);
             s = (if fs_in_open s then (fs_cancel Client_socket s)\<lparr>fs_in_open := False\<rparr> else s)
         in if fs_out_open s
            then fs_begin Close_wait (fs_cancel Close_timer (fs_begin Proxy_shutdown (fs_cancel Proxy_socket s)))
            else s))"

definition fwd_shutdown_cb :: "completion \<Rightarrow> ForwardSession \<Rightarrow> ForwardSession" where
  "fwd_shutdown_cb c s =
     (if c = Aborted then s else (fs_cancel Proxy_socket (fs_cancel Close_timer s))\<lparr>fs_out_open := False\<rparr>)"

definition fwd_in_async_write_buffer :: "string \<Rightarrow> ForwardSession \<Rightarrow> ForwardSession" where
  "fwd_in_async_write_buffer data s = fs_begin Client_write (s\<lparr>fs_in_write_data := data\<rparr>)"

definition fwd_out_async_write_buffer :: "string \<Rightarrow> ForwardSession \<Rightarrow> ForwardSession" where
  "fwd_out_async_write_buffer data s = fs_begin Tunnel_write (s\<lparr>fs_out_write_data := data\<rparr>)"

definition fwd_in_recv :: "string \<Rightarrow> ForwardSession \<Rightarrow> ForwardSession" where
  "fwd_in_recv data s =
     (let s = s\<lparr>fs_in_read_size := grow_after_read (fs_in_read_size s) (length data)\<rparr>
      in if fs_status s = F_CONNECT
         then s\<lparr>fs_sent_len := fs_sent_len s + of_nat (length data), fs_first_packet_recv := True,
                fs_out_write_buf := fs_out_write_buf s @ data\<rparr>
         else if fs_status s = F_FORWARD
         then fwd_out_async_write_buffer data (s\<lparr>fs_sent_len := fs_sent_len s + of_nat (length data)\<rparr>)
         else s)"

definition fwd_in_sent :: "ForwardSession \<Rightarrow> ForwardSession" where
  "fwd_in_sent s = (if fs_status s = F_FORWARD then fs_begin Tunnel_read s else s)"

definition fwd_out_recv :: "string \<Rightarrow> ForwardSession \<Rightarrow> ForwardSession" where
  "fwd_out_recv data s =
     (let s = s\<lparr>fs_out_read_size := grow_after_read (fs_out_read_size s) (length data)\<rparr>
      in if fs_status s = F_FORWARD
         then fwd_in_async_write_buffer data (s\<lparr>fs_recv_len := fs_recv_len s + of_nat (length data)\<rparr>)
         else s)"

definition fwd_out_sent :: "ForwardSession \<Rightarrow> ForwardSession" where
  "fwd_out_sent s = (if fs_status s = F_FORWARD then fs_begin Client_read s else s)"

text \<open>The three continuations nested in \<open>start\<close>.\<close>

definition fwd_resolved :: "bool \<Rightarrow> completion \<Rightarrow> ForwardSession \<Rightarrow> ForwardSession" where
  "fwd_resolved open_ok c s =
     (case c of
        Resolved (ep # eps) \<Rightarrow>
          if \<not> open_ok then fwd_destroy s else fs_begin (Proxy_connect ep) (s\<lparr>fs_out_open := True\<rparr>)
      | _ \<Rightarrow> fwd_destroy s)"

definition fwd_connected :: "completion \<Rightarrow> ForwardSession \<Rightarrow> ForwardSession" where
  "fwd_connected c s = (if c = Done then fs_begin Proxy_handshake s else fwd_destroy s)"

definition fwd_established :: "completion \<Rightarrow> ForwardSession \<Rightarrow> ForwardSession" where
  "fwd_established c s =
     (if c = Done
      then (let s = (if \<not> fs_first_packet_recv s then fs_cancel Client_socket s else s);
                s = fs_begin Tunnel_read (s\<lparr>fs_status := F_FORWARD\<rparr>)
            in fwd_out_async_write_buffer (fs_out_write_buf s) s)
      else fwd_destroy s)"

definition fwd_start :: "Config \<Rightarrow> endpoint option \<Rightarrow> ForwardSession \<Rightarrow> ForwardSession cxx" where
  "fwd_start cfg remote s =
     (case remote of
        None \<Rightarrow> Inr (fwd_destroy s)
      | Some ep \<Rightarrow>
          bind_exn (first_password cfg) (\<lambda>pw.
            Inr (fs_begin Proxy_resolve (fs_begin Client_read
              (s\<lparr>fs_out_write_buf := trojan_generate pw (target_addr cfg) (target_port cfg) True\<rparr>)))))"

fun fwd_on_complete :: "bool \<Rightarrow> tun_op \<Rightarrow> completion \<Rightarrow> ForwardSession \<Rightarrow> ForwardSession" where
  "fwd_on_complete ok Client_read c s =
     (case c of Aborted \<Rightarrow> s | Received data \<Rightarrow> fwd_in_recv data s | _ \<Rightarrow> fwd_destroy s)"
| "fwd_on_complete ok Client_write c s = (if c = Done then fwd_in_sent s else fwd_destroy s)"
| "fwd_on_complete ok Tunnel_read c s =
     (case c of Received data \<Rightarrow> fwd_out_recv data s | _ \<Rightarrow> fwd_destroy s)"
| "fwd_on_complete ok Tunnel_write c s = (if c = Done then fwd_out_sent s else fwd_destroy s)"
| "fwd_on_complete ok Proxy_resolve c s = fwd_resolved ok c s"
| "fwd_on_complete ok (Proxy_connect ep) c s = fwd_connected c s"
| "fwd_on_complete ok Proxy_handshake c s = fwd_established c s"
| "fwd_on_complete ok Proxy_shutdown c s = fwd_shutdown_cb c s"
| "fwd_on_complete ok Close_wait c s = fwd_shutdown_cb c s"
| "fwd_on_complete ok op c s = s"

section \<open>\<open>NATSession\<close>\<close>

text \<open>\<open>get_target_endpoint\<close>: the answers of the two \<open>getsockopt\<close> calls are arguments, each the text and the
  port of the address, or \<open>None\<close> for an error.  \<open>enable_nat\<close> is the build option.\<close>

definition get_target_endpoint ::
    "bool \<Rightarrow> (string \<times> u16) option \<Rightarrow> (string \<times> u16) option \<Rightarrow> string \<times> u16" where
  "get_target_endpoint enable_nat dst6 dst4 =
     (if \<not> enable_nat then ('''', 0)
      else case dst6 of
        Some target \<Rightarrow> target
      | None \<Rightarrow> (case dst4 of Some target \<Rightarrow> target | None \<Rightarrow> ('''', 0)))"

definition nat_destroy :: "ForwardSession \<Rightarrow> ForwardSession" where
  "nat_destroy s =
     (if fs_status s = F_DESTROY then s
      else
        (let s = fs_cancel Proxy_resolver (s\<lparr>fs_status := F_DESTROY\<rparr>);
             s = (if fs_in_open s then (fs_cancel Client_socket s)\<lparr>fs_in_open := False\<rparr> else s)
         in if fs_out_open s
            then fs_begin Close_wait (fs_cancel Close_timer (fs_begin Proxy_shutdown (fs_cancel Proxy_socket s)))
            else s))"

definition nat_in_recv :: "string \<Rightarrow> ForwardSession \<Rightarrow> ForwardSession" where
  "nat_in_recv data s =
     (let s = s\<lparr>fs_in_read_size := grow_after_read (fs_in_read_size s) (length data)\<rparr>
      in if fs_status s = F_CONNECT
         then s\<lparr>fs_sent_len := fs_sent_len s + of_nat (length data), fs_first_packet_recv := True,
                fs_out_write_buf := fs_out_write_buf s @ data\<rparr>
         else if fs_status s = F_FORWARD
         then fs_begin Tunnel_write
                (s\<lparr>fs_sent_len := fs_sent_len s + of_nat (length data), fs_out_write_data := data\<rparr>)
         else s)"

definition nat_out_recv :: "string \<Rightarrow> ForwardSession \<Rightarrow> ForwardSession" where
  "nat_out_recv data s =
     (let s = s\<lparr>fs_out_read_size := grow_after_read (fs_out_read_size s) (length data)\<rparr>
      in if fs_status s = F_FORWARD
         then fs_begin Client_write
                (s\<lparr>fs_recv_len := fs_recv_len s + of_nat (length data), fs_in_write_data := data\<rparr>)
         else s)"

definition nat_start ::
    "Config \<Rightarrow> endpoint option \<Rightarrow> string \<times> u16 \<Rightarrow> ForwardSession \<Rightarrow> ForwardSession cxx" where
  "nat_start cfg remote target s =
     (case remote of
        None \<Rightarrow> Inr (nat_destroy s)
      | Some ep \<Rightarrow>
          if snd target = 0 then Inr (nat_destroy s)
          else bind_exn (first_password cfg) (\<lambda>pw.
            Inr (fs_begin Proxy_resolve (fs_begin Client_read
              (s\<lparr>fs_out_write_buf := trojan_generate pw (fst target) (snd target) True\<rparr>)))))"

fun nat_on_complete :: "bool \<Rightarrow> tun_op \<Rightarrow> completion \<Rightarrow> ForwardSession \<Rightarrow> ForwardSession" where
  "nat_on_complete ok Client_read c s =
     (case c of Aborted \<Rightarrow> s | Received data \<Rightarrow> nat_in_recv data s | _ \<Rightarrow> nat_destroy s)"
| "nat_on_complete ok Client_write c s =
     (if c = Done then (if fs_status s = F_FORWARD then fs_begin Tunnel_read s else s) else nat_destroy s)"
| "nat_on_complete ok Tunnel_read c s =
     (case c of Received data \<Rightarrow> nat_out_recv data s | _ \<Rightarrow> nat_destroy s)"
| "nat_on_complete ok Tunnel_write c s =
     (if c = Done then (if fs_status s = F_FORWARD then fs_begin Client_read s else s) else nat_destroy s)"
| "nat_on_complete ok Proxy_resolve c s =
     (case c of
        Resolved (ep # eps) \<Rightarrow>
          if \<not> ok then nat_destroy s else fs_begin (Proxy_connect ep) (s\<lparr>fs_out_open := True\<rparr>)
      | _ \<Rightarrow> nat_destroy s)"
| "nat_on_complete ok (Proxy_connect ep) c s = (if c = Done then fs_begin Proxy_handshake s else nat_destroy s)"
| "nat_on_complete ok Proxy_handshake c s =
     (if c = Done
      then (let s = (if \<not> fs_first_packet_recv s then fs_cancel Client_socket s else s);
                s = fs_begin Tunnel_read (s\<lparr>fs_status := F_FORWARD\<rparr>)
            in fs_begin Tunnel_write (s\<lparr>fs_out_write_data := fs_out_write_buf s\<rparr>))
      else nat_destroy s)"
| "nat_on_complete ok Proxy_shutdown c s =
     (if c = Aborted then s else (fs_cancel Proxy_socket (fs_cancel Close_timer s))\<lparr>fs_out_open := False\<rparr>)"
| "nat_on_complete ok Close_wait c s =
     (if c = Aborted then s else (fs_cancel Proxy_socket (fs_cancel Close_timer s))\<lparr>fs_out_open := False\<rparr>)"
| "nat_on_complete ok op c s = s"

text \<open>The handlers of the two classes are the same.\<close>

lemma nat_destroy_eq: "nat_destroy s = fwd_destroy s"
  by (simp add: nat_destroy_def fwd_destroy_def)

lemma nat_on_complete_eq: "nat_on_complete ok op c s = fwd_on_complete ok op c s"
  by (cases op)
     (auto simp: nat_destroy_eq nat_in_recv_def fwd_in_recv_def nat_out_recv_def fwd_out_recv_def fwd_in_sent_def
       fwd_out_sent_def fwd_resolved_def fwd_connected_def fwd_established_def fwd_shutdown_cb_def
       fwd_in_async_write_buffer_def fwd_out_async_write_buffer_def fs_begin_def fs_cancel_def Let_def
       split: completion.split list.split)

lemma nat_start_eq:
  "snd target \<noteq> 0 \<Longrightarrow>
   nat_start cfg remote target s = fwd_start (cfg\<lparr>target_addr := fst target, target_port := snd target\<rparr>) remote s"
  by (auto simp: nat_start_def fwd_start_def nat_destroy_eq first_password_def split: option.split)

section \<open>Steps\<close>

text \<open>What the observer notes when a handler runs.\<close>

fun fwd_note :: "ForwardSession \<Rightarrow> tun_op \<Rightarrow> completion \<Rightarrow> io_trace \<Rightarrow> io_trace" where
  "fwd_note s Client_read (Received d) tr = (if fs_status s = F_DESTROY then tr else tr\<lparr>tr_up := tr_up tr @ d\<rparr>)"
| "fwd_note s Tunnel_read (Received d) tr = (if fs_status s = F_FORWARD then tr\<lparr>tr_down := tr_down tr @ d\<rparr> else tr)"
| "fwd_note s Client_write c tr = tr\<lparr>tr_in_off := 0\<rparr>"
| "fwd_note s Tunnel_write c tr = tr\<lparr>tr_out_off := 0\<rparr>"
| "fwd_note s op c tr = tr"

text \<open>The order of handlers under which the code keeps its buffers apart: no step of establishing the
  tunnel succeeds after the session has ended, and no client data is waiting in the queue when the
  tunnel is established and the read for it is cancelled.\<close>

definition orderly :: "ForwardSession \<Rightarrow> tun_op \<Rightarrow> completion \<Rightarrow> bool" where
  "orderly s op c \<longleftrightarrow>
     (is_connecting op \<and> fs_status s \<noteq> F_CONNECT \<longrightarrow> c = Aborted \<or> (\<exists>m. c = Failed m)) \<and>
     (op = Proxy_handshake \<and> c = Done \<longrightarrow> list_all (\<lambda>(op, c). op = Client_read \<longrightarrow> (\<forall>d. c \<noteq> Some (Received d))) (fs_pending s))"

inductive fwd_step :: "bool \<Rightarrow> ForwardSession \<times> io_trace \<Rightarrow> ForwardSession \<times> io_trace \<Rightarrow> bool" for ord where
  fwd_ready: "i < length (fs_pending s) \<Longrightarrow> fs_pending s ! i = (op, None) \<Longrightarrow>
     tun_admissible (fs_in_read_size s) (fs_out_read_size s) 0 (tr_in_off tr = length (fs_in_write_data s))
       (tr_out_off tr = length (fs_out_write_data s)) op c \<Longrightarrow>
     fwd_step ord (s, tr) (s\<lparr>fs_pending := (fs_pending s)[i := (op, Some c)]\<rparr>, tr)"
| fwd_in_progress: "(Client_write, None) \<in> set (fs_pending s) \<Longrightarrow> tr_in_off tr + k \<le> length (fs_in_write_data s) \<Longrightarrow>
     fwd_step ord (s, tr)
       (s, tr\<lparr>tr_in_wire := tr_in_wire tr @ take k (drop (tr_in_off tr) (fs_in_write_data s)), tr_in_off := tr_in_off tr + k\<rparr>)"
| fwd_out_progress: "(Tunnel_write, None) \<in> set (fs_pending s) \<Longrightarrow> tr_out_off tr + k \<le> length (fs_out_write_data s) \<Longrightarrow>
     fwd_step ord (s, tr)
       (s, tr\<lparr>tr_out_wire := tr_out_wire tr @ take k (drop (tr_out_off tr) (fs_out_write_data s)), tr_out_off := tr_out_off tr + k\<rparr>)"
| fwd_run: "i < length (fs_pending s) \<Longrightarrow> fs_pending s ! i = (op, Some c) \<Longrightarrow> (ord \<longrightarrow> orderly s op c) \<Longrightarrow>
     fwd_step ord (s, tr)
       (fwd_on_complete ok op c (s\<lparr>fs_pending := remove_nth i (fs_pending s)\<rparr>), fwd_note s op c tr)"

definition fwd_reachable :: "bool \<Rightarrow> Config \<Rightarrow> ForwardSession \<Rightarrow> io_trace \<Rightarrow> bool" where
  "fwd_reachable ord cfg s tr \<longleftrightarrow>
     (\<exists>remote s0. fwd_start cfg remote new_forward_session = Inr s0 \<and> (fwd_step ord)\<^sup>*\<^sup>* (s0, empty_trace) (s, tr))"

section \<open>The bytes of an orderly session\<close>

definition fwd_inv :: "string \<Rightarrow> ForwardSession \<Rightarrow> io_trace \<Rightarrow> bool" where
  "fwd_inv req s tr \<longleftrightarrow>
     (let ps = fs_pending s
      in fs_sent_len s = of_nat (length (tr_up tr)) \<and> fs_recv_len s = of_nat (length (tr_down tr)) \<and>
         (fs_status s \<noteq> F_DESTROY \<longrightarrow> tun_closers ps = []) \<and>
         (case fs_status s of
            F_CONNECT \<Rightarrow> length (connecting ps) = 1 \<and> tun_downs ps = [] \<and> tun_writes ps = [] \<and>
              length (live_reads ps) \<le> (if fs_first_packet_recv s then 0 else 1) \<and>
              fs_out_write_buf s = req @ tr_up tr \<and> fs_in_open s \<and> (\<not> fs_out_open s \<longrightarrow> map fst (connecting ps) = [Proxy_resolve]) \<and>
              tr_out_wire tr = [] \<and> tr_out_off tr = 0 \<and> tr_down tr = [] \<and> tr_in_wire tr = [] \<and> tr_in_off tr = 0
          | F_FORWARD \<Rightarrow> length (tun_downs ps) = 1 \<and> length (tun_writes ps) + length (live_reads ps) \<le> 1 \<and>
              fs_in_open s \<and> fs_out_open s \<and>
              flow (req @ tr_up tr) (tr_out_wire tr) (tr_out_off tr) (fs_out_write_data s) (write_of Tunnel_write (tun_writes ps)) \<and>
              flow (tr_down tr) (tr_in_wire tr) (tr_in_off tr) (fs_in_write_data s) (write_of Client_write (tun_downs ps))
          | F_DESTROY \<Rightarrow> \<not> in_flight Tunnel_write ps \<and> \<not> in_flight Client_write ps \<and>
              is_prefix (tr_out_wire tr) (req @ tr_up tr) \<and> is_prefix (tr_in_wire tr) (tr_down tr)))"

lemma fs_pending_simps [simp]:
  "fs_pending (fs_begin op s) = begin_op op (fs_pending s)"
  "fs_pending (fs_cancel obj s) = abort_ops obj (fs_pending s)"
  by (simp_all add: fs_begin_def fs_cancel_def)

lemma fs_frame [simp]:
  "fs_status (fs_begin op s) = fs_status s" "fs_status (fs_cancel obj s) = fs_status s"
  "fs_first_packet_recv (fs_begin op s) = fs_first_packet_recv s" "fs_first_packet_recv (fs_cancel obj s) = fs_first_packet_recv s"
  "fs_in_write_data (fs_begin op s) = fs_in_write_data s" "fs_in_write_data (fs_cancel obj s) = fs_in_write_data s"
  "fs_out_write_data (fs_begin op s) = fs_out_write_data s" "fs_out_write_data (fs_cancel obj s) = fs_out_write_data s"
  "fs_recv_len (fs_begin op s) = fs_recv_len s" "fs_recv_len (fs_cancel obj s) = fs_recv_len s"
  "fs_sent_len (fs_begin op s) = fs_sent_len s" "fs_sent_len (fs_cancel obj s) = fs_sent_len s"
  "fs_out_write_buf (fs_begin op s) = fs_out_write_buf s" "fs_out_write_buf (fs_cancel obj s) = fs_out_write_buf s"
  "fs_in_open (fs_begin op s) = fs_in_open s" "fs_in_open (fs_cancel obj s) = fs_in_open s"
  "fs_out_open (fs_begin op s) = fs_out_open s" "fs_out_open (fs_cancel obj s) = fs_out_open s"
  by (simp_all add: fs_begin_def fs_cancel_def)

lemma fwd_inv_prefix:
  "fwd_inv req s tr \<Longrightarrow> is_prefix (tr_out_wire tr) (req @ tr_up tr) \<and> is_prefix (tr_in_wire tr) (tr_down tr)"
  by (cases "fs_status s") (auto simp: fwd_inv_def Let_def is_prefix_def dest!: flow_prefix)

subsection \<open>Ending the session\<close>

text \<open>What a state needs so that \<open>destroy\<close> leaves it within the invariant.\<close>

definition fwd_closable :: "string \<Rightarrow> ForwardSession \<Rightarrow> io_trace \<Rightarrow> bool" where
  "fwd_closable req s tr \<longleftrightarrow>
     fs_sent_len s = of_nat (length (tr_up tr)) \<and> fs_recv_len s = of_nat (length (tr_down tr)) \<and>
     is_prefix (tr_out_wire tr) (req @ tr_up tr) \<and> is_prefix (tr_in_wire tr) (tr_down tr) \<and>
     (if fs_status s = F_DESTROY
      then \<not> in_flight Tunnel_write (fs_pending s) \<and> \<not> in_flight Client_write (fs_pending s)
      else fs_in_open s \<and> (in_flight Tunnel_write (fs_pending s) \<longrightarrow> fs_out_open s))"

lemma fwd_inv_closable:
  assumes "fwd_inv req s tr"
  shows "fwd_closable req s tr"
proof (cases "fs_status s")
  case F_CONNECT
  with assms fwd_inv_prefix [OF assms] in_flight_writes [of "fs_pending s"] show ?thesis
    by (simp add: fwd_inv_def fwd_closable_def Let_def)
qed (use assms fwd_inv_prefix [OF assms] in \<open>simp_all add: fwd_inv_def fwd_closable_def Let_def\<close>)

lemma fwd_destroy_inv: "fwd_closable req s tr \<Longrightarrow> fwd_inv req (fwd_destroy s) tr"
  by (auto simp: fwd_closable_def fwd_destroy_def fwd_inv_def Let_def)

lemma fwd_closable_remove: "fwd_closable req s tr \<Longrightarrow> fwd_closable req (s\<lparr>fs_pending := remove_nth i (fs_pending s)\<rparr>) tr"
  by (auto simp: fwd_closable_def dest: in_flight_remove split: if_splits)

subsection \<open>Steps of the environment\<close>

lemma fwd_ready_inv:
  assumes "i < length (fs_pending s)" and "fs_pending s ! i = (op, None)"
    and "tun_admissible (fs_in_read_size s) (fs_out_read_size s) 0 (tr_in_off tr = length (fs_in_write_data s))
       (tr_out_off tr = length (fs_out_write_data s)) op c"
    and "fwd_inv req s tr"
  shows "fwd_inv req (s\<lparr>fs_pending := (fs_pending s)[i := (op, Some c)]\<rparr>) tr"
proof -
  let ?ps = "(fs_pending s)[i := (op, Some c)]"
  note l = complete_lists [OF assms(1,2), of c]
  have len: "length (tun_writes ?ps) = length (tun_writes (fs_pending s))" "length (tun_downs ?ps) = length (tun_downs (fs_pending s))"
    "length (connecting ?ps) = length (connecting (fs_pending s))" "length (tun_closers ?ps) = length (tun_closers (fs_pending s))"
    using l by (metis length_map)+
  note r = complete_live_reads [OF assms(1,2), of c]
  show ?thesis
  proof (cases "fs_status s")
    case F_CONNECT
    with assms(4) len l(3) r show ?thesis by (simp add: fwd_inv_def Let_def)
  next
    case F_DESTROY
    with assms(4) show ?thesis by (auto simp: fwd_inv_def Let_def dest: complete_in_flight)
  next
    case F_FORWARD
    with assms(4) have "length (tun_writes (fs_pending s)) \<le> 1" "length (tun_downs (fs_pending s)) \<le> 1"
      by (auto simp: fwd_inv_def Let_def)
    note w = complete_write(1,3) [OF assms(1,2) this, of c] complete_write(2,4) [OF assms(1,2) this]
    have "tr_out_off tr = length (fs_out_write_data s)" if "op = Tunnel_write" "c = Done" using assms(3) that by simp
    moreover have "tr_in_off tr = length (fs_in_write_data s)" if "op = Client_write" "c = Done" using assms(3) that by simp
    ultimately show ?thesis using F_FORWARD assms(4) len r w
      by (auto simp: fwd_inv_def Let_def flow_def)
  qed
qed

subsection \<open>Running a handler\<close>

lemma fwd_inv_destroyed: "fs_status s = F_DESTROY \<Longrightarrow> fwd_inv req s tr = fwd_closable req s tr"
  by (auto simp: fwd_inv_def fwd_closable_def Let_def)

lemma fwd_note_off:
  "tr_up (fwd_note s op c tr) = tr_up tr \<Longrightarrow> tr_down (fwd_note s op c tr) = tr_down tr \<Longrightarrow>
   fwd_closable req s' (fwd_note s op c tr) = fwd_closable req s' tr"
  by (cases op; cases c) (auto simp: fwd_closable_def split: if_splits)

lemma fwd_note_quiet:
  "op \<noteq> Client_read \<and> op \<noteq> Tunnel_read \<or> (\<forall>d. c \<noteq> Received d) \<or> fs_status s = F_DESTROY \<Longrightarrow>
   tr_up (fwd_note s op c tr) = tr_up tr \<and> tr_down (fwd_note s op c tr) = tr_down tr"
  by (cases op; cases c) auto

lemma fwd_run_destroyed:
  assumes "fs_status s = F_DESTROY" and "orderly s op c" and "fwd_closable req s tr"
  shows "fwd_inv req (fwd_on_complete ok op c (s\<lparr>fs_pending := remove_nth i (fs_pending s)\<rparr>)) (fwd_note s op c tr)"
proof -
  let ?s = "s\<lparr>fs_pending := remove_nth i (fs_pending s)\<rparr>"
  have d: "fwd_destroy ?s = ?s" using assms(1) by (simp add: fwd_destroy_def)
  have cl: "fwd_closable req ?s (fwd_note s op c tr)"
    using fwd_closable_remove [OF assms(3)] fwd_note_off fwd_note_quiet assms(1) by metis
  have "fwd_closable req (fwd_on_complete ok op c ?s) (fwd_note s op c tr) \<and> fs_status (fwd_on_complete ok op c ?s) = F_DESTROY"
  proof (cases op)
    case Client_read
    with cl d assms(1) show ?thesis by (cases c) (auto simp: fwd_in_recv_def Let_def fwd_closable_def)
  next
    case Client_write
    with cl d assms(1) show ?thesis by (auto simp: fwd_in_sent_def)
  next
    case Tunnel_read
    with cl d assms(1) show ?thesis by (cases c) (auto simp: fwd_out_recv_def Let_def fwd_closable_def)
  next
    case Tunnel_write
    with cl d assms(1) show ?thesis by (auto simp: fwd_out_sent_def)
  next
    case Proxy_shutdown
    with cl assms(1) show ?thesis by (auto simp: fwd_shutdown_cb_def fwd_closable_def)
  next
    case Close_wait
    with cl assms(1) show ?thesis by (auto simp: fwd_shutdown_cb_def fwd_closable_def)
  qed (use assms(1,2) cl d in \<open>auto simp: orderly_def fwd_resolved_def fwd_connected_def fwd_established_def\<close>)
  then show ?thesis by (simp add: fwd_inv_destroyed)
qed

lemma fwd_run_destroys:
  assumes "fwd_inv req s tr" and "fwd_on_complete ok op c (s\<lparr>fs_pending := remove_nth i (fs_pending s)\<rparr>) =
      fwd_destroy (s\<lparr>fs_pending := remove_nth i (fs_pending s)\<rparr>)"
    and "op \<noteq> Client_read \<and> op \<noteq> Tunnel_read \<or> (\<forall>d. c \<noteq> Received d)"
  shows "fwd_inv req (fwd_on_complete ok op c (s\<lparr>fs_pending := remove_nth i (fs_pending s)\<rparr>)) (fwd_note s op c tr)"
proof -
  have q: "tr_up (fwd_note s op c tr) = tr_up tr \<and> tr_down (fwd_note s op c tr) = tr_down tr"
    by (rule fwd_note_quiet) (use assms(3) in blast)
  have "fwd_closable req (s\<lparr>fs_pending := remove_nth i (fs_pending s)\<rparr>) (fwd_note s op c tr)"
    using fwd_closable_remove [OF fwd_inv_closable [OF assms(1)]] fwd_note_off q by metis
  then show ?thesis using assms(2) by (simp add: fwd_destroy_inv)
qed

lemma orderly_no_reads:
  assumes "orderly s Proxy_handshake Done"
  shows "filter (\<lambda>p. snd p \<noteq> None) (live_reads (remove_nth i (fs_pending s))) = []"
  using assms by (fastforce simp: orderly_def list_all_iff live_reads_def delivers_def filter_empty_conv remove_nth_def
      dest: in_set_takeD in_set_dropD)

lemma fwd_run_connect:
  assumes "i < length (fs_pending s)" and "fs_pending s ! i = (op, Some c)" and "orderly s op c"
    and "fwd_inv req s tr" and st: "fs_status s = F_CONNECT"
  shows "fwd_inv req (fwd_on_complete ok op c (s\<lparr>fs_pending := remove_nth i (fs_pending s)\<rparr>)) (fwd_note s op c tr)"
proof -
  let ?s = "s\<lparr>fs_pending := remove_nth i (fs_pending s)\<rparr>"
  note keep = taken_lists [OF assms(1,2)] and single = taken_single [OF assms(1,2)]
  note inv = assms(4) [unfolded fwd_inv_def Let_def]
  show ?thesis
  proof (cases "fwd_on_complete ok op c ?s = fwd_destroy ?s \<and> (op \<noteq> Client_read \<and> op \<noteq> Tunnel_read \<or> (\<forall>d. c \<noteq> Received d))")
    case True
    then show ?thesis using fwd_run_destroys [OF assms(4)] by blast
  next
    case False
    show ?thesis
    proof (cases op)
      case Client_read
      show ?thesis
      proof (cases c)
        case (Received d)
        then have "delivers (Some c)" by simp
        with single(4) Client_read inv st have "live_reads (remove_nth i (fs_pending s)) = []" "\<not> fs_first_packet_recv s"
          by (auto split: if_splits)
        with keep Client_read Received inv st show ?thesis by (simp add: fwd_in_recv_def fwd_inv_def Let_def)
      qed (use False keep Client_read inv st in \<open>simp_all add: fwd_inv_def Let_def\<close>)
    next
      case Proxy_resolve
      with False obtain ep eps where "c = Resolved (ep # eps)" ok
        by (auto simp: fwd_resolved_def split: completion.splits list.splits if_splits)
      with single(3) keep Proxy_resolve inv st show ?thesis by (simp add: fwd_resolved_def fwd_inv_def Let_def)
    next
      case (Proxy_connect ep)
      with False have "c = Done" by (auto simp: fwd_connected_def split: if_splits)
      with single(3) keep Proxy_connect inv st show ?thesis by (auto simp: fwd_connected_def fwd_inv_def Let_def)
    next
      case Proxy_handshake
      with False have c: "c = Done" by (auto simp: fwd_established_def split: if_splits)
      then have "filter (\<lambda>p. snd p \<noteq> None) (live_reads (remove_nth i (fs_pending s))) = []"
        using orderly_no_reads assms(3) Proxy_handshake by simp
      with single(3) keep Proxy_handshake inv st c show ?thesis
        by (auto simp: fwd_established_def fwd_out_async_write_buffer_def fwd_inv_def Let_def write_of_def flow_def)
    qed (use single keep inv st in \<open>auto simp: fwd_inv_def Let_def\<close>)
  qed
qed

lemma fwd_run_forward:
  assumes "i < length (fs_pending s)" and "fs_pending s ! i = (op, Some c)" and "orderly s op c"
    and "fwd_inv req s tr" and st: "fs_status s = F_FORWARD"
  shows "fwd_inv req (fwd_on_complete ok op c (s\<lparr>fs_pending := remove_nth i (fs_pending s)\<rparr>)) (fwd_note s op c tr)"
proof -
  let ?s = "s\<lparr>fs_pending := remove_nth i (fs_pending s)\<rparr>"
  note keep = taken_lists [OF assms(1,2)] and single = taken_single [OF assms(1,2)]
  note inv = assms(4) [unfolded fwd_inv_def Let_def]
  have len: "length (tun_writes (fs_pending s)) \<le> 1" "length (tun_downs (fs_pending s)) \<le> 1"
      "length (live_reads (fs_pending s)) \<le> 1"
    using inv st by auto
  show ?thesis
  proof (cases "fwd_on_complete ok op c ?s = fwd_destroy ?s \<and> (op \<noteq> Client_read \<and> op \<noteq> Tunnel_read \<or> (\<forall>d. c \<noteq> Received d))")
    case True
    then show ?thesis using fwd_run_destroys [OF assms(4)] by blast
  next
    case False
    show ?thesis
    proof (cases op)
      case Client_read
      show ?thesis
      proof (cases c)
        case (Received d)
        then have "delivers (Some c)" by simp
        with single(4) [OF Client_read _ len(3)] Client_read inv st have
          "live_reads (remove_nth i (fs_pending s)) = []" "tun_writes (fs_pending s) = []" by auto
        with keep Client_read Received inv st show ?thesis
          by (auto simp: fwd_in_recv_def fwd_out_async_write_buffer_def fwd_inv_def Let_def write_of_def flow_def)
      qed (use False keep Client_read inv st in \<open>simp_all add: fwd_inv_def Let_def\<close>)
    next
      case Tunnel_write
      with False have c: "c = Done" by (auto split: if_splits)
      from single(1) [OF Tunnel_write len(1)] have
        "tun_writes (fs_pending s) = [(Tunnel_write, Some c)]" "tun_writes (remove_nth i (fs_pending s)) = []"
        using Tunnel_write by simp_all
      with keep Tunnel_write c inv st show ?thesis
        by (auto simp: fwd_out_sent_def fwd_inv_def Let_def write_of_def flow_def)
    next
      case Tunnel_read
      with False obtain d where c: "c = Received d" by (auto split: completion.splits)
      from single(2) [OF _ len(2)] Tunnel_read have
        "tun_downs (fs_pending s) = [(Tunnel_read, Some c)]" "tun_downs (remove_nth i (fs_pending s)) = []" by simp_all
      with keep Tunnel_read c inv st show ?thesis
        by (auto simp: fwd_out_recv_def fwd_in_async_write_buffer_def fwd_inv_def Let_def write_of_def flow_def)
    next
      case Client_write
      with False have c: "c = Done" by (auto split: if_splits)
      from single(2) [OF _ len(2)] Client_write have
        "tun_downs (fs_pending s) = [(Client_write, Some c)]" "tun_downs (remove_nth i (fs_pending s)) = []" by simp_all
      with keep Client_write c inv st show ?thesis
        by (auto simp: fwd_in_sent_def fwd_inv_def Let_def write_of_def flow_def)
    qed (use False assms(3) single keep inv st in
        \<open>auto simp: fwd_inv_def Let_def orderly_def fwd_resolved_def fwd_connected_def fwd_established_def\<close>)
  qed
qed

lemma fwd_in_flight_forward:
  assumes "fwd_inv req s tr" and "in_flight op (fs_pending s)" and "op = Tunnel_write \<or> op = Client_write"
  shows "fs_status s = F_FORWARD"
proof (cases "fs_status s")
  case F_CONNECT
  have "(op, None) \<in> set (fs_pending s)" using assms(2) by (simp add: in_flight_def)
  with assms(1,3) F_CONNECT show ?thesis
    by (fastforce simp: fwd_inv_def Let_def tun_writes_def tun_downs_def filter_empty_conv)
qed (use assms in \<open>auto simp: fwd_inv_def Let_def\<close>)

lemma fwd_step_inv: "fwd_step True (s, tr) (s', tr') \<Longrightarrow> fwd_inv req s tr \<Longrightarrow> fwd_inv req s' tr'"
proof (induction "(s, tr)" "(s', tr')" rule: fwd_step.induct)
  case (fwd_ready i op c)
  then show ?case using fwd_ready_inv by blast
next
  case (fwd_in_progress k)
  then have f: "in_flight Client_write (fs_pending s')" by (simp add: in_flight_def)
  have st: "fs_status s' = F_FORWARD" using fwd_in_flight_forward [OF _ f] fwd_in_progress by blast
  with fwd_in_progress have "write_of Client_write (tun_downs (fs_pending s')) = Some None"
    using in_flight_single(2) [OF f] by (auto simp: fwd_inv_def Let_def)
  with fwd_in_progress st show ?case by (auto simp: fwd_inv_def Let_def intro: flow_progress)
next
  case (fwd_out_progress k)
  then have f: "in_flight Tunnel_write (fs_pending s')" by (simp add: in_flight_def)
  have st: "fs_status s' = F_FORWARD" using fwd_in_flight_forward [OF _ f] fwd_out_progress by blast
  with fwd_out_progress have "write_of Tunnel_write (tun_writes (fs_pending s')) = Some None"
    using in_flight_single(1) [OF f] by (auto simp: fwd_inv_def Let_def)
  with fwd_out_progress st show ?case by (auto simp: fwd_inv_def Let_def intro: flow_progress)
next
  case (fwd_run i op c ok)
  then show ?case
    using fwd_run_destroyed [OF _ _ fwd_inv_closable, of s op c req tr ok i] fwd_run_connect [of i s op c req tr ok]
      fwd_run_forward [of i s op c req tr ok]
    by (cases "fs_status s") simp_all
qed

lemma fwd_start_inv:
  assumes "fwd_start cfg remote new_forward_session = Inr s" and "first_password cfg = Inr pw"
  shows "fwd_inv (trojan_generate pw (target_addr cfg) (target_port cfg) True) s empty_trace"
proof (cases remote)
  case None
  with assms have s: "s = fwd_destroy new_forward_session" by (simp add: fwd_start_def)
  have "fwd_closable req new_forward_session empty_trace" for req
    by (simp add: fwd_closable_def new_forward_session_def empty_trace_def is_prefix_def in_flight_def)
  then show ?thesis using s fwd_destroy_inv by blast
next
  case (Some ep)
  with assms show ?thesis
    by (auto simp: fwd_start_def fwd_inv_def Let_def new_forward_session_def empty_trace_def tun_lists fs_begin_def begin_op_def)
qed

lemma fwd_reachable_inv:
  assumes "fwd_reachable True cfg s tr" and "first_password cfg = Inr pw"
  shows "fwd_inv (trojan_generate pw (target_addr cfg) (target_port cfg) True) s tr"
proof -
  have steps: "(fwd_step True)\<^sup>*\<^sup>* c c' \<Longrightarrow> fwd_inv req (fst c) (snd c) \<Longrightarrow> fwd_inv req (fst c') (snd c')" for c c' req
    by (induction rule: rtranclp_induct) (auto intro: fwd_step_inv)
  from assms(1) obtain remote s0 where r: "fwd_start cfg remote new_forward_session = Inr s0"
      "(fwd_step True)\<^sup>*\<^sup>* (s0, empty_trace) (s, tr)"
    by (auto simp: fwd_reachable_def)
  show ?thesis using steps [OF r(2)] fwd_start_inv [OF r(1) assms(2)] by simp
qed

section \<open>Sessions that refine a forward session\<close>

text \<open>The contract of a session that carries a local TCP connection through the tunnel: seen through
  \<open>abs\<close>, each of its steps is one of a forward session.\<close>

locale forward_refinement =
  fixes abs :: "'c \<Rightarrow> ForwardSession \<times> io_trace"
    and relaying :: "'c \<Rightarrow> bool"
    and step :: "'c \<Rightarrow> 'c \<Rightarrow> bool"
  assumes step_simulates: "step c c' \<Longrightarrow> relaying c \<Longrightarrow> fwd_step True (abs c) (abs c') \<and> relaying c'"
begin

lemma steps_simulate:
  "step\<^sup>*\<^sup>* c c' \<Longrightarrow> relaying c \<Longrightarrow> (fwd_step True)\<^sup>*\<^sup>* (abs c) (abs c') \<and> relaying c'"
  by (induction rule: rtranclp_induct) (auto dest: step_simulates intro: rtranclp.rtrancl_into_rtrancl)

lemma steps_inv:
  assumes "step\<^sup>*\<^sup>* c c'" and "relaying c" and "fwd_inv req (fst (abs c)) (snd (abs c))"
  shows "fwd_inv req (fst (abs c')) (snd (abs c'))"
proof -
  have "(fwd_step True)\<^sup>*\<^sup>* a b \<Longrightarrow> fwd_inv req (fst a) (snd a) \<Longrightarrow> fwd_inv req (fst b) (snd b)" for a b
    by (induction rule: rtranclp_induct) (auto intro: fwd_step_inv)
  with steps_simulate [OF assms(1,2)] assms(3) show ?thesis by blast
qed

end

end
