(* ===== verification/Client_Session.thy ===== *)
theory Client_Session
  imports Forward_Session Udp_Packet
begin

text \<open>
  \<open>src/session/clientsession.{h,cpp}\<close>: the SOCKS5 server of the client mode.  A session negotiates
  with a local application, asks the trojan server for the target the application named, and
  then relays a TCP connection, or the datagrams of a UDP association, through the tunnel.

  Operations on the local UDP socket are \<open>Relay_read\<close> and \<open>Relay_write\<close>.  A handler that throws
  ends its worker, so the result of a handler is a \<^typ>\<open>'a cxx\<close>.
\<close>

section \<open>State\<close>

datatype ClientStatus = C_HANDSHAKE | C_REQUEST | C_CONNECT | C_FORWARD | C_UDP_FORWARD | C_INVALID | C_DESTROY

record ClientSession =
  cs_status :: ClientStatus
  cs_is_udp :: bool
  cs_first_packet_recv :: bool
  cs_target_host :: string
  cs_target_port :: u16
  cs_in_read_size :: nat
  cs_out_read_size :: nat
  cs_udp_read_size :: nat
  cs_in_write_data :: string
  cs_out_write_data :: string
  cs_udp_write_data :: string
  cs_recv_len :: u64
  cs_sent_len :: u64
  cs_out_write_buf :: string
  cs_udp_data_buf :: string
  cs_udp_recv_endpoint :: endpoint
  cs_in_open :: bool
  cs_out_open :: bool
  cs_udp_open :: bool
  cs_pending :: tun_ops

definition unset_endpoint :: endpoint where
  "unset_endpoint = \<lparr>ep_address = \<lparr>ia_is_v4 = True, ia_bytes = replicate 4 (CHR 0x00), ia_text = ''0.0.0.0''\<rparr>, ep_port = 0\<rparr>"

definition new_client_session :: ClientSession where
  "new_client_session = \<lparr>cs_status = C_HANDSHAKE, cs_is_udp = False, cs_first_packet_recv = False,
     cs_target_host = '''', cs_target_port = 0, cs_in_read_size = DEFAULT_BUFFER_SIZE,
     cs_out_read_size = DEFAULT_BUFFER_SIZE, cs_udp_read_size = DEFAULT_BUFFER_SIZE,
     cs_in_write_data = '''', cs_out_write_data = '''', cs_udp_write_data = '''', cs_recv_len = 0, cs_sent_len = 0,
     cs_out_write_buf = '''', cs_udp_data_buf = '''', cs_udp_recv_endpoint = unset_endpoint,
     cs_in_open = True, cs_out_open = False, cs_udp_open = False, cs_pending = []\<rparr>"

text \<open>What the operating system answers to the calls a handler makes: the local endpoint of the
  accepted connection, whether a socket can be opened, the port a UDP socket is bound to (the
  calls without an \<open>error_code\<close> throw on failure), and the bytes behind the view of a datagram.\<close>

record os_answers =
  os_local :: "endpoint option"
  os_open_ok :: bool
  os_bind :: "u16 option"
  os_beyond :: "nat \<Rightarrow> char"

definition cs_begin :: "tun_op \<Rightarrow> ClientSession \<Rightarrow> ClientSession" where
  "cs_begin op s = s\<lparr>cs_pending := begin_op op (cs_pending s)\<rparr>"

definition cs_cancel :: "tun_object \<Rightarrow> ClientSession \<Rightarrow> ClientSession" where
  "cs_cancel obj s = s\<lparr>cs_pending := abort_ops obj (cs_pending s)\<rparr>"

section \<open>Operations\<close>

definition cl_destroy :: "ClientSession \<Rightarrow> ClientSession" where
  "cl_destroy s =
     (if cs_status s = C_DESTROY then s
      else
        (let s = cs_cancel Proxy_resolver (s\<lparr>cs_status := C_DESTROY\<rparr>);
             s = (if cs_in_open s then (cs_cancel Client_socket s)\<lparr>cs_in_open := False\<rparr> else s);
             s = (if cs_udp_open s then (cs_cancel Relay_socket s)\<lparr>cs_udp_open := False\<rparr> else s)
         in if cs_out_open s
            then cs_begin Close_wait (cs_cancel Close_timer (cs_begin Proxy_shutdown (cs_cancel Proxy_socket s)))
            else s))"

definition cl_shutdown_cb :: "completion \<Rightarrow> ClientSession \<Rightarrow> ClientSession" where
  "cl_shutdown_cb c s =
     (if c = Aborted then s else (cs_cancel Proxy_socket (cs_cancel Close_timer s))\<lparr>cs_out_open := False\<rparr>)"

definition cl_in_async_write_buffer :: "string \<Rightarrow> ClientSession \<Rightarrow> ClientSession" where
  "cl_in_async_write_buffer data s = cs_begin Client_write (s\<lparr>cs_in_write_data := data\<rparr>)"

definition cl_out_async_write_buffer :: "string \<Rightarrow> ClientSession \<Rightarrow> ClientSession" where
  "cl_out_async_write_buffer data s = cs_begin Tunnel_write (s\<lparr>cs_out_write_data := data\<rparr>)"

definition cl_udp_async_write :: "string \<Rightarrow> endpoint \<Rightarrow> ClientSession \<Rightarrow> ClientSession" where
  "cl_udp_async_write data ep s = cs_begin (Relay_write ep) (s\<lparr>cs_udp_write_data := data\<rparr>)"

text \<open>The loop over the offered methods: \<open>i\<close> runs from 2 while \<open>i < data[1] + 2\<close>, where \<open>data[1]\<close> is a
  signed \<open>char\<close>, and stops at a zero byte.\<close>

definition has_method :: "string \<Rightarrow> bool" where
  "has_method data =
     list_ex (\<lambda>i. data ! i = CHR 0x00) [2..<nat (schar (data ! 1) + 2)]"

definition cl_handshake :: "string \<Rightarrow> ClientSession \<Rightarrow> ClientSession" where
  "cl_handshake data s =
     (if length data < 2 \<or> data ! 0 \<noteq> CHR 0x05 \<or> length data \<noteq> of_char (data ! 1) + 2
      then cl_destroy s
      else if \<not> has_method data
      then (cl_in_async_write_buffer [CHR 0x05, CHR 0xFF] s)\<lparr>cs_status := C_INVALID\<rparr>
      else cl_in_async_write_buffer [CHR 0x05, CHR 0x00] s)"

text \<open>\<open>temp_buf\<close>: the request to the trojan server, from the password hash, the command byte and
  everything behind the reserved byte of the application's request.\<close>

definition tunnel_request :: "string \<Rightarrow> string \<Rightarrow> string cxx" where
  "tunnel_request pw data =
     bind_exn (substr data 1 1) (\<lambda>cmd. bind_exn (substr_from data 3) (\<lambda>addr. Inr (pw @ crlf @ cmd @ addr @ crlf)))"

definition connect_reply :: string where
  "connect_reply = [CHR 0x05, CHR 0x00, CHR 0x00, CHR 0x01] @ replicate 6 (CHR 0x00)"

definition unsupported_reply :: string where
  "unsupported_reply = [CHR 0x05, CHR 0x07, CHR 0x00, CHR 0x01] @ replicate 6 (CHR 0x00)"

text \<open>Opening and binding the local UDP socket of an association.\<close>

definition cl_udp_associate :: "os_answers \<Rightarrow> string \<Rightarrow> ClientSession \<Rightarrow> ClientSession cxx" where
  "cl_udp_associate os temp_buf s =
     (case os_local os of
        None \<Rightarrow> Inl System_error
      | Some local \<Rightarrow>
          if \<not> os_open_ok os then Inr (cl_destroy s)
          else case os_bind os of
            None \<Rightarrow> Inl System_error
          | Some p \<Rightarrow>
              Inr ((cl_in_async_write_buffer ([CHR 0x05, CHR 0x00, CHR 0x00] @ socks5_generate (local\<lparr>ep_port := p\<rparr>))
                     (s\<lparr>cs_udp_open := True\<rparr>))\<lparr>cs_out_write_buf := temp_buf\<rparr>))"

definition cl_request :: "Config \<Rightarrow> os_answers \<Rightarrow> string \<Rightarrow> ClientSession \<Rightarrow> ClientSession cxx" where
  "cl_request cfg os data s =
     (if length data < 7 \<or> data ! 0 \<noteq> CHR 0x05 \<or> data ! 2 \<noteq> CHR 0x00 then Inr (cl_destroy s)
      else
        bind_exn (first_password cfg) (\<lambda>pw.
        bind_exn (tunnel_request pw data) (\<lambda>temp_buf.
        bind_exn (trojan_parse blank_request temp_buf) (\<lambda>(req, v).
          if v = -1
          then Inr ((cl_in_async_write_buffer unsupported_reply s)\<lparr>cs_status := C_INVALID\<rparr>)
          else
            (let s = s\<lparr>cs_target_host := address (req_address req), cs_target_port := port (req_address req),
                       cs_is_udp := req_command req = UDP_ASSOCIATE\<rparr>
             in if cs_is_udp s then cl_udp_associate os temp_buf s
                else Inr ((cl_in_async_write_buffer connect_reply s)\<lparr>cs_out_write_buf := temp_buf\<rparr>))))))"

definition cl_in_recv :: "Config \<Rightarrow> os_answers \<Rightarrow> string \<Rightarrow> ClientSession \<Rightarrow> ClientSession cxx" where
  "cl_in_recv cfg os data s =
     (let s = s\<lparr>cs_in_read_size := grow_after_read (cs_in_read_size s) (length data)\<rparr>
      in case cs_status s of
           C_HANDSHAKE \<Rightarrow> Inr (cl_handshake data s)
         | C_REQUEST \<Rightarrow> cl_request cfg os data s
         | C_CONNECT \<Rightarrow> Inr (s\<lparr>cs_sent_len := cs_sent_len s + of_nat (length data), cs_first_packet_recv := True,
                               cs_out_write_buf := cs_out_write_buf s @ data\<rparr>)
         | C_FORWARD \<Rightarrow> Inr (cl_out_async_write_buffer data (s\<lparr>cs_sent_len := cs_sent_len s + of_nat (length data)\<rparr>))
         | C_UDP_FORWARD \<Rightarrow> Inr (cl_destroy s)
         | _ \<Rightarrow> Inr s)"

definition cl_in_sent :: "ClientSession \<Rightarrow> ClientSession" where
  "cl_in_sent s =
     (case cs_status s of
        C_HANDSHAKE \<Rightarrow> cs_begin Client_read (s\<lparr>cs_status := C_REQUEST\<rparr>)
      | C_REQUEST \<Rightarrow>
          (let s = cs_begin Client_read (s\<lparr>cs_status := C_CONNECT\<rparr>)
           in cs_begin Proxy_resolve (if cs_is_udp s then cs_begin Relay_read s else s))
      | C_FORWARD \<Rightarrow> cs_begin Tunnel_read s
      | C_INVALID \<Rightarrow> cl_destroy s
      | _ \<Rightarrow> s)"

text \<open>The three continuations nested in \<open>in_sent\<close>.\<close>

definition cl_resolved :: "bool \<Rightarrow> completion \<Rightarrow> ClientSession \<Rightarrow> ClientSession" where
  "cl_resolved open_ok c s =
     (case c of
        Resolved (ep # eps) \<Rightarrow>
          if \<not> open_ok then cl_destroy s else cs_begin (Proxy_connect ep) (s\<lparr>cs_out_open := True\<rparr>)
      | _ \<Rightarrow> cl_destroy s)"

definition cl_connected :: "completion \<Rightarrow> ClientSession \<Rightarrow> ClientSession" where
  "cl_connected c s = (if c = Done then cs_begin Proxy_handshake s else cl_destroy s)"

definition cl_established :: "completion \<Rightarrow> ClientSession \<Rightarrow> ClientSession" where
  "cl_established c s =
     (if c = Done
      then (let s = (if cs_is_udp s
                     then (if \<not> cs_first_packet_recv s then cs_cancel Relay_socket s else s)\<lparr>cs_status := C_UDP_FORWARD\<rparr>
                     else (if \<not> cs_first_packet_recv s then cs_cancel Client_socket s else s)\<lparr>cs_status := C_FORWARD\<rparr>);
                s = cs_begin Tunnel_read s
            in cl_out_async_write_buffer (cs_out_write_buf s) s)
      else cl_destroy s)"

text \<open>One datagram for the application from the front of the buffered tunnel bytes.\<close>

definition cl_udp_sent :: "ClientSession \<Rightarrow> ClientSession cxx" where
  "cl_udp_sent s =
     (if cs_status s \<noteq> C_UDP_FORWARD then Inr s
      else case udp_decode (cs_udp_data_buf s) of
        None \<Rightarrow> if length (cs_udp_data_buf s) > MAX_LENGTH then Inr (cl_destroy s) else Inr (cs_begin Tunnel_read s)
      | Some (packet, packet_len) \<Rightarrow>
          (case socks5_parse nul_terminated (pkt_address blank_packet) (cs_udp_data_buf s) of
             (addr, None) \<Rightarrow> Inr (cl_destroy s)
           | (addr, Some address_len) \<Rightarrow>
               bind_exn (substr (cs_udp_data_buf s) 0 address_len) (\<lambda>field.
               bind_exn (substr_from (cs_udp_data_buf s) packet_len) (\<lambda>rest.
                 Inr (cl_udp_async_write (replicate 3 (CHR 0x00) @ field @ pkt_payload packet) (cs_udp_recv_endpoint s)
                   (s\<lparr>cs_udp_data_buf := rest, cs_recv_len := cs_recv_len s + of_nat (unat (pkt_length packet))\<rparr>))))))"

definition cl_out_recv :: "string \<Rightarrow> ClientSession \<Rightarrow> ClientSession cxx" where
  "cl_out_recv data s =
     (let s = s\<lparr>cs_out_read_size := grow_after_read (cs_out_read_size s) (length data)\<rparr>
      in if cs_status s = C_FORWARD
         then Inr (cl_in_async_write_buffer data (s\<lparr>cs_recv_len := cs_recv_len s + of_nat (length data)\<rparr>))
         else if cs_status s = C_UDP_FORWARD
         then cl_udp_sent (s\<lparr>cs_udp_data_buf := cs_udp_data_buf s @ data\<rparr>)
         else Inr s)"

definition cl_out_sent :: "ClientSession \<Rightarrow> ClientSession" where
  "cl_out_sent s =
     (if cs_status s = C_FORWARD then cs_begin Client_read s
      else if cs_status s = C_UDP_FORWARD then cs_begin Relay_read s
      else s)"

text \<open>The frame for the tunnel that a datagram of the application becomes.\<close>

definition datagram_frame :: "(nat \<Rightarrow> char) \<Rightarrow> string \<Rightarrow> (string \<times> nat) option" where
  "datagram_frame beyond data =
     (if length data < 3 \<or> data ! 0 \<noteq> CHR 0x00 \<or> data ! 1 \<noteq> CHR 0x00 \<or> data ! 2 \<noteq> CHR 0x00 then None
      else case socks5_parse beyond (pkt_address blank_packet) (drop 3 data) of
        (addr, None) \<Rightarrow> None
      | (addr, Some address_len) \<Rightarrow>
          (let packet_length = length data - 3 - address_len
           in Some (take address_len (drop 3 data) @ [size_hi_byte packet_length, size_lo_byte packet_length] @ crlf @
                drop (address_len + 3) data, packet_length)))"

definition cl_udp_recv :: "os_answers \<Rightarrow> string \<Rightarrow> ClientSession \<Rightarrow> ClientSession" where
  "cl_udp_recv os data s =
     (let s = s\<lparr>cs_udp_read_size := grow_after_read (cs_udp_read_size s) (length data)\<rparr>
      in if length data = 0 then s
         else case datagram_frame (os_beyond os) data of
           None \<Rightarrow> cl_destroy s
         | Some (packet, packet_length) \<Rightarrow>
             (let s = s\<lparr>cs_sent_len := cs_sent_len s + of_nat packet_length\<rparr>
              in if cs_status s = C_CONNECT
                 then s\<lparr>cs_first_packet_recv := True, cs_out_write_buf := cs_out_write_buf s @ packet\<rparr>
                 else if cs_status s = C_UDP_FORWARD then cl_out_async_write_buffer packet s
                 else s))"

definition cl_start :: "endpoint option \<Rightarrow> ClientSession \<Rightarrow> ClientSession" where
  "cl_start remote s = (case remote of None \<Rightarrow> cl_destroy s | Some ep \<Rightarrow> cs_begin Client_read s)"

fun cl_on_complete :: "Config \<Rightarrow> os_answers \<Rightarrow> tun_op \<Rightarrow> completion \<Rightarrow> ClientSession \<Rightarrow> ClientSession cxx" where
  "cl_on_complete cfg os Client_read c s =
     (case c of Aborted \<Rightarrow> Inr s | Received data \<Rightarrow> cl_in_recv cfg os data s | _ \<Rightarrow> Inr (cl_destroy s))"
| "cl_on_complete cfg os Client_write c s = Inr (if c = Done then cl_in_sent s else cl_destroy s)"
| "cl_on_complete cfg os Tunnel_read c s =
     (case c of Received data \<Rightarrow> cl_out_recv data s | _ \<Rightarrow> Inr (cl_destroy s))"
| "cl_on_complete cfg os Tunnel_write c s = Inr (if c = Done then cl_out_sent s else cl_destroy s)"
| "cl_on_complete cfg os Relay_read c s =
     (case c of Aborted \<Rightarrow> Inr s | Datagram data ep \<Rightarrow> Inr (cl_udp_recv os data s) | _ \<Rightarrow> Inr (cl_destroy s))"
| "cl_on_complete cfg os (Relay_write ep) c s = (if c = Done then cl_udp_sent s else Inr (cl_destroy s))"
| "cl_on_complete cfg os Proxy_resolve c s = Inr (cl_resolved (os_open_ok os) c s)"
| "cl_on_complete cfg os (Proxy_connect ep) c s = Inr (cl_connected c s)"
| "cl_on_complete cfg os Proxy_handshake c s = Inr (cl_established c s)"
| "cl_on_complete cfg os Proxy_shutdown c s = Inr (cl_shutdown_cb c s)"
| "cl_on_complete cfg os Close_wait c s = Inr (cl_shutdown_cb c s)"
| "cl_on_complete cfg os Gc_wait c s = Inr s"

section \<open>Negotiation\<close>

text \<open>A greeting offers methods; the code reads the count twice, once as an unsigned byte and once as
  a signed one.\<close>

lemma schar_nat: "schar c = (if of_char c < (128 :: nat) then int (of_char c) else int (of_char c) - 256)"
proof -
  have "(of_char c :: int) = int (of_char c)" by (simp only: of_nat_of_char)
  then show ?thesis by (simp add: schar_def)
qed

lemma method_index:
  "list_ex (\<lambda>i. data ! i = x) [2..<length data] \<longleftrightarrow> x \<in> set (drop 2 data)"
proof -
  have "(\<exists>i. 2 \<le> i \<and> i < length data \<and> data ! i = x) \<longleftrightarrow> (\<exists>j. j < length data - 2 \<and> data ! (2 + j) = x)"
    by (metis add.commute le_add1 le_Suc_ex less_diff_conv)
  then show ?thesis by (auto simp: list_ex_iff in_set_conv_nth Bex_def)
qed

lemma has_method_iff:
  assumes "length data = of_char (data ! 1) + 2"
  shows "has_method data \<longleftrightarrow> of_char (data ! 1) < (128 :: nat) \<and> CHR 0x00 \<in> set (drop 2 data)"
proof (cases "of_char (data ! 1) < (128 :: nat)")
  case True
  then have "nat (schar (data ! 1) + 2) = length data" using assms by (simp add: schar_nat)
  with True method_index show ?thesis by (simp add: has_method_def)
next
  case False
  moreover have "of_char (data ! 1) \<le> (256 :: nat)" using of_char_less_256 less_imp_le by blast
  ultimately have "nat (schar (data ! 1) + 2) \<le> 2" by (simp add: schar_nat)
  with False show ?thesis by (simp add: has_method_def)
qed

lemma tunnel_request_Inr:
  "7 \<le> length data \<Longrightarrow> tunnel_request pw data = Inr (pw @ crlf @ [data ! 1] @ drop 3 data @ crlf)"
  by (simp add: tunnel_request_def substr_def substr_from_def bind_exn_def take_Suc_conv_app_nth hd_drop_conv_nth take_Suc)

text \<open>Once the request of the application is accepted, the bytes kept for the tunnel are a trojan
  request with the command and the address of the application.\<close>

definition request_for :: "string \<Rightarrow> bool \<Rightarrow> string \<Rightarrow> u16 \<Rightarrow> string \<Rightarrow> bool" where
  "request_for pw udp host p req \<longleftrightarrow>
     (\<exists>r :: TrojanRequest. trojan_request r req \<and> req_password r = pw \<and> (req_command r = UDP_ASSOCIATE \<longleftrightarrow> udp) \<and>
        address (req_address r) = host \<and> port (req_address r) = p)"

lemma request_password:
  assumes "trojan_request r (pw @ crlf @ rest)" and "find_sub crlf pw = None"
  shows "req_password r = pw"
  using assms(1)
proof cases
  case (trojan_requestI pw' a f cmd pl)
  have "find_sub crlf (pw @ crlf @ rest) = Some (length pw)" using assms(2) by (rule find_crlf_append)
  moreover have "find_sub crlf (pw' @ crlf @ ([command_byte cmd] @ f @ crlf @ pl)) = Some (length pw')"
    using trojan_requestI by (intro find_crlf_append) simp
  ultimately have "length pw = length pw'" using trojan_requestI by simp
  with trojan_requestI show ?thesis by simp
qed

section \<open>Datagrams and frames\<close>

text \<open>The datagram for the application that a frame of the tunnel becomes: three zero bytes, the
  address field of the frame and its payload.  As a decoder of the tunnel's byte stream:\<close>

definition reply_decode :: "string \<Rightarrow> (string \<times> nat) option" where
  "reply_decode data =
     (case udp_decode data of
        None \<Rightarrow> None
      | Some (packet, packet_len) \<Rightarrow>
          (case socks5_parse nul_terminated (pkt_address blank_packet) data of
             (addr, None) \<Rightarrow> None
           | (addr, Some address_len) \<Rightarrow> Some (replicate 3 (CHR 0x00) @ take address_len data @ pkt_payload packet, packet_len)))"

lemma reply_decode_frame:
  assumes "address_field a f" and "length pl = unat (be16 h l)"
  shows "reply_decode (f @ [h, l] @ crlf @ pl @ rest) = Some (replicate 3 (CHR 0x00) @ f @ pl, length f + 4 + length pl)"
proof -
  have fr: "udp_frame \<lparr>pkt_address = a, pkt_length = be16 h l, pkt_payload = pl\<rparr> (f @ [h, l] @ crlf @ pl)"
    using assms by (rule udp_frameI)
  have "udp_decode ((f @ [h, l] @ crlf @ pl) @ rest) =
      Some (\<lparr>pkt_address = a, pkt_length = be16 h l, pkt_payload = pl\<rparr>, length (f @ [h, l] @ crlf @ pl))"
    unfolding udp_decode_iff using fr by blast
  moreover have "socks5_parse nul_terminated (pkt_address blank_packet) (f @ ([h, l] @ crlf @ pl @ rest)) = (a, Some (length f))"
    using assms(1) by (rule socks5_parse_complete)
  ultimately show ?thesis by (simp add: reply_decode_def)
qed

text \<open>Every frame of the tunnel gives a datagram: the address that was parsed with the frame is parsed
  again.\<close>

lemma reply_decode_udp:
  assumes "udp_decode data = Some (p, n)"
  shows "\<exists>f a. socks5_parse nul_terminated (pkt_address blank_packet) data = (a, Some (length f)) \<and> address_field a f \<and>
      take (length f) data = f \<and> length f \<le> length data \<and> n \<le> length data \<and>
      reply_decode data = Some (replicate 3 (CHR 0x00) @ f @ pkt_payload p, n)"
proof -
  from assms obtain fr rest where fr: "data = fr @ rest" "udp_frame p fr" "n = length fr" by (auto simp: udp_decode_iff)
  from fr(2) show ?thesis
  proof cases
    case (udp_frameI a f pl h l)
    then have d: "data = f @ ([h, l] @ crlf @ pl @ rest)" using fr by simp
    have "socks5_parse nul_terminated (pkt_address blank_packet) data = (a, Some (length f))"
      using udp_frameI d socks5_parse_complete by blast
    moreover have "reply_decode data = Some (replicate 3 (CHR 0x00) @ f @ pkt_payload p, n)"
      using reply_decode_frame udp_frameI d fr by simp
    ultimately show ?thesis using udp_frameI d fr by auto
  qed
qed

lemma reply_decode_None: "reply_decode data = None \<longleftrightarrow> udp_decode data = None"
  using reply_decode_udp [of data] by (cases "udp_decode data") (auto simp: reply_decode_def)

interpretation reply_stream: frame_decoder reply_decode
proof
  fix s x n
  assume e: "reply_decode s = Some (x, n)"
  then obtain p where "udp_decode s = Some (p, n)"
    by (auto simp: reply_decode_def split: option.splits prod.splits)
  then show "0 < n \<and> n \<le> length s" by (rule udp_stream.decode_bound)
next
  fix s x n t
  assume e: "reply_decode s = Some (x, n)"
  then obtain p where p: "udp_decode s = Some (p, n)"
    by (auto simp: reply_decode_def split: option.splits prod.splits)
  obtain f a where f: "socks5_parse nul_terminated (pkt_address blank_packet) s = (a, Some (length f))" "address_field a f"
      "take (length f) s = f" "length f \<le> length s" using reply_decode_udp [OF p] by blast
  have "udp_decode (s @ t) = Some (p, n)" using p by (rule udp_stream.decode_stable)
  moreover have "socks5_parse nul_terminated (pkt_address blank_packet) (s @ t) = (a, Some (length f))"
    using f by (metis append.assoc append_take_drop_id socks5_parse_complete)
  ultimately show "reply_decode (s @ t) = Some (x, n)" using e p f by (simp add: reply_decode_def)
qed

text \<open>The frame of a datagram decodes to that datagram.\<close>

lemma datagram_frame_iff:
  "datagram_frame beyond data = Some (packet, n) \<longleftrightarrow>
     (\<exists>a f pl. data = replicate 3 (CHR 0x00) @ f @ pl \<and> address_field a f \<and> n = length pl \<and>
        packet = f @ [size_hi_byte n, size_lo_byte n] @ crlf @ pl)"
  (is "?l \<longleftrightarrow> ?r")
proof
  assume l: ?l
  then have hd: "3 \<le> length data" "data ! 0 = CHR 0x00" "data ! 1 = CHR 0x00" "data ! 2 = CHR 0x00"
    by (auto simp: datagram_frame_def split: if_splits)
  obtain a k where p: "socks5_parse beyond (pkt_address blank_packet) (drop 3 data) = (a, Some k)"
    using l by (auto simp: datagram_frame_def split: if_splits prod.splits option.splits)
  then obtain f pl where f: "drop 3 data = f @ pl" "address_field a f" "k = length f" using socks5_parse_sound by blast
  have "data = take 3 data @ f @ pl" using f by (metis append_take_drop_id)
  moreover have t: "take 3 data = replicate 3 (CHR 0x00)"
    using hd by (cases data; cases "tl data"; cases "tl (tl data)") (auto simp: numeral_3_eq_3)
  ultimately have d: "data = replicate 3 (CHR 0x00) @ f @ pl" by simp
  then have "length data - 3 - length f = length pl" "drop (length f + 3) data = pl" by simp_all
  with l hd p f d show ?r by (auto simp: datagram_frame_def Let_def split: if_splits)
next
  assume ?r
  then obtain a f pl where r: "data = replicate 3 (CHR 0x00) @ f @ pl" "address_field a f" "n = length pl"
    "packet = f @ [size_hi_byte n, size_lo_byte n] @ crlf @ pl" by blast
  have "socks5_parse beyond (pkt_address blank_packet) (f @ pl) = (a, Some (length f))" using r(2) by (rule socks5_parse_complete)
  with r show ?l by (simp add: datagram_frame_def Let_def numeral_3_eq_3 numeral_2_eq_2)
qed

lemma datagram_roundtrip:
  assumes "datagram_frame beyond data = Some (packet, n)" and "n < 65536"
  shows "reply_decode (packet @ rest) = Some (data, length packet)"
proof -
  from assms(1) obtain a f pl where r: "data = replicate 3 (CHR 0x00) @ f @ pl" "address_field a f" "n = length pl"
    "packet = f @ [size_hi_byte n, size_lo_byte n] @ crlf @ pl" unfolding datagram_frame_iff by blast
  have "length pl = unat (be16 (size_hi_byte n) (size_lo_byte n))" using unat_be16_size [OF assms(2)] r(3) by metis
  from reply_decode_frame [OF r(2) this, of rest] r show ?thesis by simp
qed

section \<open>Steps\<close>

text \<open>A receive stores the sender's address when the datagram arrives, not when its handler runs.\<close>

fun cl_arrive :: "completion \<Rightarrow> ClientSession \<Rightarrow> ClientSession" where
  "cl_arrive (Datagram d ep) s = s\<lparr>cs_udp_recv_endpoint := ep\<rparr>"
| "cl_arrive c s = s"

fun cl_note :: "os_answers \<Rightarrow> ClientSession \<Rightarrow> tun_op \<Rightarrow> completion \<Rightarrow> io_trace \<Rightarrow> io_trace" where
  "cl_note os s Client_read (Received d) tr =
     (if cs_status s = C_CONNECT \<or> cs_status s = C_FORWARD then tr\<lparr>tr_up := tr_up tr @ d\<rparr> else tr)"
| "cl_note os s Relay_read (Datagram d ep) tr =
     (case datagram_frame (os_beyond os) d of
        Some (packet, n) \<Rightarrow> if cs_status s = C_CONNECT \<or> cs_status s = C_UDP_FORWARD then tr\<lparr>tr_up := tr_up tr @ packet\<rparr> else tr
      | None \<Rightarrow> tr)"
| "cl_note os s Tunnel_read (Received d) tr =
     (if cs_status s = C_FORWARD \<or> cs_status s = C_UDP_FORWARD then tr\<lparr>tr_down := tr_down tr @ d\<rparr> else tr)"
| "cl_note os s Client_write c tr = tr\<lparr>tr_in_off := 0\<rparr>"
| "cl_note os s Tunnel_write c tr = tr\<lparr>tr_out_off := 0\<rparr>"
| "cl_note os s op c tr = tr"

text \<open>The order of handlers under which the code keeps its buffers apart, as for the forward session:
  no step of establishing the tunnel succeeds after the session has ended, and nothing is queued for the
  read that is cancelled when the tunnel is established.\<close>

definition cl_orderly :: "ClientSession \<Rightarrow> tun_op \<Rightarrow> completion \<Rightarrow> bool" where
  "cl_orderly s op c \<longleftrightarrow>
     (is_connecting op \<and> cs_status s \<noteq> C_CONNECT \<longrightarrow> c = Aborted \<or> (\<exists>m. c = Failed m)) \<and>
     (op = Proxy_handshake \<and> c = Done \<longrightarrow>
        list_all (\<lambda>(op, c). op = (if cs_is_udp s then Relay_read else Client_read) \<longrightarrow>
          (\<forall>d. c \<noteq> Some (Received d)) \<and> (\<forall>d ep. c \<noteq> Some (Datagram d ep))) (cs_pending s))"

text \<open>A condition on the application, not on the order of handlers: one that asked for a UDP association sends
  nothing on its TCP connection before the tunnel stands.  It always holds of a session that relays TCP.  The
  code does handle such bytes, by putting them into the tunnel among the frames.\<close>

definition cl_quiet :: "ClientSession \<Rightarrow> tun_op \<Rightarrow> completion \<Rightarrow> bool" where
  "cl_quiet s op c \<longleftrightarrow>
     (cs_is_udp s \<and> cs_status s = C_CONNECT \<and> op = Client_read \<longrightarrow> (\<forall>d. c \<noteq> Received d))"

definition negotiating :: "ClientSession \<Rightarrow> bool" where
  "negotiating s \<longleftrightarrow> cs_status s = C_HANDSHAKE \<or> cs_status s = C_REQUEST \<or> cs_status s = C_INVALID"

text \<open>The observer keeps apart what is said to the application during the negotiation, and notes the
  datagrams sent to it.\<close>

record client_view =
  cv_trace :: io_trace
  cv_said :: string
  cv_datagrams :: "string list"

definition cl_look :: "os_answers \<Rightarrow> ClientSession \<Rightarrow> tun_op \<Rightarrow> completion \<Rightarrow> client_view \<Rightarrow> client_view" where
  "cl_look os s op c v = v\<lparr>cv_trace := cl_note os s op c (cv_trace v)\<rparr>"

text \<open>A datagram is sent when the send operation on it completes.\<close>

fun cl_sends :: "tun_op \<Rightarrow> completion \<Rightarrow> ClientSession \<Rightarrow> client_view \<Rightarrow> client_view" where
  "cl_sends (Relay_write ep) Done s v = v\<lparr>cv_datagrams := cv_datagrams v @ [cs_udp_write_data s]\<rparr>"
| "cl_sends op c s v = v"

definition cl_in_progressed :: "nat \<Rightarrow> ClientSession \<Rightarrow> client_view \<Rightarrow> client_view" where
  "cl_in_progressed k s v =
     (let tr = cv_trace v; bytes = take k (drop (tr_in_off tr) (cs_in_write_data s))
      in if negotiating s then v\<lparr>cv_said := cv_said v @ bytes, cv_trace := tr\<lparr>tr_in_off := tr_in_off tr + k\<rparr>\<rparr>
         else v\<lparr>cv_trace := tr\<lparr>tr_in_wire := tr_in_wire tr @ bytes, tr_in_off := tr_in_off tr + k\<rparr>\<rparr>)"

definition cl_out_progressed :: "nat \<Rightarrow> ClientSession \<Rightarrow> client_view \<Rightarrow> client_view" where
  "cl_out_progressed k s v =
     (let tr = cv_trace v
      in v\<lparr>cv_trace := tr\<lparr>tr_out_wire := tr_out_wire tr @ take k (drop (tr_out_off tr) (cs_out_write_data s)),
                         tr_out_off := tr_out_off tr + k\<rparr>\<rparr>)"

inductive cl_step :: "bool \<Rightarrow> Config \<Rightarrow> ClientSession \<times> client_view \<Rightarrow> ClientSession \<times> client_view \<Rightarrow> bool" for ord cfg where
  cl_ready: "i < length (cs_pending s) \<Longrightarrow> cs_pending s ! i = (op, None) \<Longrightarrow>
     tun_admissible (cs_in_read_size s) (cs_out_read_size s) (cs_udp_read_size s)
       (tr_in_off (cv_trace v) = length (cs_in_write_data s)) (tr_out_off (cv_trace v) = length (cs_out_write_data s)) op c \<Longrightarrow>
     cl_step ord cfg (s, v) ((cl_arrive c s)\<lparr>cs_pending := (cs_pending s)[i := (op, Some c)]\<rparr>, cl_sends op c s v)"
| cl_in_progress: "(Client_write, None) \<in> set (cs_pending s) \<Longrightarrow> tr_in_off (cv_trace v) + k \<le> length (cs_in_write_data s) \<Longrightarrow>
     cl_step ord cfg (s, v) (s, cl_in_progressed k s v)"
| cl_out_progress: "(Tunnel_write, None) \<in> set (cs_pending s) \<Longrightarrow> tr_out_off (cv_trace v) + k \<le> length (cs_out_write_data s) \<Longrightarrow>
     cl_step ord cfg (s, v) (s, cl_out_progressed k s v)"
| cl_run: "i < length (cs_pending s) \<Longrightarrow> cs_pending s ! i = (op, Some c) \<Longrightarrow> (ord \<longrightarrow> cl_orderly s op c \<and> cl_quiet s op c) \<Longrightarrow>
     cl_on_complete cfg os op c (s\<lparr>cs_pending := remove_nth i (cs_pending s)\<rparr>) = Inr s' \<Longrightarrow>
     cl_step ord cfg (s, v) (s', cl_look os s op c v)"

definition cl_reachable :: "bool \<Rightarrow> Config \<Rightarrow> ClientSession \<Rightarrow> client_view \<Rightarrow> bool" where
  "cl_reachable ord cfg s v \<longleftrightarrow>
     (\<exists>remote. (cl_step ord cfg)\<^sup>*\<^sup>*
        (cl_start remote new_client_session, \<lparr>cv_trace = empty_trace, cv_said = '''', cv_datagrams = []\<rparr>) (s, v))"

section \<open>A TCP session is a forward session\<close>

fun as_forward_status :: "ClientStatus \<Rightarrow> ForwardStatus" where
  "as_forward_status C_CONNECT = F_CONNECT"
| "as_forward_status C_FORWARD = F_FORWARD"
| "as_forward_status _ = F_DESTROY"

definition as_forward :: "ClientSession \<Rightarrow> ForwardSession" where
  "as_forward s = \<lparr>fs_status = as_forward_status (cs_status s), fs_first_packet_recv = cs_first_packet_recv s,
     fs_in_read_size = cs_in_read_size s, fs_out_read_size = cs_out_read_size s,
     fs_in_write_data = cs_in_write_data s, fs_out_write_data = cs_out_write_data s,
     fs_recv_len = cs_recv_len s, fs_sent_len = cs_sent_len s, fs_out_write_buf = cs_out_write_buf s,
     fs_in_open = cs_in_open s, fs_out_open = cs_out_open s, fs_pending = cs_pending s\<rparr>"

definition tcp_phase :: "ClientSession \<Rightarrow> bool" where
  "tcp_phase s \<longleftrightarrow> \<not> cs_is_udp s \<and> \<not> cs_udp_open s \<and>
     (cs_status s = C_CONNECT \<or> cs_status s = C_FORWARD \<or> cs_status s = C_DESTROY)"

definition no_relay_ops :: "tun_ops \<Rightarrow> bool" where
  "no_relay_ops ps \<longleftrightarrow> list_all (\<lambda>p. tun_object_of (fst p) \<noteq> Relay_socket) ps"

lemma as_forward_ops:
  "as_forward (cs_begin op s) = fs_begin op (as_forward s)"
  "as_forward (cs_cancel obj s) = fs_cancel obj (as_forward s)"
  by (simp_all add: as_forward_def cs_begin_def cs_cancel_def fs_begin_def fs_cancel_def)

lemma as_forward_fields [simp]:
  "fs_status (as_forward s) = as_forward_status (cs_status s)" "fs_first_packet_recv (as_forward s) = cs_first_packet_recv s"
  "fs_in_read_size (as_forward s) = cs_in_read_size s" "fs_out_read_size (as_forward s) = cs_out_read_size s"
  "fs_in_write_data (as_forward s) = cs_in_write_data s" "fs_out_write_data (as_forward s) = cs_out_write_data s"
  "fs_recv_len (as_forward s) = cs_recv_len s" "fs_sent_len (as_forward s) = cs_sent_len s"
  "fs_out_write_buf (as_forward s) = cs_out_write_buf s"
  "fs_in_open (as_forward s) = cs_in_open s" "fs_out_open (as_forward s) = cs_out_open s" "fs_pending (as_forward s) = cs_pending s"
  by (simp_all add: as_forward_def)

lemma as_forward_destroy: "tcp_phase s \<Longrightarrow> as_forward (cl_destroy s) = fwd_destroy (as_forward s)"
  by (auto simp: tcp_phase_def cl_destroy_def fwd_destroy_def as_forward_def cs_begin_def cs_cancel_def fs_begin_def fs_cancel_def Let_def)

lemma tcp_phase_destroy: "tcp_phase s \<Longrightarrow> tcp_phase (cl_destroy s)"
  by (auto simp: tcp_phase_def cl_destroy_def cs_begin_def cs_cancel_def Let_def)

lemma tcp_phase_status:
  assumes "tcp_phase s"
  obtains "cs_status s = C_CONNECT" | "cs_status s = C_FORWARD" | "cs_status s = C_DESTROY"
  using assms by (auto simp: tcp_phase_def)

lemmas cl_defs = cl_in_recv_def cl_in_sent_def cl_out_recv_def cl_out_sent_def cl_resolved_def cl_connected_def
  cl_established_def cl_shutdown_cb_def cl_in_async_write_buffer_def cl_out_async_write_buffer_def cs_begin_def cs_cancel_def

lemmas fwd_defs = fwd_in_recv_def fwd_in_sent_def fwd_out_recv_def fwd_out_sent_def fwd_resolved_def fwd_connected_def
  fwd_established_def fwd_shutdown_cb_def fwd_in_async_write_buffer_def fwd_out_async_write_buffer_def fs_begin_def fs_cancel_def

lemma tcp_run:
  assumes "tcp_phase s" and "tun_object_of op \<noteq> Relay_socket"
  shows "\<exists>s'. cl_on_complete cfg os op c s = Inr s' \<and> as_forward s' = fwd_on_complete (os_open_ok os) op c (as_forward s) \<and> tcp_phase s'"
proof -
  note d = as_forward_destroy [OF assms(1)] tcp_phase_destroy [OF assms(1)]
  from assms(1) show ?thesis
  proof (cases rule: tcp_phase_status)
    case 1
    with assms d show ?thesis
      by (cases op; cases c) (auto simp: cl_defs fwd_defs as_forward_def tcp_phase_def Let_def split: list.splits)
  next
    case 2
    with assms d show ?thesis
      by (cases op; cases c) (auto simp: cl_defs fwd_defs as_forward_def tcp_phase_def Let_def split: list.splits)
  next
    case 3
    with assms d show ?thesis
      by (cases op; cases c) (auto simp: cl_defs fwd_defs as_forward_def tcp_phase_def Let_def split: list.splits)
  qed
qed

end
