(* ===== verification/Client_Session_Runs.thy ===== *)
theory Client_Session_Runs
  imports Client_Session
begin

text \<open>
  Runs of a client session: what is said to the application while the request is negotiated,
  and the bytes of a TCP session, by the refinement of the forward session.
\<close>

section \<open>Negotiation\<close>

definition accepted_reply :: string where
  "accepted_reply = [CHR 0x05, CHR 0x00]"

definition quiet :: "ClientSession \<Rightarrow> client_view \<Rightarrow> bool" where
  "quiet s v \<longleftrightarrow> cs_recv_len s = 0 \<and> cs_sent_len s = 0 \<and> \<not> cs_first_packet_recv s \<and> cs_in_open s \<and> \<not> cs_out_open s \<and>
     cs_udp_data_buf s = [] \<and> (cv_trace v)\<lparr>tr_in_off := 0\<rparr> = empty_trace \<and> cv_datagrams v = []"

text \<open>The operation that is pending during the negotiation.\<close>

definition neg_op_ok :: "string \<Rightarrow> tun_op \<Rightarrow> completion option \<Rightarrow> ClientSession \<Rightarrow> client_view \<Rightarrow> bool" where
  "neg_op_ok pw op c s v \<longleftrightarrow> c \<noteq> Some Aborted \<and>
     (op = Client_read \<and> cs_status s \<noteq> C_INVALID \<and> \<not> cs_is_udp s \<and> \<not> cs_udp_open s \<or>
      op = Client_write \<and>
        (cs_status s = C_HANDSHAKE \<longrightarrow> cs_in_write_data s = accepted_reply) \<and>
        (cs_status s = C_REQUEST \<longrightarrow>
           request_for pw (cs_is_udp s) (cs_target_host s) (cs_target_port s) (cs_out_write_buf s) \<and>
           (\<not> cs_is_udp s \<longrightarrow> cs_in_write_data s = connect_reply)) \<and>
        (cs_status s \<noteq> C_REQUEST \<longrightarrow> \<not> cs_is_udp s) \<and> (cs_udp_open s \<longleftrightarrow> cs_is_udp s)) \<and>
     (cs_status s \<noteq> C_INVALID \<longrightarrow>
        flow ((if cs_status s = C_REQUEST then accepted_reply else []) @ (if op = Client_write then cs_in_write_data s else []))
          (cv_said v) (tr_in_off (cv_trace v)) (cs_in_write_data s) (if op = Client_write then Some c else None))"

definition neg_inv :: "string \<Rightarrow> ClientSession \<Rightarrow> client_view \<Rightarrow> bool" where
  "neg_inv pw s v \<longleftrightarrow> (\<exists>op c. cs_pending s = [(op, c)] \<and> neg_op_ok pw op c s v) \<and> quiet s v"

definition tcp_inv :: "string \<Rightarrow> ClientSession \<Rightarrow> client_view \<Rightarrow> bool" where
  "tcp_inv pw s v \<longleftrightarrow> tcp_phase s \<and> no_relay_ops (cs_pending s) \<and>
     (\<exists>req. fwd_inv req (as_forward s) (cv_trace v) \<and>
        (request_for pw False (cs_target_host s) (cs_target_port s) req \<and> cv_said v = accepted_reply @ connect_reply \<or>
         cs_status s = C_DESTROY \<and> tr_out_wire (cv_trace v) = [] \<and> tr_in_wire (cv_trace v) = []))"

text \<open>A UDP association: the wire of the tunnel carries the request and the frames of the accepted
  datagrams, and the datagrams sent to the application are those of the frames that came back.\<close>

definition replies :: "string \<Rightarrow> string list" where
  "replies bytes = fst (drain reply_decode bytes)"

definition unsent :: "tun_ops \<Rightarrow> string \<Rightarrow> string list" where
  "unsent downs data =
     (case downs of [(Relay_write ep, c)] \<Rightarrow> if c = Some Done then [] else [data] | _ \<Rightarrow> [])"

definition udp_requested :: "string \<Rightarrow> ClientSession \<Rightarrow> string \<Rightarrow> bool" where
  "udp_requested pw s req \<longleftrightarrow> request_for pw True (cs_target_host s) (cs_target_port s) req"

definition udp_at :: "string \<Rightarrow> string \<Rightarrow> ClientSession \<Rightarrow> client_view \<Rightarrow> bool" where
  "udp_at pw req s v \<longleftrightarrow> cs_is_udp s \<and>
     (let ps = cs_pending s; tr = cv_trace v
      in udp_requested pw s req \<and>
         (case cs_status s of
            C_CONNECT \<Rightarrow> tun_closers ps = [] \<and> cs_in_open s \<and> cs_udp_open s \<and> length (connecting ps) = 1 \<and>
              (\<not> cs_out_open s \<longrightarrow> map fst (connecting ps) = [Proxy_resolve]) \<and> tun_writes ps = [] \<and> udp_downs ps = [] \<and>
              length (live_relays ps) \<le> (if cs_first_packet_recv s then 0 else 1) \<and> cs_out_write_buf s = req @ tr_up tr \<and>
              tr_out_wire tr = [] \<and> tr_out_off tr = 0 \<and> tr_down tr = [] \<and> cs_udp_data_buf s = [] \<and> cv_datagrams v = []
          | C_UDP_FORWARD \<Rightarrow> tun_closers ps = [] \<and> cs_in_open s \<and> cs_udp_open s \<and> cs_out_open s \<and> length (udp_downs ps) = 1 \<and>
              length (tun_writes ps) + length (live_relays ps) \<le> 1 \<and>
              flow (req @ tr_up tr) (tr_out_wire tr) (tr_out_off tr) (cs_out_write_data s) (write_of Tunnel_write (tun_writes ps)) \<and>
              replies (tr_down tr) = cv_datagrams v @ unsent (udp_downs ps) (cs_udp_write_data s) @ replies (cs_udp_data_buf s) \<and>
              snd (drain reply_decode (cs_udp_data_buf s)) = snd (drain reply_decode (tr_down tr)) \<and>
              (map fst (udp_downs ps) = [Tunnel_read] \<longrightarrow> reply_decode (cs_udp_data_buf s) = None)
          | C_DESTROY \<Rightarrow> \<not> in_flight Tunnel_write ps \<and> (\<forall>ep. \<not> in_flight (Relay_write ep) ps) \<and>
              is_prefix (tr_out_wire tr) (req @ tr_up tr) \<and> is_prefix (cv_datagrams v) (replies (tr_down tr))
          | _ \<Rightarrow> False))"

definition udp_inv :: "string \<Rightarrow> ClientSession \<Rightarrow> client_view \<Rightarrow> bool" where
  "udp_inv pw s v \<longleftrightarrow> (\<exists>req. udp_at pw req s v)"

definition cl_inv :: "string \<Rightarrow> ClientSession \<Rightarrow> client_view \<Rightarrow> bool" where
  "cl_inv pw s v \<longleftrightarrow>
     (if negotiating s then neg_inv pw s v else if cs_is_udp s then udp_inv pw s v else tcp_inv pw s v)"

lemma cl_destroy_status [simp]: "cs_status (cl_destroy s) = C_DESTROY" "cs_is_udp (cl_destroy s) = cs_is_udp s"
  by (auto simp: cl_destroy_def cs_begin_def cs_cancel_def Let_def)

lemma fwd_inv_negotiation_ended:
  assumes "cs_recv_len s = 0" and "cs_sent_len s = 0" and "cs_in_open s" and "\<not> cs_out_open s" and "cs_pending s = [] \<or> cs_pending s = [(Client_write, Some c)]"
    and "(tr :: io_trace)\<lparr>tr_in_off := n\<rparr> = empty_trace"
  shows "fwd_inv req (as_forward (cl_destroy s)) tr"
proof -
  have "tr_up tr = []" "tr_down tr = []" "tr_in_wire tr = []" "tr_out_wire tr = []"
    using arg_cong [OF assms(6), of tr_up] arg_cong [OF assms(6), of tr_down] arg_cong [OF assms(6), of tr_in_wire]
      arg_cong [OF assms(6), of tr_out_wire] by (simp_all add: empty_trace_def)
  with assms show ?thesis
    by (auto simp: fwd_inv_def Let_def as_forward_def cl_destroy_def cs_begin_def cs_cancel_def in_flight_def is_prefix_def abort_ops_def)
qed

lemma cl_request_cases:
  assumes "cl_request cfg os data s = Inr s'" and "first_password cfg = Inr pw" and "find_sub crlf pw = None"
  obtains (bad) "s' = cl_destroy s"
  | (unsupported) "s' = (cl_in_async_write_buffer unsupported_reply s)\<lparr>cs_status := C_INVALID\<rparr>"
  | (tcp) req host p where "request_for pw False host p req"
      "s' = (cl_in_async_write_buffer connect_reply (s\<lparr>cs_target_host := host, cs_target_port := p, cs_is_udp := False\<rparr>))\<lparr>cs_out_write_buf := req\<rparr>"
  | (udp) req host p ep where "request_for pw True host p req"
      "s' = (cl_in_async_write_buffer ([CHR 0x05, CHR 0x00, CHR 0x00] @ socks5_generate ep)
          (s\<lparr>cs_target_host := host, cs_target_port := p, cs_is_udp := True, cs_udp_open := True\<rparr>))\<lparr>cs_out_write_buf := req\<rparr>"
  | (udp_closed) req host p where "request_for pw True host p req"
      "s' = cl_destroy (s\<lparr>cs_target_host := host, cs_target_port := p, cs_is_udp := True\<rparr>)"
proof (cases "length data < 7 \<or> data ! 0 \<noteq> CHR 0x05 \<or> data ! 2 \<noteq> CHR 0x00")
  case True
  with assms(1) bad show thesis by (simp add: cl_request_def)
next
  case False
  let ?req = "pw @ crlf @ [data ! 1] @ drop 3 data @ crlf"
  obtain r x where p: "trojan_parse blank_request ?req = Inr (r, x)" using trojan_parse_no_exn by fastforce
  show thesis
  proof (cases "x = -1")
    case True
    with False assms p unsupported show thesis by (simp add: cl_request_def tunnel_request_Inr bind_exn_def)
  next
    case x: False
    with p have tr: "trojan_request r ?req" using trojan_parse_sound by blast
    then have "req_password r = pw" using request_password [OF _ assms(3)] by simp
    then have rf: "request_for pw (req_command r = UDP_ASSOCIATE) (address (req_address r)) (port (req_address r)) ?req"
      using tr unfolding request_for_def by blast
    show thesis
    proof (cases "req_command r = UDP_ASSOCIATE")
      case udp': True
      let ?s = "s\<lparr>cs_target_host := address (req_address r), cs_target_port := port (req_address r), cs_is_udp := True\<rparr>"
      have "cl_udp_associate os ?req ?s = Inr s'"
        using assms(1,2) False p x udp' by (simp add: cl_request_def tunnel_request_Inr bind_exn_def Let_def)
      then show thesis using rf udp' udp udp_closed
        by (auto simp: cl_udp_associate_def split: option.splits if_splits)
    next
      case False': False
      have "s' = (cl_in_async_write_buffer connect_reply
          (s\<lparr>cs_target_host := address (req_address r), cs_target_port := port (req_address r), cs_is_udp := False\<rparr>))\<lparr>cs_out_write_buf := ?req\<rparr>"
        using assms(1,2) False p x False' by (simp add: cl_request_def tunnel_request_Inr bind_exn_def Let_def)
      then show thesis using rf False' tcp by simp
    qed
  qed
qed

text \<open>Leaving the negotiation.\<close>

lemma empty_trace_off [simp]: "tr_in_off empty_trace = 0" "empty_trace\<lparr>tr_in_off := 0\<rparr> = empty_trace"
  by (simp_all add: empty_trace_def)

lemma quiet_trace:
  assumes "quiet s v"
  shows "tr_up (cv_trace v) = []" "tr_down (cv_trace v) = []" "tr_in_wire (cv_trace v) = []" "tr_out_wire (cv_trace v) = []"
    "tr_out_off (cv_trace v) = 0" "cv_datagrams v = []"
proof -
  have e: "(cv_trace v)\<lparr>tr_in_off := 0\<rparr> = empty_trace" using assms by (simp add: quiet_def)
  show "tr_up (cv_trace v) = []" "tr_down (cv_trace v) = []" "tr_in_wire (cv_trace v) = []" "tr_out_wire (cv_trace v) = []"
    "tr_out_off (cv_trace v) = 0"
    using arg_cong [OF e, of tr_up] arg_cong [OF e, of tr_down] arg_cong [OF e, of tr_in_wire]
      arg_cong [OF e, of tr_out_wire] arg_cong [OF e, of tr_out_off] by (simp_all add: empty_trace_def)
  show "cv_datagrams v = []" using assms by (simp add: quiet_def)
qed

lemma replies_Nil [simp]: "replies [] = []" "drain reply_decode [] = ([], [])"
proof -
  show "drain reply_decode [] = ([], [])" by (rule reply_stream.drain_None) code_simp
  then show "replies [] = []" by (simp add: replies_def)
qed

lemma neg_destroy_inv:
  assumes "quiet s v" and "cs_pending s = []" and "cs_status s \<noteq> C_DESTROY"
    and "if cs_is_udp s then udp_requested pw s req else \<not> cs_udp_open s"
  shows "cl_inv pw (cl_destroy s) v"
proof -
  note t = quiet_trace [OF assms(1)]
  have p: "cs_pending (cl_destroy s) = []" "cs_udp_open (cl_destroy s) = False" "cs_target_host (cl_destroy s) = cs_target_host s"
      "cs_target_port (cl_destroy s) = cs_target_port s"
    using assms(1-3) by (auto simp: cl_destroy_def quiet_def cs_cancel_def Let_def abort_ops_def)
  show ?thesis
  proof (cases "cs_is_udp s")
    case True
    with assms t p show ?thesis
      by (auto simp: cl_inv_def negotiating_def udp_inv_def udp_at_def Let_def udp_requested_def in_flight_def is_prefix_def)
  next
    case False
    have "fwd_inv req (as_forward (cl_destroy s)) (cv_trace v)"
      using assms(1-3) t False p by (intro fwd_inv_negotiation_ended) (auto simp: quiet_def)
    with False p t show ?thesis
      by (auto simp: cl_inv_def negotiating_def tcp_inv_def tcp_phase_def no_relay_ops_def)
  qed
qed

lemma neg_pending [simp]:
  "neg_op_ok pw op c (s\<lparr>cs_pending := ps\<rparr>) v = neg_op_ok pw op c s v" "quiet (s\<lparr>cs_pending := ps\<rparr>) v = quiet s v"
  "negotiating (s\<lparr>cs_pending := ps\<rparr>) = negotiating s"
  by (simp_all add: neg_op_ok_def quiet_def negotiating_def cong: if_cong)

lemma neg_ready_inv:
  assumes "neg_inv pw s v" and "negotiating s" and "i < length (cs_pending s)" and "cs_pending s ! i = (op, None)"
    and "tun_admissible ir outr ur (tr_in_off (cv_trace v) = length (cs_in_write_data s)) ow op c"
  shows "cl_inv pw ((cl_arrive c s)\<lparr>cs_pending := (cs_pending s)[i := (op, Some c)]\<rparr>) (cl_sends op c s v)"
proof -
  from assms(1,3,4) have p: "cs_pending s = [(op, None)]" "i = 0" and ok: "neg_op_ok pw op None s v" and q: "quiet s v"
    by (auto simp: neg_inv_def)
  from ok have op: "op = Client_read \<or> op = Client_write" by (auto simp: neg_op_ok_def)
  then have "cl_sends op c s v = v" by auto
  moreover have "cl_arrive c s = s" using op assms(5) by (cases c) auto
  moreover have "neg_op_ok pw op (Some c) (s\<lparr>cs_pending := [(op, Some c)]\<rparr>) v"
    using ok op assms(5) by (cases c) (auto simp: neg_op_ok_def flow_def)
  ultimately show ?thesis using p q assms(2) by (simp add: cl_inv_def negotiating_def neg_inv_def quiet_def)
qed

lemma neg_in_progress_inv:
  assumes "neg_inv pw s v" and "negotiating s" and "(Client_write, None) \<in> set (cs_pending s)"
    and "tr_in_off (cv_trace v) + k \<le> length (cs_in_write_data s)"
  shows "cl_inv pw s (cl_in_progressed k s v)"
proof -
  from assms(1,3) have p: "cs_pending s = [(Client_write, None)]" and ok: "neg_op_ok pw Client_write None s v" and q: "quiet s v"
    by (auto simp: neg_inv_def)
  have "neg_op_ok pw Client_write None s (cl_in_progressed k s v)"
    using ok assms(2,4) by (auto simp: neg_op_ok_def cl_in_progressed_def Let_def intro: flow_progress)
  moreover have "quiet s (cl_in_progressed k s v)"
    using q assms(2) by (auto simp: quiet_def cl_in_progressed_def Let_def)
  ultimately show ?thesis using p assms(2) by (simp add: cl_inv_def neg_inv_def)
qed

lemma neg_read_inv:
  assumes "negotiating s" and "cs_pending s = []" and "neg_op_ok pw Client_read (Some (Received data)) s v" and "quiet s v"
    and "cl_in_recv cfg os data s = Inr s'" and "first_password cfg = Inr pw" and "find_sub crlf pw = None"
  shows "cl_inv pw s' v"
proof -
  let ?s = "s\<lparr>cs_in_read_size := grow_after_read (cs_in_read_size s) (length data)\<rparr>"
  from assms(3) have st: "cs_status s \<noteq> C_INVALID" "\<not> cs_is_udp s" "\<not> cs_udp_open s"
    and fl: "cv_said v = (if cs_status s = C_REQUEST then accepted_reply else [])" "tr_in_off (cv_trace v) = 0"
    by (auto simp: neg_op_ok_def flow_def)
  have d: "cl_inv pw (cl_destroy ?s) v"
    using assms(1,2,4) st by (intro neg_destroy_inv [where req = "[]"]) (auto simp: quiet_def negotiating_def)
  have q: "quiet ?s v" using assms(4) by (simp add: quiet_def)
  from assms(1) st consider "cs_status s = C_HANDSHAKE" | "cs_status s = C_REQUEST" by (auto simp: negotiating_def)
  then show ?thesis
  proof cases
    case 1
    with assms(5) have "s' = cl_handshake data ?s" by (simp add: cl_in_recv_def)
    with 1 d st fl q assms(2) show ?thesis
      by (auto simp: cl_handshake_def cl_in_async_write_buffer_def cs_begin_def begin_op_def cl_inv_def negotiating_def neg_inv_def
          neg_op_ok_def quiet_def flow_def accepted_reply_def)
  next
    case 2
    with assms(5) have "cl_request cfg os data ?s = Inr s'" by (simp add: cl_in_recv_def)
    from this assms(6,7) show ?thesis
    proof (cases rule: cl_request_cases)
      case bad
      with d show ?thesis by simp
    next
      case (udp_closed req host p)
      have "cl_inv pw (cl_destroy (?s\<lparr>cs_target_host := host, cs_target_port := p, cs_is_udp := True\<rparr>)) v"
        using udp_closed(1) q 2 assms(2) by (intro neg_destroy_inv [where req = req]) (auto simp: quiet_def udp_requested_def)
      with udp_closed show ?thesis by simp
    qed (use 2 st fl q assms(2) in \<open>auto simp: cl_in_async_write_buffer_def cs_begin_def begin_op_def cl_inv_def negotiating_def
        neg_inv_def neg_op_ok_def quiet_def flow_def\<close>)
  qed
qed

lemma neg_write_inv:
  assumes "negotiating s" and "cs_pending s = []" and "neg_op_ok pw Client_write (Some c) s v" and "quiet s v"
  shows "cl_inv pw (if c = Done then cl_in_sent s else cl_destroy s) (v\<lparr>cv_trace := (cv_trace v)\<lparr>tr_in_off := 0\<rparr>\<rparr>)"
proof -
  let ?v = "v\<lparr>cv_trace := (cv_trace v)\<lparr>tr_in_off := 0\<rparr>\<rparr>"
  have q: "quiet s ?v" using assms(4) by (auto simp: quiet_def empty_trace_def)
  note t = quiet_trace [OF q] and ok = assms(3) [unfolded neg_op_ok_def]
  have d: "cl_inv pw (cl_destroy s) ?v"
    using assms(1,2) q ok by (intro neg_destroy_inv [where req = "cs_out_write_buf s"]) (auto simp: negotiating_def udp_requested_def)
  show ?thesis
  proof (cases "c = Done \<and> cs_status s \<noteq> C_INVALID")
    case False
    with d show ?thesis by (auto simp: cl_in_sent_def)
  next
    case True
    then have said: "cv_said v = (if cs_status s = C_REQUEST then accepted_reply else []) @ cs_in_write_data s"
      using ok by (auto simp: flow_def split: if_splits)
    from True assms(1) consider "cs_status s = C_HANDSHAKE" | "cs_status s = C_REQUEST" by (auto simp: negotiating_def)
    then show ?thesis
    proof cases
      case 1
      with True ok said q assms(2) show ?thesis
        by (auto simp: cl_in_sent_def cs_begin_def begin_op_def cl_inv_def negotiating_def neg_inv_def neg_op_ok_def quiet_def flow_def write_of_def)
    next
      case 2
      with ok have rf: "request_for pw (cs_is_udp s) (cs_target_host s) (cs_target_port s) (cs_out_write_buf s)"
        "cs_udp_open s = cs_is_udp s" "\<not> cs_is_udp s \<longrightarrow> cs_in_write_data s = connect_reply" by simp_all
      show ?thesis
      proof (cases "cs_is_udp s")
        case False
        then have "fwd_inv (cs_out_write_buf s) (as_forward (cl_in_sent s)) (cv_trace ?v)"
          using q t 2 assms(2)
          by (auto simp: quiet_def cl_in_sent_def cs_begin_def begin_op_def as_forward_def fwd_inv_def Let_def tun_lists)
        with False 2 True rf said assms(2) show ?thesis
          by (auto simp: cl_inv_def negotiating_def tcp_inv_def tcp_phase_def no_relay_ops_def cl_in_sent_def cs_begin_def begin_op_def)
      next
        case udp: True
        with 2 True rf q t assms(2) show ?thesis
          by (auto simp: cl_inv_def negotiating_def udp_inv_def udp_at_def udp_requested_def Let_def cl_in_sent_def cs_begin_def begin_op_def
              quiet_def tun_lists live_relays_def udp_downs_def)
      qed
    qed
  qed
qed

lemma neg_run_inv:
  assumes "neg_inv pw s v" and "negotiating s" and "i < length (cs_pending s)" and "cs_pending s ! i = (op, Some c)"
    and "cl_on_complete cfg os op c (s\<lparr>cs_pending := remove_nth i (cs_pending s)\<rparr>) = Inr s'"
    and "first_password cfg = Inr pw" and "find_sub crlf pw = None"
  shows "cl_inv pw s' (cl_look os s op c v)"
proof -
  let ?s = "s\<lparr>cs_pending := []\<rparr>"
  from assms(1,3,4) have p: "cs_pending s = [(op, Some c)]" "i = 0" and ok: "neg_op_ok pw op (Some c) s v" and q: "quiet s v"
    by (auto simp: neg_inv_def)
  have r: "remove_nth i (cs_pending s) = []" using p by (simp add: remove_nth_def)
  have n: "negotiating ?s" "neg_op_ok pw op (Some c) ?s v" "quiet ?s v" "cs_pending ?s = []"
    using ok q assms(2) by simp_all
  from ok have "op = Client_read \<or> op = Client_write" by (auto simp: neg_op_ok_def)
  then show ?thesis
  proof
    assume op: "op = Client_write"
    with neg_write_inv [OF n(1,4) _ n(3), of pw c] n(2) assms(5) r show ?thesis by (simp add: cl_look_def)
  next
    assume op: "op = Client_read"
    show ?thesis
    proof (cases c)
      case (Received data)
      have "cl_look os s op c v = v" using op Received assms(2) by (auto simp: cl_look_def negotiating_def)
      with neg_read_inv [OF n(1,4) _ n(3) _ assms(6,7), of data os s'] n(2) op Received assms(5) r show ?thesis by simp
    next
      case Aborted
      with ok show ?thesis by (simp add: neg_op_ok_def)
    qed (use assms(2,5) op r n ok in \<open>auto simp: cl_look_def neg_op_ok_def negotiating_def intro!: neg_destroy_inv [where req = "[]"]\<close>)
  qed
qed

section \<open>TCP sessions\<close>

lemma no_relay_simps [simp]:
  "no_relay_ops (begin_op op ps) \<longleftrightarrow> no_relay_ops ps \<and> tun_object_of op \<noteq> Relay_socket"
  "no_relay_ops (abort_ops obj ps) \<longleftrightarrow> no_relay_ops ps"
  by (auto simp: no_relay_ops_def begin_op_def abort_ops_def list_all_iff)

lemma no_relay_remove: "no_relay_ops ps \<Longrightarrow> no_relay_ops (remove_nth i ps)"
  by (auto simp: no_relay_ops_def remove_nth_def list_all_iff dest: in_set_takeD in_set_dropD)

lemma no_relay_update: "no_relay_ops ps \<Longrightarrow> tun_object_of op \<noteq> Relay_socket \<Longrightarrow> no_relay_ops (ps[i := (op, c)])"
  by (auto simp: no_relay_ops_def list_all_iff dest!: set_update_subset_insert [THEN subsetD])

lemma no_relay_nth: "no_relay_ops ps \<Longrightarrow> i < length ps \<Longrightarrow> ps ! i = (op, c) \<Longrightarrow> tun_object_of op \<noteq> Relay_socket"
  by (auto simp: no_relay_ops_def list_all_length)

lemma no_relay_destroy: "no_relay_ops (fs_pending s) \<Longrightarrow> no_relay_ops (fs_pending (fwd_destroy s))"
  by (simp add: fwd_destroy_def Let_def)

lemma no_relay_run: "no_relay_ops (fs_pending s) \<Longrightarrow> no_relay_ops (fs_pending (fwd_on_complete ok op c s))"
  by (cases op; cases c) (auto simp: no_relay_destroy fwd_in_recv_def fwd_in_sent_def fwd_out_recv_def fwd_out_sent_def
      fwd_resolved_def fwd_connected_def fwd_established_def fwd_shutdown_cb_def fwd_in_async_write_buffer_def
      fwd_out_async_write_buffer_def Let_def split: list.splits)

lemma tun_admissible_no_relay:
  "tun_object_of op \<noteq> Relay_socket \<Longrightarrow> tun_admissible a b u iw ow op c = tun_admissible a b u' iw ow op c"
  by (cases op; cases c) auto

lemma tun_admissible_no_datagram:
  assumes "tun_object_of op \<noteq> Relay_socket" and "tun_admissible a b u iw ow op c"
  shows "cl_arrive c s = s" and "cl_sends op c s v = v"
proof -
  have "c \<noteq> Datagram d ep" for d ep using assms by (cases op) auto
  then show "cl_arrive c s = s" by (cases c) auto
  show "cl_sends op c s v = v" using assms(1) by (cases op) simp_all
qed

lemma cl_note_tcp: "tcp_phase s \<Longrightarrow> tun_object_of op \<noteq> Relay_socket \<Longrightarrow> cl_note os s op c tr = fwd_note (as_forward s) op c tr"
  by (cases op; cases c) (auto simp: tcp_phase_def)

lemma cl_orderly_tcp: "tcp_phase s \<Longrightarrow> cl_orderly s op c \<Longrightarrow> orderly (as_forward s) op c"
  by (auto simp: tcp_phase_def cl_orderly_def orderly_def list_all_iff)

lemma cl_destroy_target [simp]:
  "cs_target_host (cl_destroy s) = cs_target_host s" "cs_target_port (cl_destroy s) = cs_target_port s"
  by (simp_all add: cl_destroy_def cs_begin_def cs_cancel_def Let_def)

lemma tcp_target:
  assumes "tcp_phase s" and "tun_object_of op \<noteq> Relay_socket" and "cl_on_complete cfg os op c s = Inr s'"
  shows "cs_target_host s' = cs_target_host s \<and> cs_target_port s' = cs_target_port s"
  using assms(1)
proof (cases rule: tcp_phase_status)
  case 1
  with assms(2,3) show ?thesis by (cases op; cases c) (auto simp: cl_defs Let_def split: list.splits)
next
  case 2
  with assms(2,3) show ?thesis by (cases op; cases c) (auto simp: cl_defs Let_def split: list.splits)
next
  case 3
  with assms(2,3) show ?thesis by (cases op; cases c) (auto simp: cl_defs Let_def split: list.splits)
qed

lemma as_forward_pending: "as_forward (s\<lparr>cs_pending := ps\<rparr>) = (as_forward s)\<lparr>fs_pending := ps\<rparr>"
  by (simp add: as_forward_def)

text \<open>Every orderly step of a TCP session is an orderly step of the forward session.\<close>

lemma tcp_step_simulates:
  assumes "cl_step True cfg (s, v) (s', v')" and "tcp_phase s" and "no_relay_ops (cs_pending s)"
  shows "fwd_step True (as_forward s, cv_trace v) (as_forward s', cv_trace v') \<and> tcp_phase s' \<and> no_relay_ops (cs_pending s') \<and>
     cs_target_host s' = cs_target_host s \<and> cs_target_port s' = cs_target_port s \<and> cv_said v' = cv_said v"
  using assms(1)
proof cases
  case (cl_ready i op c)
  then have o: "tun_object_of op \<noteq> Relay_socket" using no_relay_nth [OF assms(3)] by blast
  with cl_ready have "cl_arrive c s = s" "cl_sends op c s v = v" using tun_admissible_no_datagram by blast+
  moreover have "fwd_step True (as_forward s, cv_trace v)
      ((as_forward s)\<lparr>fs_pending := (cs_pending s)[i := (op, Some c)]\<rparr>, cv_trace v)"
    using fwd_ready [of i "as_forward s" op "cv_trace v" c True] cl_ready tun_admissible_no_relay [OF o, of _ _ "cs_udp_read_size s" _ _ c 0]
    by simp
  ultimately show ?thesis using cl_ready assms(2) no_relay_update [OF assms(3) o, of i "Some c"]
    by (simp add: as_forward_pending tcp_phase_def)
next
  case (cl_in_progress k)
  have "\<not> negotiating s" using assms(2) by (auto simp: tcp_phase_def negotiating_def)
  with cl_in_progress assms(2,3) show ?thesis
    using fwd_in_progress [of "as_forward s" "cv_trace v" k True] by (simp add: cl_in_progressed_def Let_def)
next
  case (cl_out_progress k)
  with assms(2,3) show ?thesis
    using fwd_out_progress [of "as_forward s" "cv_trace v" k True] by (simp add: cl_out_progressed_def Let_def)
next
  case (cl_run i op c os)
  let ?s = "s\<lparr>cs_pending := remove_nth i (cs_pending s)\<rparr>"
  have o: "tun_object_of op \<noteq> Relay_socket" using no_relay_nth [OF assms(3)] cl_run by blast
  have t: "tcp_phase ?s" using assms(2) by (simp add: tcp_phase_def)
  from tcp_run [OF t o, of cfg os c] cl_run have r: "as_forward s' = fwd_on_complete (os_open_ok os) op c (as_forward ?s)" "tcp_phase s'"
    by auto
  have "fwd_step True (as_forward s, cv_trace v)
      (fwd_on_complete (os_open_ok os) op c ((as_forward s)\<lparr>fs_pending := remove_nth i (cs_pending s)\<rparr>), fwd_note (as_forward s) op c (cv_trace v))"
    using fwd_run [of i "as_forward s" op c True "cv_trace v" "os_open_ok os"] cl_run cl_orderly_tcp [OF assms(2)] by simp
  moreover have "no_relay_ops (fs_pending (as_forward s'))"
    using r no_relay_run [of "as_forward ?s"] no_relay_remove [OF assms(3)] by simp
  then have "no_relay_ops (cs_pending s')" by (simp only: as_forward_fields)
  ultimately show ?thesis
    using r cl_run tcp_target [OF t o, of cfg os c s'] cl_note_tcp [OF assms(2) o] by (simp add: cl_look_def as_forward_pending)
qed

text \<open>A session that has ended says nothing more.\<close>

lemma fwd_note_wires [simp]:
  "tr_out_wire (fwd_note s op c tr) = tr_out_wire tr" "tr_in_wire (fwd_note s op c tr) = tr_in_wire tr"
  by (cases op; cases c; simp)+

lemma fwd_destroyed_stays:
  assumes "fwd_step True (s, tr) (s', tr')" and "fs_status s = F_DESTROY" and "fwd_inv req s tr"
  shows "fs_status s' = F_DESTROY \<and> tr_out_wire tr' = tr_out_wire tr \<and> tr_in_wire tr' = tr_in_wire tr"
  using assms(1)
proof cases
  case (fwd_run i op c ok)
  have d: "fwd_destroy x = x" if "fs_status x = F_DESTROY" for x using that by (simp add: fwd_destroy_def)
  have "fs_status (fwd_on_complete ok op c x) = F_DESTROY" if "fs_status x = F_DESTROY" for x
    using fwd_run that assms(2) d [OF that]
    by (cases op; cases c) (auto simp: orderly_def fwd_in_recv_def fwd_in_sent_def fwd_out_recv_def fwd_out_sent_def
        fwd_resolved_def fwd_connected_def fwd_established_def fwd_shutdown_cb_def Let_def)
  with fwd_run assms(2) show ?thesis by simp
qed (use assms in \<open>auto simp: fwd_inv_def Let_def in_flight_def\<close>)

lemma tcp_step_inv:
  assumes "cl_step True cfg (s, v) (s', v')" and "tcp_inv pw s v"
  shows "cl_inv pw s' v'"
proof -
  from assms(2) obtain req where t: "tcp_phase s" "no_relay_ops (cs_pending s)" and f: "fwd_inv req (as_forward s) (cv_trace v)"
    and r: "request_for pw False (cs_target_host s) (cs_target_port s) req \<and> cv_said v = accepted_reply @ connect_reply \<or>
         cs_status s = C_DESTROY \<and> tr_out_wire (cv_trace v) = [] \<and> tr_in_wire (cv_trace v) = []"
    by (auto simp: tcp_inv_def)
  note sim = tcp_step_simulates [OF assms(1) t]
  have f': "fwd_inv req (as_forward s') (cv_trace v')" using fwd_step_inv sim f by blast
  have st: "cs_status s' = C_DESTROY \<longleftrightarrow> fs_status (as_forward s') = F_DESTROY" using sim by (auto simp: tcp_phase_def)
  have "cs_status s = C_DESTROY \<Longrightarrow> cs_status s' = C_DESTROY \<and> tr_out_wire (cv_trace v') = tr_out_wire (cv_trace v) \<and>
      tr_in_wire (cv_trace v') = tr_in_wire (cv_trace v)"
    using fwd_destroyed_stays [of "as_forward s" "cv_trace v" "as_forward s'" "cv_trace v'" req] sim f unfolding st by simp
  with r sim f' have "tcp_inv pw s' v'" unfolding tcp_inv_def by metis
  with sim show ?thesis by (auto simp: cl_inv_def negotiating_def tcp_phase_def)
qed

interpretation tcp_client: forward_refinement
  "\<lambda>c. (as_forward (fst c), cv_trace (snd c))" "\<lambda>c. tcp_phase (fst c) \<and> no_relay_ops (cs_pending (fst c))" "cl_step True cfg" for cfg
proof
  fix c c' :: "ClientSession \<times> client_view"
  assume "cl_step True cfg c c'" and "tcp_phase (fst c) \<and> no_relay_ops (cs_pending (fst c))"
  then show "fwd_step True (as_forward (fst c), cv_trace (snd c)) (as_forward (fst c'), cv_trace (snd c')) \<and>
      tcp_phase (fst c') \<and> no_relay_ops (cs_pending (fst c'))"
    using tcp_step_simulates [of cfg "fst c" "snd c" "fst c'" "snd c'"] by simp
qed

end
