(* ===== verification/Client_Udp_Runs.thy ===== *)
theory Client_Udp_Runs
  imports Client_Session_Runs
begin

text \<open>
  Runs of a UDP association of the client: the request and the frames of the application's
  datagrams go into the tunnel in order, and the datagrams sent to the application are those
  of the frames that come back, however the tunnel's bytes were cut into reads.
\<close>

section \<open>Ending the association\<close>

lemma cs_frame [simp]:
  "cs_pending (cs_begin op s) = begin_op op (cs_pending s)" "cs_pending (cs_cancel obj s) = abort_ops obj (cs_pending s)"
  "cs_status (cs_begin op s) = cs_status s" "cs_status (cs_cancel obj s) = cs_status s"
  "cs_is_udp (cs_begin op s) = cs_is_udp s" "cs_is_udp (cs_cancel obj s) = cs_is_udp s"
  "cs_first_packet_recv (cs_begin op s) = cs_first_packet_recv s" "cs_first_packet_recv (cs_cancel obj s) = cs_first_packet_recv s"
  "cs_target_host (cs_begin op s) = cs_target_host s" "cs_target_host (cs_cancel obj s) = cs_target_host s"
  "cs_target_port (cs_begin op s) = cs_target_port s" "cs_target_port (cs_cancel obj s) = cs_target_port s"
  "cs_out_write_data (cs_begin op s) = cs_out_write_data s" "cs_out_write_data (cs_cancel obj s) = cs_out_write_data s"
  "cs_udp_write_data (cs_begin op s) = cs_udp_write_data s" "cs_udp_write_data (cs_cancel obj s) = cs_udp_write_data s"
  "cs_out_write_buf (cs_begin op s) = cs_out_write_buf s" "cs_out_write_buf (cs_cancel obj s) = cs_out_write_buf s"
  "cs_udp_data_buf (cs_begin op s) = cs_udp_data_buf s" "cs_udp_data_buf (cs_cancel obj s) = cs_udp_data_buf s"
  "cs_in_open (cs_begin op s) = cs_in_open s" "cs_in_open (cs_cancel obj s) = cs_in_open s"
  "cs_out_open (cs_begin op s) = cs_out_open s" "cs_out_open (cs_cancel obj s) = cs_out_open s"
  "cs_udp_open (cs_begin op s) = cs_udp_open s" "cs_udp_open (cs_cancel obj s) = cs_udp_open s"
  by (simp_all add: cs_begin_def cs_cancel_def)

definition udp_closable :: "string \<Rightarrow> string \<Rightarrow> ClientSession \<Rightarrow> client_view \<Rightarrow> bool" where
  "udp_closable pw req s v \<longleftrightarrow> cs_is_udp s \<and> udp_requested pw s req \<and>
     is_prefix (tr_out_wire (cv_trace v)) (req @ tr_up (cv_trace v)) \<and> is_prefix (cv_datagrams v) (replies (tr_down (cv_trace v))) \<and>
     (if cs_status s = C_DESTROY
      then \<not> in_flight Tunnel_write (cs_pending s) \<and> (\<forall>ep. \<not> in_flight (Relay_write ep) (cs_pending s))
      else cs_udp_open s \<and> (in_flight Tunnel_write (cs_pending s) \<longrightarrow> cs_out_open s))"

lemma udp_at_prefix:
  assumes "udp_at pw req s v"
  shows "is_prefix (tr_out_wire (cv_trace v)) (req @ tr_up (cv_trace v)) \<and> is_prefix (cv_datagrams v) (replies (tr_down (cv_trace v)))"
  using assms by (cases "cs_status s") (auto simp: udp_at_def Let_def is_prefix_def dest!: flow_prefix)

lemma udp_at_closable:
  assumes "udp_at pw req s v"
  shows "udp_closable pw req s v"
  using assms udp_at_prefix [OF assms] in_flight_writes [of "cs_pending s"]
  by (cases "cs_status s") (auto simp: udp_at_def udp_closable_def Let_def)

lemma udp_destroy: "udp_closable pw req s v \<Longrightarrow> udp_at pw req (cl_destroy s) v"
  by (auto simp: udp_closable_def cl_destroy_def udp_at_def Let_def udp_requested_def)

lemma udp_closable_remove:
  "udp_closable pw req s v \<Longrightarrow> udp_closable pw req (s\<lparr>cs_pending := remove_nth i (cs_pending s)\<rparr>) v"
  by (auto simp: udp_closable_def udp_requested_def dest: in_flight_remove split: if_splits)

section \<open>Steps of the environment\<close>

lemma unsent_simps [simp]:
  "unsent [] d = []" "unsent [(Tunnel_read, c)] d = []"
  "unsent [(Relay_write ep, c)] d = (if c = Some Done then [] else [d])"
  by (simp_all add: unsent_def)

lemma udp_ready_inv:
  assumes "i < length (cs_pending s)" and "cs_pending s ! i = (op, None)"
    and "tun_admissible (cs_in_read_size s) (cs_out_read_size s) (cs_udp_read_size s) iw
       (tr_out_off (cv_trace v) = length (cs_out_write_data s)) op c"
    and "udp_at pw req s v"
  shows "udp_at pw req ((cl_arrive c s)\<lparr>cs_pending := (cs_pending s)[i := (op, Some c)]\<rparr>) (cl_sends op c s v)"
proof -
  let ?ps = "(cs_pending s)[i := (op, Some c)]"
  have arr: "(cl_arrive c s)\<lparr>cs_pending := ?ps\<rparr> = (s\<lparr>cs_pending := ?ps\<rparr>)\<lparr>cs_udp_recv_endpoint := cs_udp_recv_endpoint (cl_arrive c s)\<rparr>"
    by (cases c) simp_all
  have ep: "udp_at pw req (x\<lparr>cs_udp_recv_endpoint := e\<rparr>) w = udp_at pw req x w" for x e w
    by (cases "cs_status x") (simp_all add: udp_at_def udp_requested_def Let_def)
  have snd: "cv_trace (cl_sends op c s v) = cv_trace v"
    "cv_datagrams (cl_sends op c s v) = cv_datagrams v @ (if c = Done \<and> (\<exists>ep. op = Relay_write ep) then [cs_udp_write_data s] else [])"
    by (cases op; cases c; simp)+
  note l = complete_lists [OF assms(1,2), of c]
  have len: "length (tun_writes ?ps) = length (tun_writes (cs_pending s))" "length (connecting ?ps) = length (connecting (cs_pending s))"
    "length (tun_closers ?ps) = length (tun_closers (cs_pending s))"
    using l by (metis length_map)+
  note r = complete_live_relays [OF assms(1,2), of c]
  have "udp_at pw req (s\<lparr>cs_pending := ?ps\<rparr>) (cl_sends op c s v)"
  proof (cases "cs_status s")
    case C_CONNECT
    with assms(4) have "udp_downs (cs_pending s) = []" by (simp add: udp_at_def Let_def)
    with complete_udp_downs(1) [OF assms(1,2), of c] complete_udp_downs(2) [OF assms(1,2)] have "\<not> is_udp_down op" "udp_downs ?ps = []" by (auto split: if_splits)
    with C_CONNECT assms(4) len l(3) r snd show ?thesis by (auto simp: udp_at_def udp_requested_def Let_def is_udp_down_def)
  next
    case C_DESTROY
    have "(op, None) \<in> set (cs_pending s)" using assms(1,2) nth_mem by metis
    with C_DESTROY assms(4) have "\<forall>ep. op \<noteq> Relay_write ep" by (auto simp: udp_at_def Let_def in_flight_def)
    with C_DESTROY assms(4) snd show ?thesis
      by (auto simp: udp_at_def udp_requested_def Let_def dest: complete_in_flight)
  next
    case C_UDP_FORWARD
    with assms(4) have one: "length (udp_downs (cs_pending s)) \<le> 1" "length (tun_writes (cs_pending s)) \<le> 1"
      by (auto simp: udp_at_def Let_def)
    note u = complete_udp_downs(1) [OF assms(1,2) one(1), of c] complete_udp_downs(2) [OF assms(1,2) one(1)]
    have w: "write_of Tunnel_write (tun_writes ?ps) =
        (if op = Tunnel_write then Some (Some c) else write_of Tunnel_write (tun_writes (cs_pending s)))"
      "op = Tunnel_write \<Longrightarrow> write_of Tunnel_write (tun_writes (cs_pending s)) = Some None"
      using complete_tunnel_write [OF assms(1,2) one(2)] by simp_all
    have o: "tr_out_off (cv_trace v) = length (cs_out_write_data s)" if "op = Tunnel_write" "c = Done" using assms(3) that by simp
    have "flow (req @ tr_up (cv_trace v)) (tr_out_wire (cv_trace v)) (tr_out_off (cv_trace v)) (cs_out_write_data s)
        (write_of Tunnel_write (tun_writes ?ps))"
      using C_UDP_FORWARD assms(4) w o by (cases "op = Tunnel_write") (auto simp: udp_at_def Let_def flow_def)
    moreover have "replies (tr_down (cv_trace v)) = cv_datagrams (cl_sends op c s v) @ unsent (udp_downs ?ps) (cs_udp_write_data s) @ replies (cs_udp_data_buf s)"
      using C_UDP_FORWARD assms(4) u snd by (cases "is_udp_down op") (auto simp: udp_at_def Let_def is_udp_down_def)
    moreover have m: "map fst (udp_downs ?ps) = map fst (udp_downs (cs_pending s))" using u by (cases "is_udp_down op") auto
    moreover have "length (udp_downs ?ps) = length (udp_downs (cs_pending s))" using m by (metis length_map)
    ultimately show ?thesis using C_UDP_FORWARD assms(4) len r snd by (simp add: udp_at_def udp_requested_def Let_def)
  qed (use assms(4) in \<open>simp_all add: udp_at_def Let_def\<close>)
  then show ?thesis using arr ep by metis
qed

lemma udp_out_progress_inv:
  assumes "(Tunnel_write, None) \<in> set (cs_pending s)" and "tr_out_off (cv_trace v) + k \<le> length (cs_out_write_data s)" and "udp_at pw req s v"
  shows "udp_at pw req s (cl_out_progressed k s v)"
proof -
  have f: "in_flight Tunnel_write (cs_pending s)" using assms(1) by (simp add: in_flight_def)
  have st: "cs_status s = C_UDP_FORWARD"
    using assms(3) f in_flight_writes [of "cs_pending s"] by (cases "cs_status s") (auto simp: udp_at_def Let_def)
  with assms(3) have "write_of Tunnel_write (tun_writes (cs_pending s)) = Some None"
    using in_flight_single(1) [OF f] by (auto simp: udp_at_def Let_def)
  with st assms(2,3) show ?thesis
    by (auto simp: udp_at_def Let_def cl_out_progressed_def intro: flow_progress)
qed

lemma udp_in_progress_inv:
  assumes "udp_at pw req s v" and "\<not> negotiating s"
  shows "udp_at pw req s (cl_in_progressed k s v)"
  using assms by (cases "cs_status s") (auto simp: udp_at_def Let_def cl_in_progressed_def negotiating_def)

section \<open>Running a handler\<close>

lemma cl_note_wires [simp]:
  "tr_out_wire (cl_note os s op c tr) = tr_out_wire tr" "tr_in_wire (cl_note os s op c tr) = tr_in_wire tr"
  by (cases op; cases c; auto split: option.split)+

lemma udp_run_destroyed:
  assumes "cs_status s = C_DESTROY" and "cl_orderly s op c" and "udp_at pw req s v"
    and "cl_on_complete cfg os op c (s\<lparr>cs_pending := remove_nth i (cs_pending s)\<rparr>) = Inr s'"
  shows "udp_at pw req s' (cl_look os s op c v)"
proof -
  let ?s = "s\<lparr>cs_pending := remove_nth i (cs_pending s)\<rparr>"
  have d: "cl_destroy ?s = ?s" using assms(1) by (simp add: cl_destroy_def)
  have n: "tr_up (cl_note os s op c (cv_trace v)) = tr_up (cv_trace v)" "tr_down (cl_note os s op c (cv_trace v)) = tr_down (cv_trace v)"
    using assms(1) by (cases op; cases c; auto split: option.split)+
  have "udp_closable pw req ?s v" using udp_closable_remove [OF udp_at_closable [OF assms(3)]] .
  then have cl: "udp_closable pw req ?s (cl_look os s op c v)" using assms(1) n by (simp add: udp_closable_def cl_look_def)
  have "udp_closable pw req s' (cl_look os s op c v) \<and> cs_status s' = C_DESTROY"
  proof (cases op)
    case Client_read
    with cl d assms(1,4) show ?thesis by (cases c) (auto simp: cl_in_recv_def udp_closable_def udp_requested_def)
  next
    case Client_write
    with cl d assms(1,4) show ?thesis by (auto simp: cl_in_sent_def)
  next
    case Tunnel_read
    with cl d assms(1,4) show ?thesis by (cases c) (auto simp: cl_out_recv_def udp_closable_def udp_requested_def)
  next
    case Tunnel_write
    with cl d assms(1,4) show ?thesis by (auto simp: cl_out_sent_def)
  next
    case Relay_read
    with cl d assms(1,4) show ?thesis
      by (cases c) (auto simp: cl_udp_recv_def udp_closable_def udp_requested_def Let_def cl_destroy_def split: option.splits if_splits)
  next
    case (Relay_write ep)
    with cl d assms(1,4) show ?thesis by (auto simp: cl_udp_sent_def split: if_splits)
  next
    case Proxy_shutdown
    with cl assms(1,4) show ?thesis by (cases "c = Aborted") (auto simp: cl_shutdown_cb_def udp_closable_def udp_requested_def)
  next
    case Close_wait
    with cl assms(1,4) show ?thesis by (cases "c = Aborted") (auto simp: cl_shutdown_cb_def udp_closable_def udp_requested_def)
  qed (use assms(1,2,4) cl d in \<open>auto simp: cl_orderly_def cl_resolved_def cl_connected_def cl_established_def\<close>)
  then show ?thesis by (auto simp: udp_closable_def udp_at_def Let_def)
qed

lemma replies_append:
  "replies (x @ d) = replies x @ replies (snd (drain reply_decode x) @ d)"
  "snd (drain reply_decode (x @ d)) = snd (drain reply_decode (snd (drain reply_decode x) @ d))"
  by (simp_all add: replies_def reply_stream.drain_append [of x d])

lemma replies_None: "reply_decode x = None \<Longrightarrow> replies x = [] \<and> drain reply_decode x = ([], x)"
  by (simp add: replies_def reply_stream.drain_None)

lemma replies_Some:
  assumes "reply_decode x = Some (r, n)"
  shows "replies x = r # replies (drop n x)" and "snd (drain reply_decode x) = snd (drain reply_decode (drop n x))"
  using reply_stream.drain_Some [OF assms] by (simp_all add: replies_def)

text \<open>Between two operations of the direction to the application.\<close>

definition udp_mid :: "string \<Rightarrow> string \<Rightarrow> ClientSession \<Rightarrow> client_view \<Rightarrow> bool" where
  "udp_mid pw req s v \<longleftrightarrow> cs_is_udp s \<and> udp_requested pw s req \<and> cs_status s = C_UDP_FORWARD \<and>
     (let ps = cs_pending s; tr = cv_trace v
      in tun_closers ps = [] \<and> cs_in_open s \<and> cs_udp_open s \<and> cs_out_open s \<and> udp_downs ps = [] \<and>
         length (tun_writes ps) + length (live_relays ps) \<le> 1 \<and>
         flow (req @ tr_up tr) (tr_out_wire tr) (tr_out_off tr) (cs_out_write_data s) (write_of Tunnel_write (tun_writes ps)) \<and>
         replies (tr_down tr) = cv_datagrams v @ replies (cs_udp_data_buf s) \<and>
         snd (drain reply_decode (cs_udp_data_buf s)) = snd (drain reply_decode (tr_down tr)))"

lemma udp_mid_closable: "udp_mid pw req s v \<Longrightarrow> udp_closable pw req s v"
  by (auto simp: udp_mid_def udp_closable_def Let_def is_prefix_def dest!: flow_prefix)

lemma udp_sent_inv:
  assumes "udp_mid pw req s v" and "cl_udp_sent s = Inr s'"
  shows "udp_at pw req s' v"
proof (cases "udp_decode (cs_udp_data_buf s)")
  case None
  have st: "cs_status s = C_UDP_FORWARD" using assms(1) by (simp add: udp_mid_def)
  show ?thesis
  proof (cases "length (cs_udp_data_buf s) > MAX_LENGTH")
    case True
    with None st assms have "s' = cl_destroy s" by (simp add: cl_udp_sent_def)
    with udp_destroy [OF udp_mid_closable [OF assms(1)]] show ?thesis by simp
  next
    case False
    with None st assms(2) have "s' = cs_begin Tunnel_read s" by (simp add: cl_udp_sent_def)
    with assms(1) None reply_decode_None show ?thesis
      by (simp add: udp_mid_def udp_at_def udp_requested_def Let_def)
  qed
next
  case (Some x)
  obtain p n where x: "udp_decode (cs_udp_data_buf s) = Some (p, n)" using Some by (cases x) simp
  from reply_decode_udp [OF x] obtain f a where f: "socks5_parse nul_terminated (pkt_address blank_packet) (cs_udp_data_buf s) = (a, Some (length f))"
      "take (length f) (cs_udp_data_buf s) = f" "n \<le> length (cs_udp_data_buf s)"
      "reply_decode (cs_udp_data_buf s) = Some (replicate 3 (CHR 0x00) @ f @ pkt_payload p, n)" by blast
  have "s' = cl_udp_async_write (replicate 3 (CHR 0x00) @ f @ pkt_payload p) (cs_udp_recv_endpoint s)
      (s\<lparr>cs_udp_data_buf := drop n (cs_udp_data_buf s), cs_recv_len := cs_recv_len s + of_nat (unat (pkt_length p))\<rparr>)"
    using assms x f by (simp add: cl_udp_sent_def udp_mid_def substr_def substr_from_def bind_exn_def)
  with assms(1) replies_Some [OF f(4)] show ?thesis
    by (simp add: udp_mid_def udp_at_def udp_requested_def Let_def cl_udp_async_write_def)
qed

lemma udp_closable_look:
  "tr_up (cl_note os s op c (cv_trace v)) = tr_up (cv_trace v) \<Longrightarrow>
   is_prefix (cv_datagrams v) (replies (tr_down (cl_note os s op c (cv_trace v)))) \<Longrightarrow>
   udp_closable pw req x v \<Longrightarrow> udp_closable pw req x (cl_look os s op c v)"
  by (auto simp: udp_closable_def cl_look_def)

lemma udp_closable_sizes:
  assumes "udp_closable pw req s v"
  shows "udp_closable pw req (s\<lparr>cs_in_read_size := z\<rparr>) v" "udp_closable pw req (s\<lparr>cs_udp_read_size := z\<rparr>) v"
  using assms by (auto simp: udp_closable_def udp_requested_def)

lemma udp_run_destroys:
  assumes "udp_at pw req s v" and "s' = cl_destroy (s\<lparr>cs_pending := remove_nth i (cs_pending s)\<rparr>)"
    and "tr_up (cl_note os s op c (cv_trace v)) = tr_up (cv_trace v)" and "tr_down (cl_note os s op c (cv_trace v)) = tr_down (cv_trace v)"
  shows "udp_at pw req s' (cl_look os s op c v)"
  using assms udp_destroy [OF udp_closable_look [OF assms(3) _ udp_closable_remove [OF udp_at_closable [OF assms(1)], of i]]]
    udp_at_prefix [OF assms(1)] by simp

lemma udp_run_forward:
  assumes "i < length (cs_pending s)" and "cs_pending s ! i = (op, Some c)" and "cl_orderly s op c"
    and "udp_at pw req s v" and st: "cs_status s = C_UDP_FORWARD"
    and run: "cl_on_complete cfg os op c (s\<lparr>cs_pending := remove_nth i (cs_pending s)\<rparr>) = Inr s'"
  shows "udp_at pw req s' (cl_look os s op c v)"
proof -
  let ?ps = "remove_nth i (cs_pending s)"
  let ?s = "s\<lparr>cs_pending := ?ps\<rparr>"
  note keep = taken_lists [OF assms(1,2)] taken_udp_lists(1,2) [OF assms(1,2)]
  note single = taken_single [OF assms(1,2)] and usingle = taken_udp_lists(3,4) [OF assms(1,2)]
  note inv = assms(4) [unfolded udp_at_def Let_def]
  have len: "length (tun_writes (cs_pending s)) \<le> 1" "length (udp_downs (cs_pending s)) \<le> 1" "length (live_relays (cs_pending s)) \<le> 1"
    using inv st by auto
  note down = udp_run_destroys [OF assms(4), of s' i os op c]
    and closable_sizes = udp_closable_sizes [OF udp_closable_remove [OF udp_at_closable [OF assms(4)], of i]]
  show ?thesis
  proof (cases op)
    case Client_read
    show ?thesis
    proof (cases c)
      case (Received d)
      with udp_destroy [OF closable_sizes(1)] Client_read run st show ?thesis by (auto simp: cl_in_recv_def cl_look_def)
    qed (use down run Client_read st keep inv in \<open>auto simp: cl_look_def udp_at_def udp_requested_def Let_def\<close>)
  next
    case Client_write
    with down run st keep inv show ?thesis
      by (cases "c = Done") (auto simp: cl_in_sent_def cl_look_def udp_at_def udp_requested_def Let_def)
  next
    case Tunnel_write
    show ?thesis
    proof (cases "c = Done")
      case True
      from single(1) [OF Tunnel_write len(1)] have "tun_writes (cs_pending s) = [(Tunnel_write, Some c)]" "tun_writes ?ps = []"
        using Tunnel_write by simp_all
      with True Tunnel_write run st keep inv show ?thesis
        by (auto simp: cl_out_sent_def cl_look_def udp_at_def udp_requested_def Let_def write_of_def flow_def)
    qed (use down run Tunnel_write in simp)
  next
    case Relay_read
    show ?thesis
    proof (cases c)
      case (Datagram d ep)
      then have "datagrams_in (Some c)" by simp
      with usingle(2) [OF Relay_read _ len(3)] Relay_read inv st
      have l: "live_relays ?ps = []" "tun_writes (cs_pending s) = []" by auto
      show ?thesis
      proof (cases "d = []")
        case True
        then have "datagram_frame (os_beyond os) d = None" by (simp add: datagram_frame_def)
        with True l Datagram Relay_read run st keep inv show ?thesis
          by (auto simp: cl_udp_recv_def cl_look_def udp_at_def udp_requested_def Let_def)
      next
        case False
        show ?thesis
        proof (cases "datagram_frame (os_beyond os) d")
          case None
          with udp_destroy [OF closable_sizes(2)] False Datagram Relay_read run show ?thesis by (auto simp: cl_udp_recv_def cl_look_def Let_def)
        next
          case (Some x)
          obtain packet n where "x = (packet, n)" by fastforce
          with Some False l Datagram Relay_read run st keep inv show ?thesis
            by (auto simp: cl_udp_recv_def cl_look_def udp_at_def udp_requested_def Let_def cl_out_async_write_buffer_def flow_def write_of_def)
        qed
      qed
    qed (use down run Relay_read keep inv st in \<open>auto simp: cl_look_def udp_at_def udp_requested_def Let_def\<close>)
  next
    case Tunnel_read
    show ?thesis
    proof (cases c)
      case (Received d)
      from usingle(1) [OF _ len(2)] Tunnel_read have
        l: "udp_downs (cs_pending s) = [(Tunnel_read, Some c)]" "udp_downs ?ps = []" by simp_all
      with inv st have r: "reply_decode (cs_udp_data_buf s) = None" by simp
      have "udp_mid pw req (?s\<lparr>cs_out_read_size := grow_after_read (cs_out_read_size s) (length d), cs_udp_data_buf := cs_udp_data_buf s @ d\<rparr>)
          (cl_look os s op c v)"
        using l inv st keep Tunnel_read Received replies_None [OF r] replies_append [of "tr_down (cv_trace v)" d]
        by (simp add: udp_mid_def udp_requested_def Let_def cl_look_def)
      from udp_sent_inv [OF this] run Tunnel_read Received st show ?thesis by (simp add: cl_out_recv_def Let_def)
    qed (use down run Tunnel_read in simp_all)
  next
    case (Relay_write ep)
    show ?thesis
    proof (cases "c = Done")
      case True
      from usingle(1) [OF _ len(2)] Relay_write have
        l: "udp_downs (cs_pending s) = [(Relay_write ep, Some c)]" "udp_downs ?ps = []" by simp_all
      with inv st keep Relay_write True have "udp_mid pw req ?s (cl_look os s op c v)"
        by (simp add: udp_mid_def udp_requested_def Let_def cl_look_def)
      from udp_sent_inv [OF this] run Relay_write True show ?thesis by simp
    qed (use down run Relay_write in simp)
  next
    case Gc_wait
    with run keep inv st show ?thesis by (auto simp: cl_look_def udp_at_def udp_requested_def Let_def)
  qed (use assms(3) down run single keep inv st in
        \<open>auto simp: cl_orderly_def cl_resolved_def cl_connected_def cl_established_def\<close>)
qed

lemma reply_decode_Nil: "reply_decode [] = None"
  by code_simp

lemma cl_orderly_no_datagrams:
  assumes "cl_orderly s Proxy_handshake Done" and "cs_is_udp s"
  shows "filter (\<lambda>p. snd p \<noteq> None) (live_relays (remove_nth i (cs_pending s))) = []"
  using assms by (fastforce simp: cl_orderly_def list_all_iff live_relays_def datagrams_in_def filter_empty_conv remove_nth_def
      dest: in_set_takeD in_set_dropD)

lemma udp_run_connect:
  assumes "i < length (cs_pending s)" and "cs_pending s ! i = (op, Some c)" and "cl_orderly s op c"
    and "udp_at pw req s v" and st: "cs_status s = C_CONNECT" and quiet: "cl_quiet s op c"
    and run: "cl_on_complete cfg os op c (s\<lparr>cs_pending := remove_nth i (cs_pending s)\<rparr>) = Inr s'"
  shows "udp_at pw req s' (cl_look os s op c v)"
proof -
  let ?ps = "remove_nth i (cs_pending s)"
  let ?s = "s\<lparr>cs_pending := ?ps\<rparr>"
  note keep = taken_lists [OF assms(1,2)] taken_udp_lists(1,2) [OF assms(1,2)]
  note single = taken_single [OF assms(1,2)] and usingle = taken_udp_lists(3,4) [OF assms(1,2)]
  note inv = assms(4) [unfolded udp_at_def Let_def]
  note down = udp_run_destroys [OF assms(4), of s' i os op c]
    and closable_sizes = udp_closable_sizes [OF udp_closable_remove [OF udp_at_closable [OF assms(4)], of i]]
  have con: "connecting (cs_pending s) = [(op, Some c)]" "connecting ?ps = []" if "is_connecting op"
    using single(3) [OF that] inv st by auto
  show ?thesis
  proof (cases op)
    case Client_read
    show ?thesis
    proof (cases c)
      case (Received d)
      with quiet Client_read st inv show ?thesis by (auto simp: cl_quiet_def)
    qed (use down run Client_read st keep inv in \<open>auto simp: cl_look_def udp_at_def udp_requested_def Let_def\<close>)
  next
    case Client_write
    with down run st keep inv show ?thesis
      by (cases "c = Done") (auto simp: cl_in_sent_def cl_look_def udp_at_def udp_requested_def Let_def)
  next
    case Relay_read
    show ?thesis
    proof (cases c)
      case (Datagram d ep)
      then have "datagrams_in (Some c)" by simp
      with usingle(2) [OF Relay_read] Relay_read inv st have l: "live_relays ?ps = []" "\<not> cs_first_packet_recv s"
        by (auto split: if_splits)
      show ?thesis
      proof (cases "datagram_frame (os_beyond os) d")
        case None
        with udp_destroy [OF closable_sizes(2)] l Datagram Relay_read run st keep inv show ?thesis
          by (cases "d = []") (auto simp: cl_udp_recv_def cl_look_def Let_def udp_at_def udp_requested_def)
      next
        case (Some x)
        obtain packet n where x: "x = (packet, n)" by fastforce
        have "d \<noteq> []" using Some by (auto simp: datagram_frame_def)
        with Some x l Datagram Relay_read run st keep inv show ?thesis
          by (auto simp: cl_udp_recv_def cl_look_def udp_at_def udp_requested_def Let_def)
      qed
    qed (use down run Relay_read keep inv st in \<open>auto simp: cl_look_def udp_at_def udp_requested_def Let_def\<close>)
  next
    case Proxy_resolve
    show ?thesis
    proof (cases "\<exists>ep eps. c = Resolved (ep # eps) \<and> os_open_ok os")
      case True
      with con Proxy_resolve run st keep inv show ?thesis
        by (auto simp: cl_resolved_def cl_look_def udp_at_def udp_requested_def Let_def)
    qed (use down run Proxy_resolve in \<open>auto simp: cl_resolved_def split: completion.splits list.splits if_splits\<close>)
  next
    case (Proxy_connect ep)
    show ?thesis
    proof (cases "c = Done")
      case True
      with con Proxy_connect run st keep inv show ?thesis
        by (auto simp: cl_connected_def cl_look_def udp_at_def udp_requested_def Let_def)
    qed (use down run Proxy_connect in \<open>auto simp: cl_connected_def\<close>)
  next
    case Proxy_handshake
    show ?thesis
    proof (cases "c = Done")
      case True
      with cl_orderly_no_datagrams [of s i] assms(3) Proxy_handshake inv
      have q: "filter (\<lambda>p. snd p \<noteq> None) (live_relays ?ps) = []" by simp
      have "cs_out_open s" using con Proxy_handshake inv st by auto
      with q con Proxy_handshake True run st keep inv show ?thesis
        by (auto simp: cl_established_def cl_out_async_write_buffer_def cl_look_def udp_at_def udp_requested_def Let_def write_of_def flow_def
            reply_decode_Nil split: if_splits)
    qed (use down run Proxy_handshake in \<open>auto simp: cl_established_def\<close>)
  next
    case Gc_wait
    with run keep inv st show ?thesis by (auto simp: cl_look_def udp_at_def udp_requested_def Let_def)
  qed (use down run single usingle inv st in auto)
qed

section \<open>Reachable states\<close>

lemma udp_step_inv:
  assumes "cl_step True cfg (s, v) (s', v')" and "udp_at pw req s v" and "\<not> negotiating s"
  shows "udp_at pw req s' v'"
  using assms(1)
proof cases
  case (cl_ready i op c)
  with udp_ready_inv [OF _ _ _ assms(2)] show ?thesis by blast
next
  case (cl_in_progress k)
  with udp_in_progress_inv assms(2,3) show ?thesis by blast
next
  case (cl_out_progress k)
  with udp_out_progress_inv assms(2) show ?thesis by blast
next
  case (cl_run i op c os)
  with assms(2) show ?thesis
    using udp_run_connect [OF cl_run(2,3) _ assms(2), of cfg os s'] udp_run_forward [OF cl_run(2,3) _ assms(2)] udp_run_destroyed [OF _ _ assms(2)]
    by (cases "cs_status s") (auto simp: udp_at_def Let_def)
qed

lemma udp_at_cl_inv: "udp_at pw req s v \<Longrightarrow> cl_inv pw s v"
  by (cases "cs_status s") (auto simp: cl_inv_def negotiating_def udp_inv_def udp_at_def Let_def)

lemma cl_step_inv:
  assumes "cl_step True cfg (s, v) (s', v')" and "cl_inv pw s v" and "first_password cfg = Inr pw" and "find_sub crlf pw = None"
  shows "cl_inv pw s' v'"
proof (cases "negotiating s")
  case True
  with assms(2) have n: "neg_inv pw s v" by (simp add: cl_inv_def)
  from assms(1) show ?thesis
  proof cases
    case (cl_ready i op c)
    with neg_ready_inv [OF n True] show ?thesis by blast
  next
    case (cl_in_progress k)
    with neg_in_progress_inv [OF n True] show ?thesis by blast
  next
    case (cl_out_progress k)
    with n show ?thesis by (auto simp: neg_inv_def neg_op_ok_def)
  next
    case (cl_run i op c os)
    with neg_run_inv [OF n True _ _ _ assms(3,4)] show ?thesis by blast
  qed
next
  case False
  show ?thesis
  proof (cases "cs_is_udp s")
    case True
    with False assms(2) obtain req where "udp_at pw req s v" by (auto simp: cl_inv_def udp_inv_def)
    with udp_step_inv [OF assms(1)] False udp_at_cl_inv show ?thesis by blast
  next
    case tcp: False
    with False assms(2) have "tcp_inv pw s v" by (simp add: cl_inv_def)
    with tcp_step_inv assms(1) show ?thesis by blast
  qed
qed

lemma cl_reachable_inv:
  assumes "cl_reachable True cfg s v" and "first_password cfg = Inr pw" and "find_sub crlf pw = None"
  shows "cl_inv pw s v"
proof -
  let ?v = "\<lparr>cv_trace = empty_trace, cv_said = '''', cv_datagrams = []\<rparr>"
  have steps: "(cl_step True cfg)\<^sup>*\<^sup>* c c' \<Longrightarrow> cl_inv pw (fst c) (snd c) \<Longrightarrow> cl_inv pw (fst c') (snd c')" for c c'
    by (induction rule: rtranclp_induct) (auto intro: cl_step_inv [OF _ _ assms(2,3)])
  from assms(1) obtain remote where r: "(cl_step True cfg)\<^sup>*\<^sup>* (cl_start remote new_client_session, ?v) (s, v)"
    by (auto simp: cl_reachable_def)
  have q: "quiet new_client_session ?v" by (simp add: quiet_def new_client_session_def)
  have "cl_inv pw (cl_start remote new_client_session) ?v"
  proof (cases remote)
    case None
    have "cl_inv pw (cl_destroy new_client_session) ?v"
      using q by (intro neg_destroy_inv [where req = "[]"]) (simp_all add: new_client_session_def)
    with None show ?thesis by (simp add: cl_start_def)
  next
    case (Some ep)
    have "neg_op_ok pw Client_read None new_client_session ?v"
      by (simp add: neg_op_ok_def new_client_session_def flow_def)
    with q Some show ?thesis
      by (simp add: cl_start_def cl_inv_def negotiating_def new_client_session_def neg_inv_def cs_begin_def begin_op_def neg_op_ok_def quiet_def)
  qed
  with steps [OF r] show ?thesis by simp
qed

section \<open>What the association sends\<close>

text \<open>A sequence of frames, each made from a datagram of the application.\<close>

definition framed :: "string \<Rightarrow> bool" where
  "framed x \<longleftrightarrow> (\<exists>fs. x = concat fs \<and> list_all (\<lambda>f. \<exists>beyond d n. datagram_frame beyond d = Some (f, n)) fs)"

lemma framed_Nil [simp]: "framed []"
  unfolding framed_def by (rule exI [of _ "[]"]) simp

lemma framed_append: "framed x \<Longrightarrow> datagram_frame beyond d = Some (f, n) \<Longrightarrow> framed (x @ f)"
  unfolding framed_def by (metis (mono_tags, lifting) concat.simps concat_append append_Nil2 list.pred_inject(1,2) list_all_append)

definition framed_inv :: "ClientSession \<Rightarrow> client_view \<Rightarrow> bool" where
  "framed_inv s v \<longleftrightarrow> (cs_is_udp s \<longrightarrow> framed (tr_up (cv_trace v))) \<and> (negotiating s \<longrightarrow> tr_up (cv_trace v) = [])"

lemma cl_up_cases:
  assumes "cl_step True cfg (s, v) (s', v')"
  shows "tr_up (cv_trace v') = tr_up (cv_trace v) \<or>
    (\<exists>beyond d f n. datagram_frame beyond d = Some (f, n) \<and> tr_up (cv_trace v') = tr_up (cv_trace v) @ f \<and> \<not> negotiating s) \<or>
    (cs_status s = C_CONNECT \<or> cs_status s = C_FORWARD) \<and> \<not> (cs_is_udp s \<and> cs_status s = C_CONNECT)"
  using assms
proof cases
  case (cl_ready i op c)
  have "tr_up (cv_trace (cl_sends op c s v)) = tr_up (cv_trace v)" by (cases op; cases c) simp_all
  with cl_ready show ?thesis by simp
next
  case (cl_run i op c os)
  then have q: "cl_quiet s op c" by simp
  show ?thesis
  proof (cases "\<exists>d ep. op = Relay_read \<and> c = Datagram d ep")
    case True
    then obtain d ep where d: "op = Relay_read" "c = Datagram d ep" by blast
    show ?thesis
    proof (cases "datagram_frame (os_beyond os) d")
      case None
      with d cl_run show ?thesis by (simp add: cl_look_def)
    next
      case (Some x)
      then obtain f n where x: "datagram_frame (os_beyond os) d = Some (f, n)" by (cases x) simp
      show ?thesis
      proof (cases "cs_status s = C_CONNECT \<or> cs_status s = C_UDP_FORWARD")
        case True
        then have "tr_up (cv_trace v') = tr_up (cv_trace v) @ f \<and> \<not> negotiating s"
          using d cl_run x by (auto simp: cl_look_def negotiating_def)
        with x show ?thesis by blast
      qed (use d cl_run x in \<open>simp add: cl_look_def\<close>)
    qed
  next
    case False
    with cl_run q show ?thesis by (cases op; cases c) (auto simp: cl_look_def cl_quiet_def)
  qed
qed (simp_all add: cl_in_progressed_def cl_out_progressed_def Let_def)

lemma framed_step:
  assumes "cl_step True cfg (s, v) (s', v')" and "cl_inv pw s v" and "framed_inv s v"
  shows "framed_inv s' v'"
proof (cases "negotiating s")
  case True
  then have "tr_up (cv_trace v') = []"
    using cl_up_cases [OF assms(1)] assms(3) by (auto simp: framed_inv_def negotiating_def)
  then show ?thesis by (simp add: framed_inv_def)
next
  case False
  show ?thesis
  proof (cases "cs_is_udp s")
    case True
    with False assms(2) obtain req where u: "udp_at pw req s v" by (auto simp: cl_inv_def udp_inv_def)
    from udp_step_inv [OF assms(1) this False] have "\<not> negotiating s'"
      by (cases "cs_status s'") (auto simp: udp_at_def Let_def negotiating_def)
    moreover have "cs_status s \<noteq> C_FORWARD" using u by (auto simp: udp_at_def Let_def)
    ultimately show ?thesis using cl_up_cases [OF assms(1)] assms(3) True framed_append
      unfolding framed_inv_def by metis
  next
    case tcp: False
    with False assms(2) have "tcp_phase s" "no_relay_ops (cs_pending s)" by (simp_all add: cl_inv_def tcp_inv_def)
    from tcp_step_simulates [OF assms(1) this] show ?thesis by (auto simp: framed_inv_def tcp_phase_def negotiating_def)
  qed
qed

lemma cl_reachable_framed:
  assumes "cl_reachable True cfg s v" and "first_password cfg = Inr pw" and "find_sub crlf pw = None"
  shows "framed_inv s v"
proof -
  let ?v = "\<lparr>cv_trace = empty_trace, cv_said = '''', cv_datagrams = []\<rparr>"
  from assms(1) obtain remote where r: "(cl_step True cfg)\<^sup>*\<^sup>* (cl_start remote new_client_session, ?v) (s, v)"
    by (auto simp: cl_reachable_def)
  then have "framed_inv (fst (s, v)) (snd (s, v))"
  proof (induction rule: rtranclp_induct)
    case base
    show ?case by (simp add: framed_inv_def empty_trace_def)
  next
    case (step c c')
    obtain s1 v1 s2 v2 where c: "c = (s1, v1)" "c' = (s2, v2)" by fastforce
    have "cl_reachable True cfg s1 v1" using step(1) c unfolding cl_reachable_def by blast
    from cl_reachable_inv [OF this assms(2,3)] have i: "cl_inv pw s1 v1" .
    from step c show ?case
      using framed_step [OF _ i] by auto
  qed
  then show ?thesis by simp
qed

end
