(* ===== verification/Logging.thy ===== *)
theory Logging
  imports Asio
begin

text \<open>
  \<open>src/core/log.{h,cpp}\<close>: the log of the process, with the lines it has written and the files it
  holds open as its state.  Opening a file either gives a new handle or fails with the text of
  \<open>strerror(errno)\<close>.
\<close>

section \<open>The log\<close>

datatype Level = LV_ALL | LV_INFO | LV_WARN | LV_ERROR | LV_FATAL | LV_OFF

fun level_value :: "Level \<Rightarrow> int" where
  "level_value LV_ALL = 0"
| "level_value LV_INFO = 1"
| "level_value LV_WARN = 2"
| "level_value LV_ERROR = 3"
| "level_value LV_FATAL = 4"
| "level_value LV_OFF = 5"

fun level_string :: "Level \<Rightarrow> string" where
  "level_string LV_ALL = ''ALL''"
| "level_string LV_INFO = ''INFO''"
| "level_string LV_WARN = ''WARN''"
| "level_string LV_ERROR = ''ERROR''"
| "level_string LV_FATAL = ''FATAL''"
| "level_string LV_OFF = ''OFF''"

text \<open>\<open>lg_output\<close>: \<open>None\<close> is \<open>stderr\<close>; handles count up.  The lines written and the calls of the callback
  are kept in order.\<close>

record Log =
  lg_level :: int
  lg_keylog :: "nat option"
  lg_output :: "nat option"
  lg_callback :: bool
  lg_open :: "nat list"
  lg_next :: nat
  lg_lines :: "(nat option \<times> string) list"
  lg_called :: "(string \<times> Level) list"

definition new_log :: Log where
  "new_log = \<lparr>lg_level = 1, lg_keylog = None, lg_output = None, lg_callback = False, lg_open = [], lg_next = 0,
     lg_lines = [], lg_called = []\<rparr>"

definition log_line :: "string \<Rightarrow> Level \<Rightarrow> Log \<Rightarrow> Log" where
  "log_line message level l =
     (if level_value level \<ge> lg_level l
      then l\<lparr>lg_lines := lg_lines l @ [(lg_output l, message @ [CHR 0x0A])],
             lg_called := (if lg_callback l then lg_called l @ [(message, level)] else lg_called l)\<rparr>
      else l)"

definition log_with_date_time :: "string \<Rightarrow> string \<Rightarrow> Level \<Rightarrow> Log \<Rightarrow> Log" where
  "log_with_date_time time_text message level l =
     log_line (time_text @ ''['' @ level_string level @ ''] '' @ message) level l"

definition log_with_endpoint :: "string \<Rightarrow> endpoint \<Rightarrow> string \<Rightarrow> Level \<Rightarrow> Log \<Rightarrow> Log" where
  "log_with_endpoint time_text ep message level l =
     log_with_date_time time_text (ep_ip ep @ '':'' @ dec_string (unat (ep_port ep)) @ '' '' @ message) level l"

definition fopen :: "string option \<Rightarrow> string \<Rightarrow> Log \<Rightarrow> (nat \<times> Log) cxx" where
  "fopen err filename l =
     (case err of
        Some e \<Rightarrow> Inl (Runtime_error (filename @ '': '' @ e))
      | None \<Rightarrow> Inr (lg_next l, l\<lparr>lg_open := lg_next l # lg_open l, lg_next := Suc (lg_next l)\<rparr>))"

definition fclose :: "nat option \<Rightarrow> Log \<Rightarrow> Log" where
  "fclose h l = (case h of None \<Rightarrow> l | Some n \<Rightarrow> l\<lparr>lg_open := remove1 n (lg_open l)\<rparr>)"

definition redirect :: "string option \<Rightarrow> string \<Rightarrow> Log \<Rightarrow> Log cxx" where
  "redirect err filename l =
     bind_exn (fopen err filename l) (\<lambda>(fp, l). Inr ((fclose (lg_output l) l)\<lparr>lg_output := Some fp\<rparr>))"

definition redirect_keylog :: "string option \<Rightarrow> string \<Rightarrow> Log \<Rightarrow> Log cxx" where
  "redirect_keylog err filename l =
     bind_exn (fopen err filename l) (\<lambda>(fp, l). Inr ((fclose (lg_keylog l) l)\<lparr>lg_keylog := Some fp\<rparr>))"

definition log_reset :: "Log \<Rightarrow> Log" where
  "log_reset l =
     (let l = (if lg_output l \<noteq> None then (fclose (lg_output l) l)\<lparr>lg_output := None\<rparr> else l)
      in if lg_keylog l \<noteq> None then (fclose (lg_keylog l) l)\<lparr>lg_keylog := None\<rparr> else l)"

definition set_callback :: "bool \<Rightarrow> Log \<Rightarrow> Log" where
  "set_callback has_cb l = l\<lparr>lg_callback := has_cb\<rparr>"

datatype log_call =
    Log_line string Level
  | Log_redirect "string option" string
  | Log_redirect_keylog "string option" string
  | Log_set_callback bool
  | Log_reset

fun log_do :: "log_call \<Rightarrow> Log \<Rightarrow> Log cxx" where
  "log_do (Log_line m lv) l = Inr (log_line m lv l)"
| "log_do (Log_redirect err f) l = redirect err f l"
| "log_do (Log_redirect_keylog err f) l = redirect_keylog err f l"
| "log_do (Log_set_callback b) l = Inr (set_callback b l)"
| "log_do Log_reset l = Inr (log_reset l)"

text \<open>A call that throws leaves the log as it was.\<close>

fun log_run :: "log_call list \<Rightarrow> Log \<Rightarrow> Log" where
  "log_run [] l = l"
| "log_run (c # cs) l = log_run cs (case log_do c l of Inl e \<Rightarrow> l | Inr l' \<Rightarrow> l')"

text \<open>The files that are open are those in use, each once.\<close>

definition log_inv :: "Log \<Rightarrow> bool" where
  "log_inv l \<longleftrightarrow> distinct (lg_open l) \<and> set (lg_open l) = set_option (lg_output l) \<union> set_option (lg_keylog l) \<and>
     (\<forall>n \<in> set (lg_open l). n < lg_next l) \<and> (lg_output l = lg_keylog l \<longrightarrow> lg_output l = None)"

lemma log_do_inv:
  assumes "log_inv l" and "log_do c l = Inr l'"
  shows "log_inv l'"
proof (cases c)
  case (Log_redirect err f)
  with assms show ?thesis
    by (cases err; cases "lg_output l"; cases "lg_keylog l") (auto simp: redirect_def fopen_def bind_exn_def fclose_def log_inv_def)
next
  case (Log_redirect_keylog err f)
  with assms show ?thesis
    by (cases err; cases "lg_output l"; cases "lg_keylog l") (auto simp: redirect_keylog_def fopen_def bind_exn_def fclose_def log_inv_def)
next
  case Log_reset
  with assms show ?thesis
    by (cases "lg_output l"; cases "lg_keylog l") (auto simp: log_reset_def fclose_def log_inv_def)
next
  case (Log_line m lv)
  with assms(2) have "l' = log_line m lv l" by simp
  then show ?thesis using assms(1) by (simp add: log_line_def log_inv_def)
next
  case (Log_set_callback b)
  with assms(2) have "l' = set_callback b l" by simp
  then show ?thesis using assms(1) by (simp add: set_callback_def log_inv_def)
qed

lemma log_run_inv: "log_inv l \<Longrightarrow> log_inv (log_run cs l)"
  by (induction cs arbitrary: l) (auto split: sum.split intro: log_do_inv)

lemma log_reset_closes:
  assumes "log_inv l"
  shows "lg_open (log_reset l) = []" and "lg_output (log_reset l) = None" and "lg_keylog (log_reset l) = None"
proof -
  show o: "lg_output (log_reset l) = None" "lg_keylog (log_reset l) = None"
    by (auto simp: log_reset_def fclose_def Let_def split: option.splits)
  have "log_inv (log_reset l)" using log_do_inv [OF assms, of Log_reset] by simp
  with o show "lg_open (log_reset l) = []" by (simp add: log_inv_def)
qed

text \<open>Lines with date and time, of a process in which \<open>time n\<close> is the time of the line that is written after \<open>n\<close>
  others.\<close>

definition say :: "(nat \<Rightarrow> string) \<Rightarrow> string \<times> Level \<Rightarrow> Log \<Rightarrow> Log" where
  "say time line l = log_with_date_time (time (length (lg_lines l))) (fst line) (snd line) l"

definition say_all :: "(nat \<Rightarrow> string) \<Rightarrow> (string \<times> Level) list \<Rightarrow> Log \<Rightarrow> Log" where
  "say_all time lines l = fold (say time) lines l"

lemma log_line_fields [simp]:
  "lg_level (log_line m lv l) = lg_level l" "lg_output (log_line m lv l) = lg_output l"
  "lg_keylog (log_line m lv l) = lg_keylog l" "lg_open (log_line m lv l) = lg_open l"
  "log_inv (log_line m lv l) = log_inv l"
  by (simp_all add: log_line_def log_inv_def)

lemma say_fields [simp]:
  "lg_level (say time x l) = lg_level l" "lg_output (say time x l) = lg_output l"
  "lg_keylog (say time x l) = lg_keylog l" "lg_open (say time x l) = lg_open l"
  "log_inv (say time x l) = log_inv l"
  by (simp_all add: say_def log_with_date_time_def)

lemma say_all_fields [simp]:
  "lg_level (say_all time xs l) = lg_level l" "lg_output (say_all time xs l) = lg_output l"
  "lg_keylog (say_all time xs l) = lg_keylog l" "lg_open (say_all time xs l) = lg_open l"
  "log_inv (say_all time xs l) = log_inv l"
  by (induction xs arbitrary: l) (simp_all add: say_all_def)

lemma say_written:
  "lg_level l \<le> level_value (snd x) \<Longrightarrow>
     lg_lines (say time x l) =
       lg_lines l @ [(lg_output l, time (length (lg_lines l)) @ ''['' @ level_string (snd x) @ ''] '' @ fst x @ [CHR 0x0A])]"
  by (simp add: say_def log_with_date_time_def log_line_def)

end
