(* ===== verification/Mysql_Authenticator.thy ===== *)
theory Mysql_Authenticator
  imports Session_Runtime
begin

text \<open>
  \<open>src/core/authenticator.{h,cpp}\<close>: users and quotas in a MySQL data base.

  The client library is a parameter.  The state of a connection is the history of the calls
  made on it; the library answers a call from that history, so that any data base with any
  failures is one such parameter.  The mutex makes every operation one step.  Log lines are
  left out.
\<close>

section \<open>The client library\<close>

datatype stmt_param = Param_string string | Param_u64 u64

datatype sql_call =
    Mysql_init
  | Mysql_ssl_set "string option" "string option" string
  | Mysql_real_connect string string string string u16
  | Mysql_reconnect
  | Stmt_init
  | Stmt_prepare string
  | Stmt_bind_param "stmt_param list"
  | Stmt_execute
  | Stmt_store_result
  | Stmt_bind_result
  | Stmt_fetch
  | Stmt_close
  | Mysql_close

text \<open>\<open>my_ok h c\<close>: the call \<open>c\<close> succeeds after the calls \<open>h\<close>.  \<open>my_row h\<close>: the two bound variables after a
  fetch.  \<open>my_error h\<close>: the text of \<open>mysql_error\<close>.\<close>

record mysql_client =
  my_ok :: "sql_call list \<Rightarrow> sql_call \<Rightarrow> bool"
  my_row :: "sql_call list \<Rightarrow> 64 word \<times> 64 word"
  my_error :: "sql_call list \<Rightarrow> string"

definition sql :: "mysql_client \<Rightarrow> sql_call \<Rightarrow> sql_call list \<Rightarrow> bool \<times> sql_call list" where
  "sql my c h = (my_ok my h c, h @ [c])"

text \<open>A chain of calls that is left at the first failure.\<close>

fun sql_chain :: "mysql_client \<Rightarrow> sql_call list \<Rightarrow> sql_call list \<Rightarrow> bool \<times> sql_call list" where
  "sql_chain my [] h = (True, h)"
| "sql_chain my (c # cs) h = (case sql my c h of (ok, h) \<Rightarrow> if ok then sql_chain my cs h else (False, h))"

section \<open>Operations\<close>

definition PASSWORD_LENGTH :: nat where "PASSWORD_LENGTH = 56"

definition is_valid_password :: "string \<Rightarrow> bool" where
  "is_valid_password pw \<longleftrightarrow> length pw = PASSWORD_LENGTH \<and>
     list_all (\<lambda>c. schar (CHR ''0'') \<le> schar c \<and> schar c \<le> schar (CHR ''9'') \<or>
                   schar (CHR ''a'') \<le> schar c \<and> schar c \<le> schar (CHR ''f'')) pw"

definition auth_query :: string where
  "auth_query = ''SELECT quota, download + upload FROM users WHERE password = ?''"

definition record_query :: string where
  "record_query = ''UPDATE users SET download = download + ?, upload = upload + ? WHERE password = ?''"

definition authenticator_new :: "mysql_client \<Rightarrow> MySQLConfig \<Rightarrow> sql_call list cxx" where
  "authenticator_new my m =
     (let h = snd (sql my Mysql_init []);
          h = (if mysql_ca m \<noteq> ''''
               then snd (sql my
                      (if mysql_key m \<noteq> '''' \<and> mysql_cert m \<noteq> ''''
                       then Mysql_ssl_set (Some (mysql_key m)) (Some (mysql_cert m)) (mysql_ca m)
                       else Mysql_ssl_set None None (mysql_ca m)) h)
               else h)
      in case sql my (Mysql_real_connect (mysql_server_addr m) (mysql_username m) (mysql_password m)
                        (mysql_database m) (mysql_server_port m)) h of
           (ok, h) \<Rightarrow> if \<not> ok then Inl (Runtime_error (my_error my h)) else Inr (snd (sql my Mysql_reconnect h)))"

definition auth_password_ok :: "mysql_client \<Rightarrow> string \<Rightarrow> sql_call list \<Rightarrow> bool \<times> sql_call list" where
  "auth_password_ok my pw h =
     (if \<not> is_valid_password pw then (False, h)
      else case sql my Stmt_init h of (ok, h) \<Rightarrow>
        if \<not> ok then (False, h)
        else case sql_chain my [Stmt_prepare auth_query, Stmt_bind_param [Param_string pw], Stmt_execute,
                                Stmt_store_result, Stmt_bind_result] h of (ok, h) \<Rightarrow>
          if \<not> ok then (False, snd (sql my Stmt_close h))
          else case sql my Stmt_fetch h of (has_row, h) \<Rightarrow>
            (let (quota, used) = my_row my h; h = snd (sql my Stmt_close h)
             in if \<not> has_row then (False, h)
                else if sint quota < 0 then (True, h)
                else if sint used \<ge> sint quota then (False, h)
                else (True, h)))"

definition record_traffic :: "mysql_client \<Rightarrow> string \<Rightarrow> u64 \<Rightarrow> u64 \<Rightarrow> sql_call list \<Rightarrow> sql_call list" where
  "record_traffic my pw download upload h =
     (if \<not> is_valid_password pw then h
      else case sql my Stmt_init h of (ok, h) \<Rightarrow>
        if \<not> ok then h
        else case sql_chain my [Stmt_prepare record_query,
                                Stmt_bind_param [Param_u64 download, Param_u64 upload, Param_string pw]] h of (ok, h) \<Rightarrow>
          if \<not> ok then snd (sql my Stmt_close h)
          else snd (sql my Stmt_close (snd (sql my Stmt_execute h))))"

text \<open>The destructor.\<close>

definition authenticator_delete :: "mysql_client \<Rightarrow> sql_call list \<Rightarrow> sql_call list" where
  "authenticator_delete my h = snd (sql my Mysql_close h)"

text \<open>A build without MySQL accepts every password and records nothing.\<close>

definition auth_without_mysql :: "string \<Rightarrow> bool" where
  "auth_without_mysql pw = True"

section \<open>Operations in sequence\<close>

datatype auth_request = Auth string | Record string u64 u64

fun auth_requests :: "mysql_client \<Rightarrow> auth_request list \<Rightarrow> sql_call list \<Rightarrow> sql_call list" where
  "auth_requests my [] h = h"
| "auth_requests my (Auth pw # rs) h = auth_requests my rs (snd (auth_password_ok my pw h))"
| "auth_requests my (Record pw d u # rs) h = auth_requests my rs (record_traffic my pw d u h)"

text \<open>The statements opened and not closed again by a history.\<close>

fun open_statements :: "mysql_client \<Rightarrow> sql_call list \<Rightarrow> sql_call list \<Rightarrow> int" where
  "open_statements my h [] = 0"
| "open_statements my h (c # cs) =
     (if c = Stmt_init \<and> my_ok my h c then 1 else if c = Stmt_close then -1 else 0) + open_statements my (h @ [c]) cs"

definition prepared_texts :: "sql_call list \<Rightarrow> string set" where
  "prepared_texts h = {q. Stmt_prepare q \<in> set h}"

lemma open_statements_append:
  "open_statements my h (xs @ ys) = open_statements my h xs + open_statements my (h @ xs) ys"
  by (induction xs arbitrary: h) simp_all

lemma sql_chain_extends:
  assumes "Stmt_init \<notin> set cs" and "Stmt_close \<notin> set cs" and "sql_chain my cs h = (ok, h')"
  shows "\<exists>t. h' = h @ t \<and> set t \<subseteq> set cs \<and> open_statements my h t = 0"
  using assms
proof (induction cs arbitrary: h)
  case Nil
  then show ?case by simp
next
  case (Cons c cs)
  show ?case
  proof (cases "my_ok my h c")
    case True
    with Cons.prems have "sql_chain my cs (h @ [c]) = (ok, h')" by (simp add: sql_def)
    from Cons.IH [OF _ _ this] Cons.prems obtain t where t: "h' = (h @ [c]) @ t" "set t \<subseteq> set cs" "open_statements my (h @ [c]) t = 0"
      by auto
    have "h' = h @ (c # t)" using t by simp
    moreover have "open_statements my h (c # t) = 0" using t Cons.prems by auto
    ultimately show ?thesis using t(2) by (intro exI [of _ "c # t"]) auto
  next
    case False
    with Cons.prems have "h' = h @ [c]" "open_statements my h [c] = 0" by (auto simp: sql_def)
    then show ?thesis by (intro exI [of _ "[c]"]) simp
  qed
qed

text \<open>What one operation adds to the history: nothing, a failed \<open>mysql_stmt_init\<close>, or a statement from
  its opening to its closing.\<close>

definition balanced_calls :: "mysql_client \<Rightarrow> sql_call list \<Rightarrow> sql_call list \<Rightarrow> bool" where
  "balanced_calls my h h' \<longleftrightarrow>
     (\<exists>t. h' = h @ t \<and> open_statements my h t = 0 \<and> prepared_texts t \<subseteq> {auth_query, record_query})"

lemma balanced_statement:
  assumes "my_ok my h Stmt_init" and "open_statements my (h @ [Stmt_init]) t = 0" and "prepared_texts t \<subseteq> {auth_query, record_query}"
  shows "balanced_calls my h (h @ [Stmt_init] @ t @ [Stmt_close])"
  using assms by (auto simp: balanced_calls_def open_statements_append prepared_texts_def intro!: exI [of _ "[Stmt_init] @ t @ [Stmt_close]"])

lemma calls_balanced_refl: "balanced_calls my h h"
  by (auto simp: balanced_calls_def prepared_texts_def)

lemma balanced_init_failed: "\<not> my_ok my h Stmt_init \<Longrightarrow> balanced_calls my h (h @ [Stmt_init])"
  by (auto simp: balanced_calls_def prepared_texts_def)

lemma calls_balanced_trans: "balanced_calls my h h' \<Longrightarrow> balanced_calls my h' h'' \<Longrightarrow> balanced_calls my h h''"
proof -
  assume "balanced_calls my h h'" and "balanced_calls my h' h''"
  then obtain t u where t: "h' = h @ t" "open_statements my h t = 0" "prepared_texts t \<subseteq> {auth_query, record_query}"
    and u: "h'' = h' @ u" "open_statements my h' u = 0" "prepared_texts u \<subseteq> {auth_query, record_query}"
    by (auto simp: balanced_calls_def)
  then have "h'' = h @ (t @ u)" "open_statements my h (t @ u) = 0" by (simp_all add: open_statements_append)
  moreover have "prepared_texts (t @ u) = prepared_texts t \<union> prepared_texts u" by (auto simp: prepared_texts_def)
  ultimately show ?thesis using t u unfolding balanced_calls_def by blast
qed

lemma prepared_subset:
  "set t \<subseteq> set cs \<Longrightarrow> prepared_texts cs \<subseteq> Q \<Longrightarrow> prepared_texts t \<subseteq> Q"
  by (auto simp: prepared_texts_def)

lemma auth_balanced: "balanced_calls my h (snd (auth_password_ok my pw h))"
proof (cases "is_valid_password pw \<and> my_ok my h Stmt_init")
  case False
  then show ?thesis by (auto simp: auth_password_ok_def sql_def calls_balanced_refl balanced_init_failed)
next
  case True
  let ?cs = "[Stmt_prepare auth_query, Stmt_bind_param [Param_string pw], Stmt_execute, Stmt_store_result, Stmt_bind_result]"
  obtain ok h' where c: "sql_chain my ?cs (h @ [Stmt_init]) = (ok, h')" by fastforce
  from sql_chain_extends [OF _ _ c] obtain t where t: "h' = (h @ [Stmt_init]) @ t" "set t \<subseteq> set ?cs" "open_statements my (h @ [Stmt_init]) t = 0"
    by auto
  have q: "prepared_texts t \<subseteq> {auth_query, record_query}" by (rule prepared_subset [OF t(2)]) (auto simp: prepared_texts_def)
  have f: "open_statements my (h @ [Stmt_init]) (t @ [Stmt_fetch]) = 0" "prepared_texts (t @ [Stmt_fetch]) \<subseteq> {auth_query, record_query}"
    using t(3) q by (auto simp: open_statements_append prepared_texts_def)
  obtain quota used where r: "my_row my (h' @ [Stmt_fetch]) = (quota, used)" by fastforce
  have "snd (auth_password_ok my pw h) = (if ok then h' @ [Stmt_fetch, Stmt_close] else h' @ [Stmt_close])"
    using True c r by (auto simp: auth_password_ok_def sql_def Let_def simp del: sql_chain.simps)
  with t balanced_statement [OF conjunct2 [OF True] t(3) q] balanced_statement [OF conjunct2 [OF True] f] show ?thesis by simp
qed

lemma record_balanced: "balanced_calls my h (record_traffic my pw d u h)"
proof (cases "is_valid_password pw \<and> my_ok my h Stmt_init")
  case False
  then show ?thesis by (auto simp: record_traffic_def sql_def calls_balanced_refl balanced_init_failed)
next
  case True
  let ?cs = "[Stmt_prepare record_query, Stmt_bind_param [Param_u64 d, Param_u64 u, Param_string pw]]"
  obtain ok h' where c: "sql_chain my ?cs (h @ [Stmt_init]) = (ok, h')" by fastforce
  from sql_chain_extends [OF _ _ c] obtain t where t: "h' = (h @ [Stmt_init]) @ t" "set t \<subseteq> set ?cs" "open_statements my (h @ [Stmt_init]) t = 0"
    by auto
  have q: "prepared_texts t \<subseteq> {auth_query, record_query}" by (rule prepared_subset [OF t(2)]) (auto simp: prepared_texts_def)
  have f: "open_statements my (h @ [Stmt_init]) (t @ [Stmt_execute]) = 0" "prepared_texts (t @ [Stmt_execute]) \<subseteq> {auth_query, record_query}"
    using t(3) q by (auto simp: open_statements_append prepared_texts_def)
  have "record_traffic my pw d u h = (if ok then h' @ [Stmt_execute, Stmt_close] else h' @ [Stmt_close])"
    using True c by (simp add: record_traffic_def sql_def del: sql_chain.simps)
  with t balanced_statement [OF conjunct2 [OF True] t(3) q] balanced_statement [OF conjunct2 [OF True] f] show ?thesis by simp
qed

lemma requests_balanced: "balanced_calls my h (auth_requests my rs h)"
proof (induction rs arbitrary: h)
  case Nil
  then show ?case by (simp add: calls_balanced_refl)
next
  case (Cons r rs)
  then show ?case
    by (cases r) (auto intro: calls_balanced_trans [OF auth_balanced] calls_balanced_trans [OF record_balanced])
qed

section \<open>Who is accepted\<close>

definition hex_digits :: "char set" where
  "hex_digits = set ''0123456789abcdef''"

lemma is_valid_password_iff: "is_valid_password pw \<longleftrightarrow> length pw = 56 \<and> set pw \<subseteq> hex_digits"
proof -
  have n: "schar c = (if of_char c < (128 :: nat) then int (of_char c) else int (of_char c) - 256)" for c
  proof -
    have "(of_char c :: int) = int (of_char c)" by (simp only: of_nat_of_char)
    then show ?thesis by (simp add: schar_def)
  qed
  have "(48 \<le> schar c \<and> schar c \<le> 57 \<or> 97 \<le> schar c \<and> schar c \<le> 102) \<longleftrightarrow> c \<in> char_of ` ({48..57} \<union> {97..102} :: nat set)" (is "?l \<longleftrightarrow> ?r") for c
  proof
    assume ?l
    then have "(of_char c :: nat) \<in> {48..57} \<union> {97..102}" by (auto simp: n split: if_splits) (use of_char_less_256 [of c] in linarith)+
    moreover have "c = char_of (of_char c :: nat)" by simp
    ultimately show ?r by blast
  next
    assume ?r
    then show ?l by (auto simp: n)
  qed
  moreover have "char_of ` ({48..57} \<union> {97..102} :: nat set) = hex_digits"
  proof -
    have "{48..57} \<union> {97..102} = set ([48..<58] @ [97..<103] :: nat list)"
      using atLeastLessThanSuc_atLeastAtMost [of 48 57] atLeastLessThanSuc_atLeastAtMost [of 97 102] by (simp del: upt_rec_numeral)
    then have "char_of ` ({48..57} \<union> {97..102} :: nat set) = set (map char_of ([48..<58] @ [97..<103] :: nat list))" by (simp only: set_map)
    also have "map char_of ([48..<58] @ [97..<103] :: nat list) = ''0123456789abcdef''" by code_simp
    finally show ?thesis by (simp only: hex_digits_def)
  qed
  moreover have "schar (CHR ''0'') = 48" "schar (CHR ''9'') = 57" "schar (CHR ''a'') = 97" "schar (CHR ''f'') = 102" by code_simp+
  ultimately show ?thesis by (auto simp: is_valid_password_def PASSWORD_LENGTH_def list_all_iff)
qed

text \<open>The call a statement of \<open>auth\<close> ends with on success, and the history it leads to.\<close>

definition auth_calls :: "string \<Rightarrow> sql_call list" where
  "auth_calls pw = [Stmt_init, Stmt_prepare auth_query, Stmt_bind_param [Param_string pw], Stmt_execute,
     Stmt_store_result, Stmt_bind_result, Stmt_fetch]"

fun all_ok :: "mysql_client \<Rightarrow> sql_call list \<Rightarrow> sql_call list \<Rightarrow> bool" where
  "all_ok my h [] = True"
| "all_ok my h (c # cs) \<longleftrightarrow> my_ok my h c \<and> all_ok my (h @ [c]) cs"

lemma auth_accepts_iff:
  "fst (auth_password_ok my pw h) \<longleftrightarrow>
     is_valid_password pw \<and> all_ok my h (auth_calls pw) \<and>
     (case my_row my (h @ auth_calls pw) of (quota, used) \<Rightarrow> sint quota < 0 \<or> sint used < sint quota)"
  by (auto simp: auth_password_ok_def auth_calls_def sql_def Let_def split: prod.splits if_splits)

section \<open>The gate and its authenticator\<close>

text \<open>What the gate relies on: an authenticator accepts only well-formed password hashes.  Then every
  password it hands to the session for the records is one that \<open>record\<close> does not drop.\<close>

locale password_authenticator =
  fixes check :: "string \<Rightarrow> bool" and well_formed :: "string \<Rightarrow> bool"
  assumes check_well_formed: "check pw \<Longrightarrow> well_formed pw"
begin

lemma authorised_well_formed:
  "authorised cfg (Some check) pw \<Longrightarrow> map_of (password cfg) pw = None \<Longrightarrow> well_formed pw"
  by (auto simp: authorised_def intro: check_well_formed)

lemma recorded_well_formed:
  assumes "gate_evaluate cfg (Some check) input = Inr d" and "length (gi_initial_data input) < 2 ^ 31"
    and "auth_record_password d \<noteq> ''''"
  shows "well_formed (auth_record_password d)"
proof (cases "\<exists>r. trojan_request r (gi_initial_data input) \<and> authorised cfg (Some check) (req_password r)")
  case True
  then obtain r where r: "trojan_request r (gi_initial_data input)" "authorised cfg (Some check) (req_password r)" by blast
  from gate_accepts [OF r(1) assms(2) r(2)] assms(1,3) have "map_of (password cfg) (req_password r) = None" "auth_record_password d = req_password r"
    by (auto split: if_splits)
  with authorised_well_formed [OF r(2)] show ?thesis by simp
next
  case False
  then have "auth_record_password d = ''''" using gate_falls_back [OF _ assms(2), of cfg "Some check"] assms(1) by auto
  with assms(3) show ?thesis by simp
qed

end

interpretation mysql_check: password_authenticator "\<lambda>pw. fst (auth_password_ok my pw h)" is_valid_password for my h
  by unfold_locales (simp add: auth_accepts_iff)

end
