(* ===== verification/Service_Constructor.thy ===== *)
theory Service_Constructor
  imports Service Logging Mysql_Authenticator
begin

text \<open>
  The constructor of the service, \<open>Service::Service\<close> and \<open>setup_acceptor\<close> of \<open>src/core/service.cpp\<close>: the
  listening sockets, the log level, the TLS contexts, the plain-HTTP answer and the data base, in the
  order of the code, as a list of actions.  An action is a call into the operating system, Asio or
  OpenSSL, a line of the log, the setting of the log level, or an exception the code throws itself.  The
  constructor ends with the first exception; which calls throw is a parameter.

  The functions of OpenSSL that the code calls directly report an error in a result the code does not look
  at, so they never throw; the methods of Asio's TLS context and of its sockets throw.  The branches for
  Windows and macOS are left out.
\<close>

section \<open>Calls\<close>

datatype tls_call =
    Default_options
  | Curves string
  | Certificate_chain string
  | Key_password string
  | Private_key string
  | Server_cipher_preference
  | Alpn_select string
  | Session_timeout int
  | No_ticket
  | Cache_off
  | Cache_client
  | Session_callback
  | Tmp_dh_default
  | Tmp_dh_file string
  | Verify_none
  | Verify_peer
  | Verify_peer_required
  | Default_verify_paths
  | Load_verify_file string
  | Verify_host string
  | Partial_chain
  | Alpn_protos string
  | Cipher_list string
  | Ciphersuites string
  | Keylog_callback

text \<open>Methods of \<open>boost::asio::ssl::context\<close>, as opposed to functions of OpenSSL.\<close>

fun asio_tls :: "tls_call \<Rightarrow> bool" where
  "asio_tls Default_options = True"
| "asio_tls (Certificate_chain f) = True"
| "asio_tls (Key_password p) = True"
| "asio_tls (Private_key f) = True"
| "asio_tls Tmp_dh_default = True"
| "asio_tls (Tmp_dh_file f) = True"
| "asio_tls Verify_none = True"
| "asio_tls Verify_peer = True"
| "asio_tls Verify_peer_required = True"
| "asio_tls Default_verify_paths = True"
| "asio_tls (Load_verify_file f) = True"
| "asio_tls (Verify_host n) = True"
| "asio_tls c = False"

text \<open>Calls on a listening socket.\<close>

datatype acceptor_call = Acc_open | Acc_reuse_address | Acc_reuse_port | Acc_bind | Acc_listen | Acc_no_delay | Acc_keep_alive | Acc_fast_open int

datatype listener = Main_listener | Worker_listener nat | Front_listener string u16 | Udp_listener

datatype setup_call =
    Resolve string u16
  | Acceptor listener acceptor_call
  | Udp_open
  | Udp_bind
  | Tls tls_call
  | Front_tls tls_call
  | Open_plain_http string
  | Connect_mysql

datatype setup_action =
    Call setup_call
  | Note string Level
  | Set_level int
  | Throw cxx_exn

text \<open>The option for fast open is set with an error code that is then ignored.\<close>

fun may_throw :: "setup_call \<Rightarrow> bool" where
  "may_throw (Acceptor l (Acc_fast_open n)) = False"
| "may_throw (Tls c) = asio_tls c"
| "may_throw (Front_tls c) = asio_tls c"
| "may_throw c = True"

text \<open>The machine the service is constructed on: the message of the exception a call throws, if any; the contents of a
  file or the text of \<open>strerror(errno)\<close>; and the data base.\<close>

record machine =
  mc_throws :: "setup_call \<Rightarrow> string option"
  mc_read_file :: "string \<Rightarrow> string + string"
  mc_mysql :: mysql_client

fun call_exn :: "machine \<Rightarrow> Config \<Rightarrow> setup_call \<Rightarrow> cxx_exn option" where
  "call_exn mc cfg (Open_plain_http f) =
     (case mc_read_file mc f of Inl err \<Rightarrow> Some (Runtime_error (f @ '': '' @ err)) | Inr contents \<Rightarrow> None)"
| "call_exn mc cfg Connect_mysql =
     (case authenticator_new (mc_mysql mc) (mysql cfg) of Inl e \<Rightarrow> Some e | Inr h \<Rightarrow> None)"
| "call_exn mc cfg c = (if may_throw c then map_option Runtime_error (mc_throws mc c) else None)"

fun action_exn :: "machine \<Rightarrow> Config \<Rightarrow> setup_action \<Rightarrow> cxx_exn option" where
  "action_exn mc cfg (Call c) = call_exn mc cfg c"
| "action_exn mc cfg (Throw e) = Some e"
| "action_exn mc cfg (Note m lv) = None"
| "action_exn mc cfg (Set_level n) = None"

section \<open>The script of the constructor\<close>

text \<open>What the build provides, and \<open>std::thread::hardware_concurrency\<close>.\<close>

record build_env =
  be_nat :: bool
  be_reuse_port :: bool
  be_fastopen :: bool
  be_tls13 :: bool
  be_mysql :: bool
  be_keylog :: bool
  be_concurrency :: nat

definition use_multi_io_context :: "build_env \<Rightarrow> Config \<Rightarrow> bool" where
  "use_multi_io_context be cfg = multi_io_context (be_reuse_port be) cfg (be_concurrency be)"

definition setup_acceptor :: "build_env \<Rightarrow> TCPConfig \<Rightarrow> listener \<Rightarrow> setup_action list" where
  "setup_acceptor be c l =
     map (\<lambda>a. Call (Acceptor l a))
       ([Acc_open, Acc_reuse_address] @ (if be_reuse_port be \<and> tcp_reuse_port c then [Acc_reuse_port] else []) @
        [Acc_bind, Acc_listen] @ (if tcp_no_delay c then [Acc_no_delay] else []) @
        (if tcp_keep_alive c then [Acc_keep_alive] else [])) @
     (if tcp_fast_open c
      then if be_fastopen be then [Call (Acceptor l (Acc_fast_open (tcp_fast_open_qlen c)))]
           else [Note ''TCP_FASTOPEN is not supported'' LV_WARN]
      else [])"

definition listen_script :: "build_env \<Rightarrow> Config \<Rightarrow> setup_action list" where
  "listen_script be cfg =
     (let n = nat (thread_count cfg (be_concurrency be)); ef = external_front cfg
      in [Call (Resolve (local_addr cfg) (local_port cfg))] @
         (if use_multi_io_context be cfg
          then Note (''using multi io_context mode with '' @ dec_string n @ '' workers'') LV_WARN #
               concat (map (\<lambda>i. setup_acceptor be (tcp cfg) (Worker_listener i)) [0..<n])
          else setup_acceptor be (tcp cfg) Main_listener) @
         (if trusted_front_listening cfg
          then if use_multi_io_context be cfg
               then [Note ''trusted-front listener is currently only supported in shared-io-context mode'' LV_WARN]
               else Call (Resolve (ef_trusted_front_listener_addr ef) (ef_trusted_front_listener_port ef)) #
                    setup_acceptor be (tcp cfg) (Front_listener (ef_trusted_front_listener_addr ef) (ef_trusted_front_listener_port ef))
          else []) @
         (if run_type cfg = FORWARD then [Call Udp_open, Call Udp_bind] else []))"

definition front_mtls :: "Config \<Rightarrow> bool" where
  "front_mtls cfg \<longleftrightarrow> trusted_front_listening cfg \<and> ef_trusted_front_listener_use_mtls (external_front cfg)"

definition curve_calls :: "SSLConfig \<Rightarrow> tls_call list" where
  "curve_calls c = (if ssl_curves c \<noteq> '''' then [Curves (ssl_curves c)] else [])"

definition front_tls_script :: "Config \<Rightarrow> setup_action list" where
  "front_tls_script cfg =
     (let ef = external_front cfg
      in if \<not> front_mtls cfg then []
         else if ef_trusted_front_tls_cert ef = '''' \<or> ef_trusted_front_tls_key ef = '''' \<or> ef_trusted_front_tls_ca ef = ''''
         then [Throw (Runtime_error ''trusted-front mTLS listener requires trusted_front_tls_cert, trusted_front_tls_key, and trusted_front_tls_ca'')]
         else map (\<lambda>c. Call (Front_tls c))
                ([Default_options, Certificate_chain (ef_trusted_front_tls_cert ef), Key_password (ef_trusted_front_tls_key_password ef),
                  Private_key (ef_trusted_front_tls_key ef), Load_verify_file (ef_trusted_front_tls_ca ef), Verify_peer_required] @
                 curve_calls (ssl cfg)))"

definition server_tls_calls :: "SSLConfig \<Rightarrow> tls_call list" where
  "server_tls_calls c =
     [Certificate_chain (ssl_cert c), Key_password (ssl_key_password c), Private_key (ssl_key c)] @
     (if ssl_prefer_server_cipher c then [Server_cipher_preference] else []) @
     (if ssl_alpn c \<noteq> '''' then [Alpn_select (ssl_alpn c)] else []) @
     (if ssl_reuse_session c
      then Session_timeout (ssl_session_timeout c) # (if \<not> ssl_session_ticket c then [No_ticket] else [])
      else [Cache_off, No_ticket])"

definition dh_call :: "SSLConfig \<Rightarrow> tls_call" where
  "dh_call c = (if ssl_dhparam c = '''' then Tmp_dh_default else Tmp_dh_file (ssl_dhparam c))"

text \<open>The data base: what the constructor of the authenticator says before and after it connects.\<close>

definition mysql_script :: "build_env \<Rightarrow> MySQLConfig \<Rightarrow> setup_action list" where
  "mysql_script be m =
     (if \<not> mysql_enabled m then []
      else if \<not> be_mysql be then [Note ''MySQL is not supported'' LV_WARN]
      else [Note (''connecting to MySQL server '' @ mysql_server_addr m @ '':'' @ dec_string (unat (mysql_server_port m))) LV_INFO] @
           (if mysql_ca m = '''' \<and> mysql_server_addr m \<notin> {''127.0.0.1'', ''localhost'', ''::1''}
            then [Note ''WARNING: MySQL authentication is connecting to a non-local server without mysql.ca configured; transport security is not guaranteed'' LV_WARN]
            else []) @
           [Call Connect_mysql, Note ''connected to MySQL server'' LV_INFO])"

definition server_script :: "build_env \<Rightarrow> Config \<Rightarrow> setup_action list" where
  "server_script be cfg =
     map (\<lambda>c. Call (Tls c)) (server_tls_calls (ssl cfg)) @
     (if ssl_plain_http_response (ssl cfg) \<noteq> '''' then [Call (Open_plain_http (ssl_plain_http_response (ssl cfg)))] else []) @
     [Call (Tls (dh_call (ssl cfg)))] @
     mysql_script be (mysql cfg)"

text \<open>The client side: the name to verify defaults to the address of the server.\<close>

definition client_ssl :: "Config \<Rightarrow> SSLConfig" where
  "client_ssl cfg = (if ssl_sni (ssl cfg) = '''' then (ssl cfg)\<lparr>ssl_sni := remote_addr cfg\<rparr> else ssl cfg)"

definition client_tls_calls :: "SSLConfig \<Rightarrow> tls_call list" where
  "client_tls_calls c =
     (if ssl_verify c
      then Verify_peer # (if ssl_cert c = '''' then [Default_verify_paths] else [Load_verify_file (ssl_cert c)]) @
           (if ssl_verify_hostname c then [Verify_host (ssl_sni c)] else []) @ [Partial_chain]
      else [Verify_none]) @
     (if ssl_alpn c \<noteq> '''' then [Alpn_protos (ssl_alpn c)] else []) @
     (if ssl_reuse_session c
      then [Cache_client, Session_callback] @ (if \<not> ssl_session_ticket c then [No_ticket] else [])
      else [No_ticket])"

text \<open>\<open>keylog\<close>: a file for the key log is open.\<close>

definition cipher_script :: "build_env \<Rightarrow> bool \<Rightarrow> SSLConfig \<Rightarrow> setup_action list" where
  "cipher_script be keylog c =
     (if ssl_cipher c \<noteq> '''' then [Call (Tls (Cipher_list (ssl_cipher c)))] else []) @
     (if ssl_cipher_tls13 c \<noteq> ''''
      then if be_tls13 be then [Call (Tls (Ciphersuites (ssl_cipher_tls13 c)))]
           else [Note ''TLS1.3 ciphersuites are not supported'' LV_WARN]
      else []) @
     (if keylog
      then if be_keylog be then [Call (Tls Keylog_callback)] else [Note ''SSL KeyLog is not supported'' LV_WARN]
      else [])"

definition service_script :: "build_env \<Rightarrow> bool \<Rightarrow> bool \<Rightarrow> Config \<Rightarrow> setup_action list" where
  "service_script be keylog test cfg =
     (if \<not> be_nat be \<and> run_type cfg = NAT then [Throw (Runtime_error ''NAT is not supported'')] else []) @
     (if test then [] else listen_script be cfg) @
     [Set_level (log_level cfg)] @
     map (\<lambda>c. Call (Tls c)) (Default_options # curve_calls (ssl cfg)) @
     front_tls_script cfg @
     (if run_type cfg = SERVER then server_script be cfg
      else map (\<lambda>c. Call (Tls c)) (client_tls_calls (client_ssl cfg))) @
     cipher_script be keylog (ssl cfg)"

section \<open>The constructor\<close>

text \<open>What a constructed service consists of: the calls that were made for it, by what they set up.\<close>

record service_setup =
  ss_config :: Config
  ss_listeners :: "listener list"
  ss_tls :: "tls_call list"
  ss_front_tls :: "tls_call list"
  ss_plain_http_response :: string
  ss_mysql :: bool

fun listens_on :: "setup_action \<Rightarrow> listener list" where
  "listens_on (Call (Acceptor l Acc_listen)) = [l]"
| "listens_on (Call Udp_bind) = [Udp_listener]"
| "listens_on a = []"

fun tls_of :: "setup_action \<Rightarrow> tls_call list" where
  "tls_of (Call (Tls c)) = [c]"
| "tls_of a = []"

fun front_tls_of :: "setup_action \<Rightarrow> tls_call list" where
  "front_tls_of (Call (Front_tls c)) = [c]"
| "front_tls_of a = []"

fun plain_http_of :: "machine \<Rightarrow> setup_action \<Rightarrow> string" where
  "plain_http_of mc (Call (Open_plain_http f)) = (case mc_read_file mc f of Inr contents \<Rightarrow> contents | Inl err \<Rightarrow> '''')"
| "plain_http_of mc a = ''''"

definition made_by :: "machine \<Rightarrow> Config \<Rightarrow> setup_action list \<Rightarrow> service_setup" where
  "made_by mc cfg as = \<lparr>
     ss_config = (if run_type cfg = SERVER then cfg else cfg\<lparr>ssl := client_ssl cfg\<rparr>),
     ss_listeners = concat (map listens_on as), ss_tls = concat (map tls_of as), ss_front_tls = concat (map front_tls_of as),
     ss_plain_http_response = concat (map (plain_http_of mc) as), ss_mysql = (Call Connect_mysql \<in> set as)\<rparr>"

text \<open>The actions in order, with the log, up to the first exception.\<close>

fun run_script :: "(nat \<Rightarrow> string) \<Rightarrow> machine \<Rightarrow> Config \<Rightarrow> setup_action list \<Rightarrow> Log \<Rightarrow> cxx_exn option \<times> Log" where
  "run_script time mc cfg [] l = (None, l)"
| "run_script time mc cfg (Note m lv # as) l = run_script time mc cfg as (say time (m, lv) l)"
| "run_script time mc cfg (Set_level n # as) l = run_script time mc cfg as (l\<lparr>lg_level := n\<rparr>)"
| "run_script time mc cfg (Throw e # as) l = (Some e, l)"
| "run_script time mc cfg (Call c # as) l =
     (case call_exn mc cfg c of Some e \<Rightarrow> (Some e, l) | None \<Rightarrow> run_script time mc cfg as l)"

definition service_new ::
    "build_env \<Rightarrow> (nat \<Rightarrow> string) \<Rightarrow> machine \<Rightarrow> bool \<Rightarrow> Config \<Rightarrow> Log \<Rightarrow> service_setup cxx \<times> Log" where
  "service_new be time mc test cfg l =
     (let as = service_script be (lg_keylog l \<noteq> None) test cfg
      in case run_script time mc cfg as l of
           (Some e, l) \<Rightarrow> (Inl e, l)
         | (None, l) \<Rightarrow> (Inr (made_by mc cfg as), l))"

section \<open>What the constructor guarantees\<close>

lemma run_script_None: "fst (run_script time mc cfg as l) = None \<longleftrightarrow> list_all (\<lambda>a. action_exn mc cfg a = None) as"
  by (induction time mc cfg as l rule: run_script.induct) (auto split: option.splits)

text \<open>An exception is that of the first action that fails.\<close>

lemma run_script_Some:
  "fst (run_script time mc cfg as l) = Some e \<Longrightarrow>
   \<exists>xs a ys. as = xs @ a # ys \<and> list_all (\<lambda>a. action_exn mc cfg a = None) xs \<and> action_exn mc cfg a = Some e"
proof (induction time mc cfg as l rule: run_script.induct)
  case (2 time mc cfg m lv as l)
  then obtain xs a ys where "as = xs @ a # ys" "list_all (\<lambda>a. action_exn mc cfg a = None) xs" "action_exn mc cfg a = Some e" by auto
  then show ?case by (intro exI [of _ "Note m lv # xs"] exI [of _ a] exI [of _ ys]) simp
next
  case (3 time mc cfg n as l)
  then obtain xs a ys where "as = xs @ a # ys" "list_all (\<lambda>a. action_exn mc cfg a = None) xs" "action_exn mc cfg a = Some e" by auto
  then show ?case by (intro exI [of _ "Set_level n # xs"] exI [of _ a] exI [of _ ys]) simp
next
  case (4 time mc cfg e' as l)
  then show ?case by (intro exI [of _ "[]"] exI [of _ "Throw e'"] exI [of _ as]) simp
next
  case (5 time mc cfg c as l)
  show ?case
  proof (cases "call_exn mc cfg c")
    case None
    with 5 obtain xs a ys where "as = xs @ a # ys" "list_all (\<lambda>a. action_exn mc cfg a = None) xs" "action_exn mc cfg a = Some e" by auto
    with None show ?thesis by (intro exI [of _ "Call c # xs"] exI [of _ a] exI [of _ ys]) simp
  next
    case (Some e')
    with 5 show ?thesis by (intro exI [of _ "[]"] exI [of _ "Call c"] exI [of _ as]) simp
  qed
qed simp

lemma service_new_Inr:
  "(\<exists>l'. service_new be time mc test cfg l = (Inr ss, l')) \<longleftrightarrow>
     list_all (\<lambda>a. action_exn mc cfg a = None) (service_script be (lg_keylog l \<noteq> None) test cfg) \<and>
     ss = made_by mc cfg (service_script be (lg_keylog l \<noteq> None) test cfg)"
  unfolding run_script_None [symmetric, of _ _ _ time l]
  by (auto simp: service_new_def Let_def split: prod.splits option.splits)

text \<open>No call the configuration needs is refused.\<close>

definition acceptor_stands :: "build_env \<Rightarrow> machine \<Rightarrow> TCPConfig \<Rightarrow> listener \<Rightarrow> bool" where
  "acceptor_stands be mc c l \<longleftrightarrow>
     list_all (\<lambda>a. mc_throws mc (Acceptor l a) = None) [Acc_open, Acc_reuse_address, Acc_bind, Acc_listen] \<and>
     (be_reuse_port be \<and> tcp_reuse_port c \<longrightarrow> mc_throws mc (Acceptor l Acc_reuse_port) = None) \<and>
     (tcp_no_delay c \<longrightarrow> mc_throws mc (Acceptor l Acc_no_delay) = None) \<and>
     (tcp_keep_alive c \<longrightarrow> mc_throws mc (Acceptor l Acc_keep_alive) = None)"

definition can_listen :: "build_env \<Rightarrow> machine \<Rightarrow> Config \<Rightarrow> bool" where
  "can_listen be mc cfg \<longleftrightarrow>
     (let ef = external_front cfg; front = (ef_trusted_front_listener_addr ef, ef_trusted_front_listener_port ef)
      in mc_throws mc (Resolve (local_addr cfg) (local_port cfg)) = None \<and>
         (if use_multi_io_context be cfg
          then list_all (\<lambda>i. acceptor_stands be mc (tcp cfg) (Worker_listener i)) [0..<nat (thread_count cfg (be_concurrency be))]
          else acceptor_stands be mc (tcp cfg) Main_listener) \<and>
         (trusted_front_listening cfg \<and> \<not> use_multi_io_context be cfg \<longrightarrow>
            mc_throws mc (Resolve (fst front) (snd front)) = None \<and>
            acceptor_stands be mc (tcp cfg) (Front_listener (fst front) (snd front))) \<and>
         (run_type cfg = FORWARD \<longrightarrow> mc_throws mc Udp_open = None \<and> mc_throws mc Udp_bind = None))"

lemma acceptor_iff:
  "list_all (\<lambda>a. action_exn mc cfg a = None) (setup_acceptor be c l) \<longleftrightarrow> acceptor_stands be mc c l"
  by (auto simp: setup_acceptor_def acceptor_stands_def)

lemma list_all_concat_map: "list_all P (concat (map f xs)) \<longleftrightarrow> list_all (\<lambda>x. list_all P (f x)) xs"
  by (induction xs) auto

lemma listen_iff: "list_all (\<lambda>a. action_exn mc cfg a = None) (listen_script be cfg) \<longleftrightarrow> can_listen be mc cfg"
  by (auto simp: listen_script_def can_listen_def Let_def acceptor_iff list_all_concat_map)

definition front_tls_loads :: "machine \<Rightarrow> ExternalFrontConfig \<Rightarrow> bool" where
  "front_tls_loads mc ef \<longleftrightarrow>
     ef_trusted_front_tls_cert ef \<noteq> '''' \<and> ef_trusted_front_tls_key ef \<noteq> '''' \<and> ef_trusted_front_tls_ca ef \<noteq> '''' \<and>
     list_all (\<lambda>c. mc_throws mc (Front_tls c) = None)
       [Default_options, Certificate_chain (ef_trusted_front_tls_cert ef), Key_password (ef_trusted_front_tls_key_password ef),
        Private_key (ef_trusted_front_tls_key ef), Load_verify_file (ef_trusted_front_tls_ca ef), Verify_peer_required]"

lemma front_tls_iff:
  "list_all (\<lambda>a. action_exn mc cfg a = None) (front_tls_script cfg) \<longleftrightarrow> (front_mtls cfg \<longrightarrow> front_tls_loads mc (external_front cfg))"
  by (auto simp: front_tls_script_def front_tls_loads_def curve_calls_def Let_def)

definition server_loads :: "build_env \<Rightarrow> machine \<Rightarrow> Config \<Rightarrow> bool" where
  "server_loads be mc cfg \<longleftrightarrow>
     list_all (\<lambda>c. mc_throws mc (Tls c) = None)
       [Certificate_chain (ssl_cert (ssl cfg)), Key_password (ssl_key_password (ssl cfg)), Private_key (ssl_key (ssl cfg)),
        if ssl_dhparam (ssl cfg) = '''' then Tmp_dh_default else Tmp_dh_file (ssl_dhparam (ssl cfg))] \<and>
     (ssl_plain_http_response (ssl cfg) \<noteq> '''' \<longrightarrow> (\<exists>contents. mc_read_file mc (ssl_plain_http_response (ssl cfg)) = Inr contents)) \<and>
     (mysql_enabled (mysql cfg) \<and> be_mysql be \<longrightarrow> (\<exists>h. authenticator_new (mc_mysql mc) (mysql cfg) = Inr h))"

lemma server_iff: "list_all (\<lambda>a. action_exn mc cfg a = None) (server_script be cfg) \<longleftrightarrow> server_loads be mc cfg"
  by (auto simp: server_script_def server_tls_calls_def mysql_script_def dh_call_def server_loads_def split: sum.split)

definition client_loads :: "machine \<Rightarrow> SSLConfig \<Rightarrow> string \<Rightarrow> bool" where
  "client_loads mc c name \<longleftrightarrow>
     (if ssl_verify c
      then mc_throws mc (Tls Verify_peer) = None \<and>
           mc_throws mc (Tls (if ssl_cert c = '''' then Default_verify_paths else Load_verify_file (ssl_cert c))) = None \<and>
           (ssl_verify_hostname c \<longrightarrow> mc_throws mc (Tls (Verify_host name)) = None)
      else mc_throws mc (Tls Verify_none) = None)"

lemma client_ssl_simps [simp]:
  "ssl_verify (client_ssl cfg) = ssl_verify (ssl cfg)" "ssl_verify_hostname (client_ssl cfg) = ssl_verify_hostname (ssl cfg)"
  "ssl_cert (client_ssl cfg) = ssl_cert (ssl cfg)"
  "ssl_sni (client_ssl cfg) = (if ssl_sni (ssl cfg) = '''' then remote_addr cfg else ssl_sni (ssl cfg))"
  by (simp_all add: client_ssl_def)

lemma client_iff:
  "list_all (\<lambda>a. action_exn mc cfg a = None) (map (\<lambda>c. Call (Tls c)) (client_tls_calls (client_ssl cfg))) \<longleftrightarrow>
     client_loads mc (ssl cfg) (if ssl_sni (ssl cfg) = '''' then remote_addr cfg else ssl_sni (ssl cfg))"
  by (simp add: client_tls_calls_def client_loads_def del: client_ssl_simps(4)) (simp add: client_ssl_simps(4))

lemma service_new_iff:
  "(\<exists>ss l'. service_new be time mc test cfg l = (Inr ss, l')) \<longleftrightarrow>
     (run_type cfg = NAT \<longrightarrow> be_nat be) \<and> (\<not> test \<longrightarrow> can_listen be mc cfg) \<and> mc_throws mc (Tls Default_options) = None \<and>
     (front_mtls cfg \<longrightarrow> front_tls_loads mc (external_front cfg)) \<and>
     (if run_type cfg = SERVER then server_loads be mc cfg
      else client_loads mc (ssl cfg) (if ssl_sni (ssl cfg) = '''' then remote_addr cfg else ssl_sni (ssl cfg)))"
proof -
  have "list_all (\<lambda>a. action_exn mc cfg a = None) (cipher_script be keylog (ssl cfg))" for keylog
    by (simp add: cipher_script_def)
  moreover have "list_all (\<lambda>a. action_exn mc cfg a = None) (map (\<lambda>c. Call (Tls c)) (curve_calls (ssl cfg)))"
    by (simp add: curve_calls_def)
  ultimately have "list_all (\<lambda>a. action_exn mc cfg a = None) (service_script be keylog test cfg) \<longleftrightarrow>
     (run_type cfg = NAT \<longrightarrow> be_nat be) \<and> (\<not> test \<longrightarrow> can_listen be mc cfg) \<and> mc_throws mc (Tls Default_options) = None \<and>
     (front_mtls cfg \<longrightarrow> front_tls_loads mc (external_front cfg)) \<and>
     (if run_type cfg = SERVER then server_loads be mc cfg
      else client_loads mc (ssl cfg) (if ssl_sni (ssl cfg) = '''' then remote_addr cfg else ssl_sni (ssl cfg)))" for keylog
    by (simp add: service_script_def listen_iff front_tls_iff server_iff client_iff [simplified])
  then show ?thesis using service_new_Inr [of be time mc test cfg l] by metis
qed

text \<open>The TLS calls of a service that was constructed.\<close>

lemma set_tls_of:
  "set (concat (map tls_of as)) = {c. Call (Tls c) \<in> set as}"
  "set (concat (map front_tls_of as)) = {c. Call (Front_tls c) \<in> set as}"
proof -
  have "c \<in> set (tls_of a) \<longleftrightarrow> a = Call (Tls c)" "c \<in> set (front_tls_of a) \<longleftrightarrow> a = Call (Front_tls c)" for a c
    by (induction a rule: tls_of.induct; auto)+
  then show "set (concat (map tls_of as)) = {c. Call (Tls c) \<in> set as}"
    "set (concat (map front_tls_of as)) = {c. Call (Front_tls c) \<in> set as}" by (auto simp: set_eq_iff)
qed

lemma service_new_verifies:
  assumes "service_new be time mc test cfg l = (Inr ss, l')"
  shows "(run_type cfg \<noteq> SERVER \<and> ssl_verify (ssl cfg) \<longrightarrow> Verify_peer \<in> set (ss_tls ss) \<and> Verify_none \<notin> set (ss_tls ss)) \<and>
     (run_type cfg \<noteq> SERVER \<and> ssl_verify (ssl cfg) \<and> ssl_verify_hostname (ssl cfg) \<longrightarrow>
        Verify_host (if ssl_sni (ssl cfg) = '''' then remote_addr cfg else ssl_sni (ssl cfg)) \<in> set (ss_tls ss)) \<and>
     (front_mtls cfg \<longrightarrow> Verify_peer_required \<in> set (ss_front_tls ss) \<and>
        Load_verify_file (ef_trusted_front_tls_ca (external_front cfg)) \<in> set (ss_front_tls ss))"
proof -
  let ?as = "service_script be (lg_keylog l \<noteq> None) test cfg"
  have all: "list_all (\<lambda>a. action_exn mc cfg a = None) ?as" and ss: "ss = made_by mc cfg ?as"
    using service_new_Inr [of be time mc test cfg l ss] assms by blast+
  have tls: "c \<in> set (ss_tls ss) \<longleftrightarrow> Call (Tls c) \<in> set ?as" "c \<in> set (ss_front_tls ss) \<longleftrightarrow> Call (Front_tls c) \<in> set ?as" for c
    unfolding ss by (simp_all add: made_by_def set_tls_of del: set_concat)
  have "front_mtls cfg \<Longrightarrow> front_tls_loads mc (external_front cfg)"
    using all by (simp add: service_script_def front_tls_iff)
  then have "front_mtls cfg \<Longrightarrow> Call (Front_tls Verify_peer_required) \<in> set ?as \<and>
      Call (Front_tls (Load_verify_file (ef_trusted_front_tls_ca (external_front cfg)))) \<in> set ?as"
    by (simp add: service_script_def front_tls_script_def front_tls_loads_def Let_def)
  moreover have "Call (Tls Verify_peer) \<in> set ?as \<and> Call (Tls Verify_none) \<notin> set ?as \<and>
      (ssl_verify_hostname (ssl cfg) \<longrightarrow> Call (Tls (Verify_host (ssl_sni (client_ssl cfg)))) \<in> set ?as)"
    if "run_type cfg \<noteq> SERVER" "ssl_verify (ssl cfg)"
    using that by (auto simp: service_script_def client_tls_calls_def cipher_script_def curve_calls_def listen_script_def
        setup_acceptor_def front_tls_script_def Let_def simp del: client_ssl_simps(4))
  ultimately show ?thesis unfolding tls by simp
qed

end
