(* ===== verification/Udp_Forward_Session.thy ===== *)
theory Udp_Forward_Session
  imports Tunnel Udp_Packet
begin

text \<open>
  \<open>src/session/udpforwardsession.{h,cpp}\<close>: the datagrams of one local UDP endpoint carried to one
  target through the tunnel.  The service hands in each datagram (\<open>process\<close>) and is handed
  back each payload that arrives (\<open>in_write\<close>); the calls of \<open>in_write\<close> are kept in order in the
  state.
\<close>

section \<open>State and operations\<close>

datatype UdpForwardStatus = U_CONNECT | U_FORWARD | U_FORWARDING | U_DESTROY

record UDPForwardSession =
  us_status :: UdpForwardStatus
  us_endpoint :: endpoint
  us_out_read_size :: nat
  us_out_write_data :: string
  us_recv_len :: u64
  us_sent_len :: u64
  us_out_write_buf :: string
  us_udp_data_buf :: string
  us_out_open :: bool
  us_in_writes :: "(endpoint \<times> string) list"
  us_pending :: tun_ops

definition new_udp_forward_session :: "endpoint \<Rightarrow> UDPForwardSession" where
  "new_udp_forward_session ep = \<lparr>us_status = U_CONNECT, us_endpoint = ep, us_out_read_size = DEFAULT_BUFFER_SIZE,
     us_out_write_data = '''', us_recv_len = 0, us_sent_len = 0, us_out_write_buf = '''', us_udp_data_buf = '''',
     us_out_open = False, us_in_writes = [], us_pending = []\<rparr>"

definition us_begin :: "tun_op \<Rightarrow> UDPForwardSession \<Rightarrow> UDPForwardSession" where
  "us_begin op s = s\<lparr>us_pending := begin_op op (us_pending s)\<rparr>"

definition us_cancel :: "tun_object \<Rightarrow> UDPForwardSession \<Rightarrow> UDPForwardSession" where
  "us_cancel obj s = s\<lparr>us_pending := abort_ops obj (us_pending s)\<rparr>"

definition us_out_async_write_buffer :: "string \<Rightarrow> UDPForwardSession \<Rightarrow> UDPForwardSession" where
  "us_out_async_write_buffer data s = us_begin Tunnel_write (s\<lparr>us_out_write_data := data\<rparr>)"

text \<open>Setting the expiry of a timer cancels the waits on it.\<close>

definition us_timer_async_wait :: "UDPForwardSession \<Rightarrow> UDPForwardSession" where
  "us_timer_async_wait s = us_begin Gc_wait (us_cancel Gc_timer s)"

definition us_destroy :: "UDPForwardSession \<Rightarrow> UDPForwardSession" where
  "us_destroy s =
     (if us_status s = U_DESTROY then s
      else
        (let s = us_cancel Gc_timer (us_cancel Proxy_resolver (s\<lparr>us_status := U_DESTROY\<rparr>))
         in if us_out_open s
            then us_begin Close_wait (us_cancel Close_timer (us_begin Proxy_shutdown (us_cancel Proxy_socket s)))
            else s))"

definition us_shutdown_cb :: "completion \<Rightarrow> UDPForwardSession \<Rightarrow> UDPForwardSession" where
  "us_shutdown_cb c s =
     (if c = Aborted then s else (us_cancel Proxy_socket (us_cancel Close_timer s))\<lparr>us_out_open := False\<rparr>)"

definition us_in_recv :: "Config \<Rightarrow> string \<Rightarrow> UDPForwardSession \<Rightarrow> UDPForwardSession" where
  "us_in_recv cfg data s =
     (if us_status s = U_DESTROY then s
      else
        (let s = us_timer_async_wait (us_cancel Gc_timer s);
             packet = udp_generate_domain (target_addr cfg) (target_port cfg) data;
             s = s\<lparr>us_sent_len := us_sent_len s + of_nat (length data)\<rparr>
         in if us_status s = U_FORWARD
            then us_out_async_write_buffer packet (s\<lparr>us_status := U_FORWARDING\<rparr>)
            else s\<lparr>us_out_write_buf := us_out_write_buf s @ packet\<rparr>))"

definition us_process :: "Config \<Rightarrow> endpoint \<Rightarrow> string \<Rightarrow> UDPForwardSession \<Rightarrow> bool \<times> UDPForwardSession" where
  "us_process cfg ep data s = (if ep \<noteq> us_endpoint s then (False, s) else (True, us_in_recv cfg data s))"

text \<open>The loop of \<open>out_recv\<close> over the buffered bytes: whether it was left with \<open>break\<close>.\<close>

function us_deliver :: "UDPForwardSession \<Rightarrow> bool \<times> UDPForwardSession" where
  "us_deliver s =
     (case udp_decode (us_udp_data_buf s) of
        None \<Rightarrow> if length (us_udp_data_buf s) > MAX_LENGTH then (False, us_destroy s) else (True, s)
      | Some (packet, packet_len) \<Rightarrow>
          us_deliver (s\<lparr>us_udp_data_buf := drop packet_len (us_udp_data_buf s),
                        us_recv_len := us_recv_len s + of_nat (unat (pkt_length packet)),
                        us_in_writes := us_in_writes s @ [(us_endpoint s, pkt_payload packet)]\<rparr>))"
  by pat_completeness auto
termination
  by (relation "measure (\<lambda>s. length (us_udp_data_buf s))") (auto dest!: udp_stream.decode_bound)

declare us_deliver.simps [simp del]

definition us_out_recv :: "string \<Rightarrow> UDPForwardSession \<Rightarrow> UDPForwardSession" where
  "us_out_recv data s =
     (let s = s\<lparr>us_out_read_size := grow_after_read (us_out_read_size s) (length data)\<rparr>
      in if us_status s = U_FORWARD \<or> us_status s = U_FORWARDING
         then (case us_deliver ((us_timer_async_wait (us_cancel Gc_timer s))\<lparr>us_udp_data_buf := us_udp_data_buf s @ data\<rparr>) of
                 (True, s) \<Rightarrow> us_begin Tunnel_read s
               | (False, s) \<Rightarrow> s)
         else s)"

definition us_out_sent :: "UDPForwardSession \<Rightarrow> UDPForwardSession" where
  "us_out_sent s =
     (if us_status s = U_FORWARDING
      then (if us_out_write_buf s = [] then s\<lparr>us_status := U_FORWARD\<rparr>
            else (us_out_async_write_buffer (us_out_write_buf s) s)\<lparr>us_out_write_buf := ''''\<rparr>)
      else s)"

definition us_resolved :: "bool \<Rightarrow> completion \<Rightarrow> UDPForwardSession \<Rightarrow> UDPForwardSession" where
  "us_resolved open_ok c s =
     (case c of
        Resolved (ep # eps) \<Rightarrow>
          if \<not> open_ok then us_destroy s else us_begin (Proxy_connect ep) (s\<lparr>us_out_open := True\<rparr>)
      | _ \<Rightarrow> us_destroy s)"

definition us_connected :: "completion \<Rightarrow> UDPForwardSession \<Rightarrow> UDPForwardSession" where
  "us_connected c s = (if c = Done then us_begin Proxy_handshake s else us_destroy s)"

definition us_established :: "completion \<Rightarrow> UDPForwardSession \<Rightarrow> UDPForwardSession" where
  "us_established c s =
     (if c = Done
      then (let s = us_begin Tunnel_read (s\<lparr>us_status := U_FORWARDING\<rparr>)
            in (us_out_async_write_buffer (us_out_write_buf s) s)\<lparr>us_out_write_buf := ''''\<rparr>)
      else us_destroy s)"

definition us_start :: "Config \<Rightarrow> UDPForwardSession \<Rightarrow> UDPForwardSession cxx" where
  "us_start cfg s =
     bind_exn (first_password cfg) (\<lambda>pw.
       Inr (us_begin Proxy_resolve
         ((us_timer_async_wait s)\<lparr>us_out_write_buf := trojan_generate pw (target_addr cfg) (target_port cfg) False\<rparr>)))"

fun us_on_complete :: "bool \<Rightarrow> tun_op \<Rightarrow> completion \<Rightarrow> UDPForwardSession \<Rightarrow> UDPForwardSession" where
  "us_on_complete ok Tunnel_read c s =
     (case c of Received data \<Rightarrow> us_out_recv data s | _ \<Rightarrow> us_destroy s)"
| "us_on_complete ok Tunnel_write c s = (if c = Done then us_out_sent s else us_destroy s)"
| "us_on_complete ok Gc_wait c s = (if c = Done then us_destroy s else s)"
| "us_on_complete ok Proxy_resolve c s = us_resolved ok c s"
| "us_on_complete ok (Proxy_connect ep) c s = us_connected c s"
| "us_on_complete ok Proxy_handshake c s = us_established c s"
| "us_on_complete ok Proxy_shutdown c s = us_shutdown_cb c s"
| "us_on_complete ok Close_wait c s = us_shutdown_cb c s"
| "us_on_complete ok op c s = s"

section \<open>Steps\<close>

text \<open>The observer notes the frames of the datagrams handed in and the bytes of the tunnel handed on
  to the frame loop.\<close>

fun us_note :: "UDPForwardSession \<Rightarrow> tun_op \<Rightarrow> completion \<Rightarrow> io_trace \<Rightarrow> io_trace" where
  "us_note s Tunnel_read (Received d) tr =
     (if us_status s = U_FORWARD \<or> us_status s = U_FORWARDING then tr\<lparr>tr_down := tr_down tr @ d\<rparr> else tr)"
| "us_note s Tunnel_write c tr = tr\<lparr>tr_out_off := 0\<rparr>"
| "us_note s op c tr = tr"

text \<open>No step of establishing the tunnel succeeds after the session has ended.\<close>

definition us_orderly :: "UDPForwardSession \<Rightarrow> tun_op \<Rightarrow> completion \<Rightarrow> bool" where
  "us_orderly s op c \<longleftrightarrow> (is_connecting op \<and> us_status s \<noteq> U_CONNECT \<longrightarrow> c = Aborted \<or> (\<exists>m. c = Failed m))"

inductive us_step :: "Config \<Rightarrow> UDPForwardSession \<times> io_trace \<Rightarrow> UDPForwardSession \<times> io_trace \<Rightarrow> bool" for cfg where
  us_ready: "i < length (us_pending s) \<Longrightarrow> us_pending s ! i = (op, None) \<Longrightarrow>
     tun_admissible 0 (us_out_read_size s) 0 True (tr_out_off tr = length (us_out_write_data s)) op c \<Longrightarrow>
     us_step cfg (s, tr) (s\<lparr>us_pending := (us_pending s)[i := (op, Some c)]\<rparr>, tr)"
| us_out_progress: "(Tunnel_write, None) \<in> set (us_pending s) \<Longrightarrow> tr_out_off tr + k \<le> length (us_out_write_data s) \<Longrightarrow>
     us_step cfg (s, tr)
       (s, tr\<lparr>tr_out_wire := tr_out_wire tr @ take k (drop (tr_out_off tr) (us_out_write_data s)), tr_out_off := tr_out_off tr + k\<rparr>)"
| us_run: "i < length (us_pending s) \<Longrightarrow> us_pending s ! i = (op, Some c) \<Longrightarrow> us_orderly s op c \<Longrightarrow>
     us_step cfg (s, tr)
       (us_on_complete ok op c (s\<lparr>us_pending := remove_nth i (us_pending s)\<rparr>), us_note s op c tr)"
| us_datagram: "us_process cfg ep data s = (taken, s') \<Longrightarrow>
     us_step cfg (s, tr)
       (s', if taken \<and> us_status s \<noteq> U_DESTROY
            then tr\<lparr>tr_up := tr_up tr @ udp_generate_domain (target_addr cfg) (target_port cfg) data\<rparr> else tr)"

definition us_reachable :: "Config \<Rightarrow> endpoint \<Rightarrow> UDPForwardSession \<Rightarrow> io_trace \<Rightarrow> bool" where
  "us_reachable cfg ep s tr \<longleftrightarrow>
     (\<exists>s0. us_start cfg (new_udp_forward_session ep) = Inr s0 \<and> (us_step cfg)\<^sup>*\<^sup>* (s0, empty_trace) (s, tr))"

section \<open>The frame loop\<close>

text \<open>The loop hands on the payloads of all frames at the front of the buffer and leaves the rest.\<close>

definition delivered :: "UDPPacket list \<Rightarrow> string \<Rightarrow> UDPForwardSession \<Rightarrow> UDPForwardSession" where
  "delivered ps rest s = s\<lparr>us_udp_data_buf := rest,
     us_recv_len := us_recv_len s + of_nat (sum_list (map (\<lambda>p. unat (pkt_length p)) ps)),
     us_in_writes := us_in_writes s @ map (\<lambda>p. (us_endpoint s, pkt_payload p)) ps\<rparr>"

lemma us_deliver_drain:
  "us_deliver s =
     (let (ps, rest) = drain udp_decode (us_udp_data_buf s); s' = delivered ps rest s
      in if length rest > MAX_LENGTH then (False, us_destroy s') else (True, s'))"
proof (induction s rule: us_deliver.induct)
  case (1 s)
  show ?case
  proof (cases "udp_decode (us_udp_data_buf s)")
    case None
    then have "drain udp_decode (us_udp_data_buf s) = ([], us_udp_data_buf s)" by (rule udp_stream.drain_None)
    moreover have "delivered [] (us_udp_data_buf s) s = s" by (simp add: delivered_def)
    ultimately show ?thesis using None by (simp add: us_deliver.simps [of s])
  next
    case (Some x)
    obtain p n where x: "x = (p, n)" by fastforce
    let ?s = "s\<lparr>us_udp_data_buf := drop n (us_udp_data_buf s),
                us_recv_len := us_recv_len s + of_nat (unat (pkt_length p)),
                us_in_writes := us_in_writes s @ [(us_endpoint s, pkt_payload p)]\<rparr>"
    obtain qs rest where d: "drain udp_decode (drop n (us_udp_data_buf s)) = (qs, rest)" by fastforce
    with Some x have "drain udp_decode (us_udp_data_buf s) = (p # qs, rest)" by (simp add: udp_stream.drain_Some)
    moreover have "delivered qs rest ?s = delivered (p # qs) rest s" by (simp add: delivered_def)
    moreover have "us_deliver s = us_deliver ?s" using Some x by (simp add: us_deliver.simps [of s])
    ultimately show ?thesis using 1 [OF Some x [symmetric]] d by (simp add: Let_def)
  qed
qed

section \<open>The invariant\<close>

definition gc_alive :: "tun_ops \<Rightarrow> bool" where
  "gc_alive ps \<longleftrightarrow> (Gc_wait, None) \<in> set ps \<or> (Gc_wait, Some Done) \<in> set ps"

definition us_frames :: "io_trace \<Rightarrow> UDPPacket list" where
  "us_frames tr = fst (drain udp_decode (tr_down tr))"

definition us_inv :: "string \<Rightarrow> UDPForwardSession \<Rightarrow> io_trace \<Rightarrow> bool" where
  "us_inv req s tr \<longleftrightarrow>
     (let ps = us_pending s
      in us_in_writes s = map (\<lambda>p. (us_endpoint s, pkt_payload p)) (us_frames tr) \<and>
         us_recv_len s = of_nat (sum_list (map (\<lambda>p. unat (pkt_length p)) (us_frames tr))) \<and>
         (us_status s \<noteq> U_DESTROY \<longrightarrow> tun_closers ps = [] \<and> gc_alive ps \<and> us_udp_data_buf s = snd (drain udp_decode (tr_down tr))) \<and>
         (case us_status s of
            U_CONNECT \<Rightarrow> length (connecting ps) = 1 \<and> tun_downs ps = [] \<and> tun_writes ps = [] \<and>
              us_out_write_buf s = req @ tr_up tr \<and> (\<not> us_out_open s \<longrightarrow> map fst (connecting ps) = [Proxy_resolve]) \<and>
              tr_out_wire tr = [] \<and> tr_out_off tr = 0
          | U_FORWARDING \<Rightarrow> map fst (tun_downs ps) = [Tunnel_read] \<and> length (tun_writes ps) = 1 \<and> us_out_open s \<and>
              (\<exists>ev. req @ tr_up tr = ev @ us_out_write_buf s \<and>
                 flow ev (tr_out_wire tr) (tr_out_off tr) (us_out_write_data s) (write_of Tunnel_write (tun_writes ps)))
          | U_FORWARD \<Rightarrow> map fst (tun_downs ps) = [Tunnel_read] \<and> tun_writes ps = [] \<and> us_out_open s \<and>
              us_out_write_buf s = [] \<and> tr_out_wire tr = req @ tr_up tr \<and> tr_out_off tr = 0
          | U_DESTROY \<Rightarrow> \<not> in_flight Tunnel_write ps \<and> is_prefix (tr_out_wire tr) (req @ tr_up tr)))"

lemma us_frame [simp]:
  "us_pending (us_begin op s) = begin_op op (us_pending s)" "us_pending (us_cancel obj s) = abort_ops obj (us_pending s)"
  "us_status (us_begin op s) = us_status s" "us_status (us_cancel obj s) = us_status s"
  "us_endpoint (us_begin op s) = us_endpoint s" "us_endpoint (us_cancel obj s) = us_endpoint s"
  "us_out_write_data (us_begin op s) = us_out_write_data s" "us_out_write_data (us_cancel obj s) = us_out_write_data s"
  "us_recv_len (us_begin op s) = us_recv_len s" "us_recv_len (us_cancel obj s) = us_recv_len s"
  "us_out_write_buf (us_begin op s) = us_out_write_buf s" "us_out_write_buf (us_cancel obj s) = us_out_write_buf s"
  "us_udp_data_buf (us_begin op s) = us_udp_data_buf s" "us_udp_data_buf (us_cancel obj s) = us_udp_data_buf s"
  "us_out_open (us_begin op s) = us_out_open s" "us_out_open (us_cancel obj s) = us_out_open s"
  "us_in_writes (us_begin op s) = us_in_writes s" "us_in_writes (us_cancel obj s) = us_in_writes s"
  by (simp_all add: us_begin_def us_cancel_def)

lemma gc_alive_simps [simp]:
  "gc_alive (begin_op op ps) \<longleftrightarrow> op = Gc_wait \<or> gc_alive ps"
  "obj \<noteq> Gc_timer \<Longrightarrow> gc_alive (abort_ops obj ps) = gc_alive ps"
  by (auto simp: gc_alive_def begin_op_def abort_ops_def abort_op_def image_iff)

text \<open>The garbage-collection timer has no other operation.\<close>

lemma abort_gc [simp]:
  "map (abort_op Gc_timer) (tun_writes ps) = tun_writes ps"
  "map (abort_op Gc_timer) (tun_downs ps) = tun_downs ps"
  "map (abort_op Gc_timer) (connecting ps) = connecting ps"
  by (induction ps) (auto simp: tun_lists abort_op_def is_connecting_def)

lemma map_fst_single: "map fst xs = [a] \<longleftrightarrow> (\<exists>c. xs = [(a, c)])"
  by (cases xs) auto

lemma us_inv_prefix: "us_inv req s tr \<Longrightarrow> is_prefix (tr_out_wire tr) (req @ tr_up tr)"
  by (cases "us_status s") (auto simp: us_inv_def Let_def is_prefix_def dest!: flow_prefix)

text \<open>What a state needs so that \<open>destroy\<close> leaves it within the invariant.\<close>

definition us_closable :: "string \<Rightarrow> UDPForwardSession \<Rightarrow> io_trace \<Rightarrow> bool" where
  "us_closable req s tr \<longleftrightarrow>
     us_in_writes s = map (\<lambda>p. (us_endpoint s, pkt_payload p)) (us_frames tr) \<and>
     us_recv_len s = of_nat (sum_list (map (\<lambda>p. unat (pkt_length p)) (us_frames tr))) \<and>
     is_prefix (tr_out_wire tr) (req @ tr_up tr) \<and>
     (if us_status s = U_DESTROY then \<not> in_flight Tunnel_write (us_pending s)
      else in_flight Tunnel_write (us_pending s) \<longrightarrow> us_out_open s)"

lemma us_inv_closable:
  assumes "us_inv req s tr"
  shows "us_closable req s tr"
  using assms us_inv_prefix [OF assms] in_flight_writes [of "us_pending s"]
  by (cases "us_status s") (simp_all add: us_inv_def us_closable_def Let_def)

lemma us_destroy_inv: "us_closable req s tr \<Longrightarrow> us_inv req (us_destroy s) tr"
  by (auto simp: us_closable_def us_destroy_def us_inv_def Let_def)

lemma us_closable_remove: "us_closable req s tr \<Longrightarrow> us_closable req (s\<lparr>us_pending := remove_nth i (us_pending s)\<rparr>) tr"
  by (auto simp: us_closable_def dest: in_flight_remove split: if_splits)

section \<open>Preservation\<close>

lemma gc_complete:
  assumes "gc_alive ps" and "i < length ps" and "ps ! i = (op, None)" and "op = Gc_wait \<longrightarrow> c = Done"
  shows "gc_alive (ps[i := (op, Some c)])"
proof (cases "op = Gc_wait")
  case True
  then show ?thesis using assms(2,4) set_update_memI [OF assms(2)] by (simp add: gc_alive_def)
next
  case False
  have "x \<in> set (ps[i := y])" if "x \<in> set ps" "x \<noteq> ps ! i" for x y
    using that by (metis in_set_conv_nth length_list_update nth_list_update_neq)
  with False assms(1,3) show ?thesis by (auto simp: gc_alive_def)
qed

lemma gc_taken:
  assumes "gc_alive ps" and "ps ! i = (op, Some c)" and "op = Gc_wait \<longrightarrow> c \<noteq> Done" and "i < length ps"
  shows "gc_alive (remove_nth i ps)"
proof -
  have "x \<in> set (remove_nth i ps)" if "x \<in> set ps" "x \<noteq> ps ! i" for x
  proof -
    have "set ps = set (take i ps) \<union> {ps ! i} \<union> set (drop (Suc i) ps)"
      using id_take_nth_drop [OF assms(4)] by (metis Un_insert_right list.simps(15) set_append sup_bot_right Un_assoc insert_is_Un)
    with that show ?thesis by (auto simp: remove_nth_def)
  qed
  with assms(1-3) show ?thesis by (auto simp: gc_alive_def)
qed

lemma us_ready_inv:
  assumes "i < length (us_pending s)" and "us_pending s ! i = (op, None)"
    and "tun_admissible 0 (us_out_read_size s) 0 True (tr_out_off tr = length (us_out_write_data s)) op c"
    and "us_inv req s tr"
  shows "us_inv req (s\<lparr>us_pending := (us_pending s)[i := (op, Some c)]\<rparr>) tr"
proof -
  let ?ps = "(us_pending s)[i := (op, Some c)]"
  note l = complete_lists [OF assms(1,2), of c]
  have len: "length (tun_writes ?ps) = length (tun_writes (us_pending s))" "length (tun_downs ?ps) = length (tun_downs (us_pending s))"
    "length (connecting ?ps) = length (connecting (us_pending s))" "length (tun_closers ?ps) = length (tun_closers (us_pending s))"
    using l by (metis length_map)+
  have gc: "gc_alive (us_pending s) \<longrightarrow> gc_alive ?ps"
  proof -
    have "op = Gc_wait \<longrightarrow> c = Done" using assms(3) by (cases c) auto
    then show ?thesis using gc_complete [OF _ assms(1,2)] by blast
  qed
  show ?thesis
  proof (cases "us_status s")
    case U_DESTROY
    with assms(4) show ?thesis by (auto simp: us_inv_def Let_def dest: complete_in_flight)
  next
    case U_FORWARDING
    with assms(4) have "length (tun_writes (us_pending s)) \<le> 1" "length (tun_downs (us_pending s)) \<le> 1"
      by (auto simp: us_inv_def Let_def map_fst_single)
    note w = complete_write(1) [OF assms(1,2) this, of c] complete_write(2) [OF assms(1,2) this]
    have "tr_out_off tr = length (us_out_write_data s)" if "op = Tunnel_write" "c = Done" using assms(3) that by simp
    with U_FORWARDING assms(4) len l gc w show ?thesis by (auto simp: us_inv_def Let_def flow_def)
  qed (use assms(4) len l gc in \<open>simp_all add: us_inv_def Let_def\<close>)
qed

lemma us_datagram_inv:
  assumes "us_process cfg ep data s = (taken, s')" and "us_inv req s tr"
  shows "us_inv req s' (if taken \<and> us_status s \<noteq> U_DESTROY
            then tr\<lparr>tr_up := tr_up tr @ udp_generate_domain (target_addr cfg) (target_port cfg) data\<rparr> else tr)"
proof (cases "ep = us_endpoint s \<and> us_status s \<noteq> U_DESTROY")
  case True
  then have s': "taken" "s' = us_in_recv cfg data s" using assms(1) by (simp_all add: us_process_def)
  have "us_frames (tr\<lparr>tr_up := x\<rparr>) = us_frames tr" for x by (simp add: us_frames_def)
  with True s' assms(2) show ?thesis
    by (cases "us_status s")
       (auto simp: us_inv_def Let_def us_in_recv_def us_timer_async_wait_def us_out_async_write_buffer_def write_of_def flow_def
         split: option.splits)
next
  case False
  then show ?thesis using assms by (auto simp: us_process_def us_in_recv_def split: if_splits)
qed

lemma us_note_simps [simp]:
  "tr_up (us_note s op c tr) = tr_up tr"
  "tr_out_wire (us_note s op c tr) = tr_out_wire tr"
  "tr_out_off (us_note s op c tr) = (if op = Tunnel_write then 0 else tr_out_off tr)"
  by (cases "(s, op, c, tr)" rule: us_note.cases; simp)+

lemma us_note_down:
  "op \<noteq> Tunnel_read \<or> (\<forall>d. c \<noteq> Received d) \<or> us_status s = U_DESTROY \<or> us_status s = U_CONNECT \<Longrightarrow>
   tr_down (us_note s op c tr) = tr_down tr"
  by (cases "(s, op, c, tr)" rule: us_note.cases) auto

lemma us_run_destroys:
  assumes "us_closable req s tr" and "op \<noteq> Tunnel_read \<or> (\<forall>d. c \<noteq> Received d) \<or> us_status s = U_DESTROY"
  shows "us_closable req (s\<lparr>us_pending := remove_nth i (us_pending s)\<rparr>) (us_note s op c tr)"
proof -
  have "tr_down (us_note s op c tr) = tr_down tr" using us_note_down assms(2) by blast
  with us_closable_remove [OF assms(1), of i] show ?thesis by (auto simp: us_closable_def us_frames_def)
qed

lemma us_run_destroyed:
  assumes "us_status s = U_DESTROY" and "us_orderly s op c" and "us_closable req s tr"
  shows "us_inv req (us_on_complete ok op c (s\<lparr>us_pending := remove_nth i (us_pending s)\<rparr>)) (us_note s op c tr)"
proof -
  let ?s = "s\<lparr>us_pending := remove_nth i (us_pending s)\<rparr>"
  have d: "us_destroy ?s = ?s" using assms(1) by (simp add: us_destroy_def)
  have cl: "us_closable req ?s (us_note s op c tr)" using us_run_destroys assms(1,3) by blast
  have "us_closable req (us_on_complete ok op c ?s) (us_note s op c tr) \<and> us_status (us_on_complete ok op c ?s) = U_DESTROY"
  proof (cases op)
    case Tunnel_read
    with cl d assms(1) show ?thesis by (cases c) (auto simp: us_out_recv_def Let_def us_closable_def)
  next
    case Proxy_shutdown
    with cl assms(1) show ?thesis by (auto simp: us_shutdown_cb_def us_closable_def)
  next
    case Close_wait
    with cl assms(1) show ?thesis by (auto simp: us_shutdown_cb_def us_closable_def)
  qed (use assms(1,2) cl d in \<open>auto simp: us_orderly_def us_resolved_def us_connected_def us_established_def us_out_sent_def\<close>)
  then show ?thesis by (auto simp: us_inv_def us_closable_def Let_def)
qed

text \<open>Bytes of the tunnel: the frame loop works off the whole stream received so far.\<close>

lemma us_out_recv_inv:
  assumes "us_inv req s tr" and "us_status s = U_FORWARD \<or> us_status s = U_FORWARDING"
    and "i < length (us_pending s)" and "us_pending s ! i = (Tunnel_read, Some (Received d))"
  shows "us_inv req (us_out_recv d (s\<lparr>us_pending := remove_nth i (us_pending s)\<rparr>)) (tr\<lparr>tr_down := tr_down tr @ d\<rparr>)"
proof -
  let ?tr = "tr\<lparr>tr_down := tr_down tr @ d\<rparr>"
  note keep = taken_lists [OF assms(3,4)]
  note inv = assms(1) [unfolded us_inv_def Let_def]
  have "length (tun_downs (us_pending s)) \<le> 1" using inv assms(2) by (auto simp: map_fst_single)
  then have dn: "tun_downs (remove_nth i (us_pending s)) = []" using taken_single(2) [OF assms(3,4)] by simp
  obtain ps rest where d1: "drain udp_decode (tr_down tr) = (ps, rest)" by fastforce
  obtain qs rest' where d2: "drain udp_decode (rest @ d) = (qs, rest')" by fastforce
  have dr: "drain udp_decode (tr_down ?tr) = (ps @ qs, rest')"
    using udp_stream.drain_append [of "tr_down tr" d] d1 d2 by simp
  have buf: "us_udp_data_buf s = rest" using inv assms(2) d1 by auto
  define s1 where "s1 = (us_timer_async_wait (us_cancel Gc_timer (s\<lparr>us_pending := remove_nth i (us_pending s),
      us_out_read_size := grow_after_read (us_out_read_size s) (length d)\<rparr>)))\<lparr>us_udp_data_buf := rest @ d\<rparr>"
  have out: "us_out_recv d (s\<lparr>us_pending := remove_nth i (us_pending s)\<rparr>) =
      (if length rest' > MAX_LENGTH then us_destroy (delivered qs rest' s1) else us_begin Tunnel_read (delivered qs rest' s1))"
    using assms(2) d2 buf by (auto simp: us_out_recv_def us_deliver_drain s1_def Let_def us_timer_async_wait_def us_begin_def us_cancel_def)
  have frames: "us_frames ?tr = us_frames tr @ qs" using dr d1 by (simp add: us_frames_def)
  have iw: "us_in_writes (delivered qs rest' s1) = map (\<lambda>p. (us_endpoint s, pkt_payload p)) (us_frames ?tr)"
    "us_recv_len (delivered qs rest' s1) = of_nat (sum_list (map (\<lambda>p. unat (pkt_length p)) (us_frames ?tr)))"
    using inv frames by (simp_all add: delivered_def s1_def us_timer_async_wait_def)
  have s1: "us_status s1 = us_status s" "us_endpoint s1 = us_endpoint s" "us_out_open s1" "us_out_write_buf s1 = us_out_write_buf s"
    "us_out_write_data s1 = us_out_write_data s" "tun_writes (us_pending s1) = tun_writes (us_pending s)"
    "tun_downs (us_pending s1) = []" "tun_closers (us_pending s1) = []" "gc_alive (us_pending s1)"
    using inv assms(2) keep dn by (auto simp: s1_def us_timer_async_wait_def)
  have "us_closable req (delivered qs rest' s1) ?tr"
    using iw s1 us_inv_prefix [OF assms(1)] assms(2) by (auto simp: us_closable_def delivered_def)
  then have 1: "us_inv req (us_destroy (delivered qs rest' s1)) ?tr" by (rule us_destroy_inv)
  have 2: "us_inv req (us_begin Tunnel_read (delivered qs rest' s1)) ?tr"
    using assms(2)
  proof
    assume "us_status s = U_FORWARD"
    then show ?thesis using inv iw s1 dr by (simp add: us_inv_def Let_def delivered_def)
  next
    assume "us_status s = U_FORWARDING"
    then show ?thesis using inv iw s1 dr by (simp add: us_inv_def Let_def delivered_def)
  qed
  show ?thesis using 1 2 out by simp
qed

lemma us_run_live:
  assumes "i < length (us_pending s)" and "us_pending s ! i = (op, Some c)" and "us_orderly s op c"
    and "us_inv req s tr" and "us_status s \<noteq> U_DESTROY"
  shows "us_inv req (us_on_complete ok op c (s\<lparr>us_pending := remove_nth i (us_pending s)\<rparr>)) (us_note s op c tr)"
proof -
  let ?s = "s\<lparr>us_pending := remove_nth i (us_pending s)\<rparr>"
  note keep = taken_lists [OF assms(1,2)] and single = taken_single [OF assms(1,2)]
  note inv = assms(4) [unfolded us_inv_def Let_def]
  have destroys: "us_inv req (us_destroy ?s) (us_note s op c tr)" if "op \<noteq> Tunnel_read \<or> (\<forall>d. c \<noteq> Received d)"
    using us_destroy_inv us_run_destroys us_inv_closable [OF assms(4)] that by blast
  have frames: "us_frames (us_note s op c tr) = us_frames tr" if "op \<noteq> Tunnel_read"
    using that us_note_down by (simp add: us_frames_def)
  have gc: "gc_alive (remove_nth i (us_pending s))" if "op = Gc_wait \<longrightarrow> c \<noteq> Done"
    using gc_taken [OF _ assms(2) that assms(1)] inv assms(5) by simp
  have unchanged: "us_inv req ?s (us_note s op c tr)"
    if "\<not> is_connecting op" "op \<noteq> Tunnel_read" "op \<noteq> Client_write" "op \<noteq> Tunnel_write" "op \<noteq> Proxy_shutdown" "op \<noteq> Close_wait"
      "op = Gc_wait \<longrightarrow> c \<noteq> Done"
    using that keep gc frames us_note_down [of op c s tr] inv assms(5)
    by (cases "us_status s") (auto simp: us_inv_def Let_def)
  show ?thesis
  proof (cases op)
    case Tunnel_read
    show ?thesis
    proof (cases c)
      case (Received d)
      show ?thesis
      proof (cases "us_status s = U_CONNECT")
        case True
        have "(Tunnel_read, Some c) \<in> set (us_pending s)" using nth_mem [OF assms(1)] assms(2) Tunnel_read by simp
        with True inv show ?thesis by (auto simp: tun_downs_def filter_empty_conv)
      next
        case False
        then have "us_status s = U_FORWARD \<or> us_status s = U_FORWARDING" using assms(5) by (cases "us_status s") auto
        with us_out_recv_inv [OF assms(4) _ assms(1), of d] assms(2) Tunnel_read Received show ?thesis by auto
      qed
    qed (use destroys Tunnel_read in auto)
  next
    case Tunnel_write
    show ?thesis
    proof (cases "c = Done")
      case True
      have "us_status s = U_FORWARDING \<or> tun_writes (us_pending s) = []" using inv assms(5) by (cases "us_status s") auto
      moreover have "tun_writes (us_pending s) \<noteq> []"
        using nth_mem [OF assms(1)] assms(2) Tunnel_write by (force simp: tun_writes_def filter_empty_conv)
      ultimately have st: "us_status s = U_FORWARDING" by blast
      then have "length (tun_writes (us_pending s)) \<le> 1" using inv by simp
      from single(1) [OF Tunnel_write this] have w: "tun_writes (us_pending s) = [(Tunnel_write, Some Done)]"
        "tun_writes (remove_nth i (us_pending s)) = []" using Tunnel_write True by simp_all
      then show ?thesis using inv st keep gc frames Tunnel_write True us_note_down [of op c s tr]
        by (auto simp: us_out_sent_def us_out_async_write_buffer_def us_inv_def Let_def write_of_def flow_def)
    qed (use destroys Tunnel_write in auto)
  next
    case Gc_wait
    then show ?thesis using destroys unchanged by auto
  next
    case Proxy_resolve
    show ?thesis
    proof (cases "us_resolved ok c ?s = us_destroy ?s")
      case False
      then obtain ep eps where "c = Resolved (ep # eps)" ok
        by (auto simp: us_resolved_def split: completion.splits list.splits if_splits)
      moreover from this have "us_status s = U_CONNECT" using assms(3) Proxy_resolve by (auto simp: us_orderly_def)
      ultimately show ?thesis using single(3) keep gc frames Proxy_resolve inv us_note_down [of op c s tr]
        by (simp add: us_resolved_def us_inv_def Let_def)
    qed (use destroys Proxy_resolve in auto)
  next
    case (Proxy_connect ep)
    show ?thesis
    proof (cases "c = Done")
      case True
      then have "us_status s = U_CONNECT" using assms(3) Proxy_connect by (auto simp: us_orderly_def)
      with True single(3) keep gc frames Proxy_connect inv us_note_down [of op c s tr] show ?thesis
        by (auto simp: us_connected_def us_inv_def Let_def)
    qed (use destroys Proxy_connect in \<open>auto simp: us_connected_def\<close>)
  next
    case Proxy_handshake
    show ?thesis
    proof (cases "c = Done")
      case True
      then have "us_status s = U_CONNECT" using assms(3) Proxy_handshake by (auto simp: us_orderly_def)
      with True single(3) keep gc frames Proxy_handshake inv us_note_down [of op c s tr] show ?thesis
        by (auto simp: us_established_def us_out_async_write_buffer_def us_inv_def Let_def write_of_def flow_def)
    qed (use destroys Proxy_handshake in \<open>auto simp: us_established_def\<close>)
  next
    case Client_write
    then have "(Client_write, Some c) \<in> set (tun_downs (us_pending s))"
      using nth_mem [OF assms(1)] assms(2) by (simp add: tun_downs_def)
    moreover have "\<forall>p \<in> set (tun_downs (us_pending s)). fst p = Tunnel_read"
      using inv assms(5) by (cases "us_status s") (auto simp: map_fst_single)
    ultimately show ?thesis by fastforce
  qed (use single(5) inv assms(5) unchanged in auto)
qed

lemma us_step_inv: "us_step cfg (s, tr) (s', tr') \<Longrightarrow> us_inv req s tr \<Longrightarrow> us_inv req s' tr'"
proof (induction "(s, tr)" "(s', tr')" rule: us_step.induct)
  case (us_ready i op c)
  then show ?case using us_ready_inv by blast
next
  case (us_out_progress k)
  then have f: "in_flight Tunnel_write (us_pending s')" by (simp add: in_flight_def)
  have "us_status s' = U_FORWARDING"
    using us_out_progress f in_flight_writes [of "us_pending s'"] by (cases "us_status s'") (auto simp: us_inv_def Let_def)
  with us_out_progress have "us_status s' = U_FORWARDING" "write_of Tunnel_write (tun_writes (us_pending s')) = Some None"
    using in_flight_single(1) [OF f] by (auto simp: us_inv_def Let_def)
  with us_out_progress show ?case by (auto simp: us_inv_def Let_def us_frames_def intro: flow_progress)
next
  case (us_run i op c ok)
  then show ?case
    using us_run_destroyed [OF _ _ us_inv_closable, of s op c req tr ok i] us_run_live [of i s op c req tr ok]
    by (cases "us_status s = U_DESTROY") simp_all
next
  case (us_datagram ep data taken)
  then show ?case using us_datagram_inv [of cfg ep data s taken s' req tr] by simp
qed

lemma us_reachable_inv:
  assumes "us_reachable cfg ep s tr" and "first_password cfg = Inr pw"
  shows "us_inv (trojan_generate pw (target_addr cfg) (target_port cfg) False) s tr"
proof -
  have steps: "(us_step cfg)\<^sup>*\<^sup>* c c' \<Longrightarrow> us_inv req (fst c) (snd c) \<Longrightarrow> us_inv req (fst c') (snd c')" for c c' req
    by (induction rule: rtranclp_induct) (auto intro: us_step_inv)
  from assms(1) obtain s0 where r: "us_start cfg (new_udp_forward_session ep) = Inr s0" "(us_step cfg)\<^sup>*\<^sup>* (s0, empty_trace) (s, tr)"
    by (auto simp: us_reachable_def)
  have "drain udp_decode [] = ([], [])" by (rule udp_stream.drain_None) code_simp
  then have "us_inv (trojan_generate pw (target_addr cfg) (target_port cfg) False) s0 empty_trace"
    using r(1) assms(2)
    by (auto simp: us_start_def us_timer_async_wait_def new_udp_forward_session_def us_inv_def Let_def empty_trace_def us_frames_def
        tun_lists us_begin_def us_cancel_def begin_op_def abort_ops_def gc_alive_def)
  with steps [OF r(2)] show ?thesis by simp
qed

text \<open>The endpoint of a session never changes.\<close>

lemma us_frames_delivered:
  assumes "us_reachable cfg ep s tr" and "first_password cfg = Inr pw"
  shows "map snd (us_in_writes s) = map pkt_payload (fst (drain udp_decode (tr_down tr)))"
  using us_reachable_inv [OF assms] by (auto simp: us_inv_def Let_def us_frames_def)

end
