(* ===== verification/Service_Setup.thy ===== *)
theory Service_Setup
  imports Service_Constructor Udp_Forward_Session Client_Session
begin

text \<open>
  \<open>src/core/service.{h,cpp}\<close>: what a constructed service keeps running.  The loops and threads of \<open>run\<close>,
  the accept loops with \<open>stop\<close> and the reloading of the certificate, and the UDP listener of the
  forward mode with its table of sessions.
\<close>

section \<open>Running\<close>

definition run_type_name :: "Config \<Rightarrow> string" where
  "run_type_name cfg =
     (if run_type cfg = SERVER then ''server''
      else if run_type cfg = FORWARD then ''forward''
      else if run_type cfg = NAT then ''nat''
      else ''client'')"

text \<open>The loops \<open>run\<close> starts and the contexts its threads serve: \<open>None\<close> is the service's own context.\<close>

datatype loop = Accept_main | Accept_worker nat | Accept_front | Udp_read_loop

definition run_loops :: "bool \<Rightarrow> nat \<Rightarrow> bool \<Rightarrow> Config \<Rightarrow> loop list" where
  "run_loops use_multi n_workers has_front cfg =
     (if use_multi
      then (if run_type cfg = FORWARD then [Udp_read_loop] else []) @ map Accept_worker [0..<n_workers]
      else Accept_main # (if has_front then [Accept_front] else []) @ (if run_type cfg = FORWARD then [Udp_read_loop] else []))"

definition run_threads :: "bool \<Rightarrow> nat \<Rightarrow> int \<Rightarrow> Config \<Rightarrow> nat option list" where
  "run_threads use_multi n_workers thread_num cfg =
     (if use_multi
      then map Some [0..<n_workers] @ (if run_type cfg = FORWARD then [None] else [])
      else if thread_num > 1 then replicate (nat thread_num) None
      else [None])"

text \<open>The context a loop's handlers run on.\<close>

fun loop_context :: "loop \<Rightarrow> nat option" where
  "loop_context (Accept_worker i) = Some i"
| "loop_context l = None"

definition service_context :: "bool \<Rightarrow> nat \<Rightarrow> nat option" where
  "service_context use_multi n_workers = (if use_multi \<and> n_workers \<noteq> 0 then Some 0 else None)"

text \<open>Every loop that is started has a thread that runs its handlers.\<close>

lemma loops_served:
  assumes "l \<in> set (run_loops use_multi n has_front cfg)"
  shows "loop_context l \<in> set (run_threads use_multi n thread_num cfg)"
  using assms by (auto simp: run_loops_def run_threads_def simp del: upt_Suc split: if_split_asm)

section \<open>Sessions of every kind\<close>

datatype AnySession =
    Server_session ServerSession
  | Forward_session ForwardSession
  | Nat_session ForwardSession
  | Client_session ClientSession

definition create_session :: "(string \<Rightarrow> ptree option) \<Rightarrow> Config \<Rightarrow> AnySession" where
  "create_session rj cfg =
     (if run_type cfg = SERVER then Server_session (create_server_session rj cfg True)
      else if run_type cfg = FORWARD then Forward_session new_forward_session
      else if run_type cfg = NAT then Nat_session new_forward_session
      else Client_session new_client_session)"

section \<open>Accept loops\<close>

text \<open>The accept operations on one acceptor: in flight (\<open>None\<close>) or complete and queued.\<close>

type_synonym accepts = "accept_error option list"

definition async_accept :: "accepts \<Rightarrow> accepts" where
  "async_accept as = as @ [None]"

definition cancel_accepts :: "accepts \<Rightarrow> accepts" where
  "cancel_accepts as = map (\<lambda>a. if a = None then Some Accept_aborted else a) as"

text \<open>The completion handler of an accept: \<open>handle_accept_completion\<close> decides whether to go on.\<close>

definition accept_completed :: "bool \<Rightarrow> nat \<Rightarrow> accepts \<Rightarrow> accepts" where
  "accept_completed go_on i as = (if go_on then async_accept (remove_nth i as) else remove_nth i as)"

definition reload_cert :: "Config \<Rightarrow> accepts \<Rightarrow> accepts" where
  "reload_cert cfg as = (if run_type cfg = SERVER then async_accept (cancel_accepts as) else as)"

definition stop_accepts :: "accepts \<Rightarrow> accepts" where
  "stop_accepts as = cancel_accepts as"

inductive accept_step :: "Config \<Rightarrow> accepts \<Rightarrow> accepts \<Rightarrow> bool" for cfg where
  accept_ready: "i < length as \<Longrightarrow> as ! i = None \<Longrightarrow> err \<noteq> Accept_aborted \<Longrightarrow> accept_step cfg as (as[i := Some err])"
| accept_run: "i < length as \<Longrightarrow> as ! i = Some err \<Longrightarrow>
     handle_accept_completion cfg start_session close_socket err remote bypass (s :: AnySession, sv) = (go_on, started, s', sv') \<Longrightarrow>
     accept_step cfg as (accept_completed go_on i as)"

text \<open>An operation that leads to another accept.\<close>

definition live_accepts :: "accepts \<Rightarrow> accepts" where
  "live_accepts as = filter (\<lambda>a. a \<noteq> Some Accept_aborted) as"

lemma accept_goes_on:
  "handle_accept_completion cfg start_session close_socket err remote bypass (s, sv) = (go_on, started, s', sv') \<Longrightarrow>
   go_on \<longleftrightarrow> err \<noteq> Accept_aborted"
  by (auto simp: handle_accept_completion_def Let_def split: accept_error.splits option.splits if_splits prod.splits AcceptDecision.splits)

lemma live_remove:
  assumes "i < length as"
  shows "length (live_accepts (remove_nth i as)) = length (live_accepts as) - (if as ! i = Some Accept_aborted then 0 else 1)"
proof -
  have "live_accepts as = live_accepts (take i as) @ live_accepts [as ! i] @ live_accepts (drop (Suc i) as)"
    using id_take_nth_drop [OF assms] unfolding live_accepts_def by (metis append_Cons append_Nil filter_append)
  then show ?thesis by (simp add: live_accepts_def remove_nth_def)
qed

lemma accept_step_live:
  assumes "accept_step cfg as as'"
  shows "length (live_accepts as') = length (live_accepts as)"
  using assms
proof cases
  case (accept_ready i err)
  then show ?thesis
    using length_filter_update [of i as "\<lambda>a. a \<noteq> Some Accept_aborted" "Some err"] by (simp add: live_accepts_def)
next
  case (accept_run i err start_session close_socket remote bypass s sv go_on started s' sv')
  have g: "go_on \<longleftrightarrow> err \<noteq> Accept_aborted" using accept_run(4) by (rule accept_goes_on)
  have "as ! i \<in> set as" using accept_run(2) by (rule nth_mem)
  then have "err \<noteq> Accept_aborted \<Longrightarrow> live_accepts as \<noteq> []"
    using accept_run by (auto simp: live_accepts_def filter_empty_conv)
  with live_remove [of i as] accept_run g show ?thesis
    by (cases "live_accepts as") (auto simp: accept_completed_def async_accept_def live_accepts_def)
qed

lemma accept_steps_live: "(accept_step cfg)\<^sup>*\<^sup>* as as' \<Longrightarrow> length (live_accepts as') = length (live_accepts as)"
  by (induction rule: rtranclp_induct) (auto dest: accept_step_live)

text \<open>A loop that nothing is queued for is renewed by a reload; one whose accept has completed is
  doubled.\<close>

lemma reload_live:
  "run_type cfg = SERVER \<Longrightarrow>
   length (live_accepts (reload_cert cfg as)) = 1 + length (filter (\<lambda>a. a \<noteq> None \<and> a \<noteq> Some Accept_aborted) as)"
proof -
  have "live_accepts (cancel_accepts as) = filter (\<lambda>a. a \<noteq> None \<and> a \<noteq> Some Accept_aborted) as"
    by (induction as) (auto simp: live_accepts_def cancel_accepts_def)
  then show "run_type cfg = SERVER \<Longrightarrow> ?thesis" by (simp add: reload_cert_def async_accept_def live_accepts_def)
qed

section \<open>The UDP listener\<close>

text \<open>The sessions are kept in a store; the table holds weak references into it.  A session is gone
  (the reference has expired) when no pending operation holds it any more.\<close>

record UdpListener =
  ul_sessions :: "endpoint \<Rightarrow> nat option"
  ul_store :: "UDPForwardSession list"
  ul_reading :: bool
  ul_stopped :: bool

definition new_udp_listener :: UdpListener where
  "new_udp_listener = \<lparr>ul_sessions = (\<lambda>ep. None), ul_store = [], ul_reading = True, ul_stopped = False\<rparr>"

text \<open>\<open>stop\<close> closes the socket: a receive in flight ends with \<open>operation_aborted\<close>.\<close>

definition ul_stop :: "UdpListener \<Rightarrow> UdpListener" where
  "ul_stop l = l\<lparr>ul_stopped := True\<rparr>"

definition expired :: "UDPForwardSession \<Rightarrow> bool" where
  "expired s \<longleftrightarrow> us_pending s = []"

text \<open>Creating a session for a source, starting it and giving it its first datagram.\<close>

definition ul_create :: "Config \<Rightarrow> endpoint \<Rightarrow> string \<Rightarrow> UdpListener \<Rightarrow> UdpListener cxx" where
  "ul_create cfg ep data l =
     bind_exn (us_start cfg (new_udp_forward_session ep)) (\<lambda>s.
       Inr (l\<lparr>ul_sessions := (ul_sessions l)(ep \<mapsto> length (ul_store l)),
              ul_store := ul_store l @ [snd (us_process cfg ep data s)], ul_reading := True\<rparr>))"

text \<open>The handler of a receive: the datagram goes to the session of its source.\<close>

definition ul_datagram :: "Config \<Rightarrow> endpoint \<Rightarrow> string \<Rightarrow> UdpListener \<Rightarrow> UdpListener cxx" where
  "ul_datagram cfg ep data l =
     (case ul_sessions l ep of
        None \<Rightarrow> ul_create cfg ep data l
      | Some i \<Rightarrow>
          if expired (ul_store l ! i) then ul_create cfg ep data (l\<lparr>ul_sessions := (ul_sessions l)(ep := None)\<rparr>)
          else (case us_process cfg ep data (ul_store l ! i) of
                  (True, s) \<Rightarrow> Inr (l\<lparr>ul_store := (ul_store l)[i := s], ul_reading := True\<rparr>)
                | (False, s) \<Rightarrow> ul_create cfg ep data (l\<lparr>ul_store := (ul_store l)[i := s]\<rparr>)))"

definition ul_received :: "Config \<Rightarrow> completion \<Rightarrow> UdpListener \<Rightarrow> UdpListener cxx" where
  "ul_received cfg c l =
     (let l = l\<lparr>ul_reading := False\<rparr>
      in case c of
           Aborted \<Rightarrow> Inr l
         | Datagram data ep \<Rightarrow> ul_datagram cfg ep data l
         | _ \<Rightarrow> Inr (ul_stop l))"

definition ul_inv :: "UdpListener \<Rightarrow> bool" where
  "ul_inv l \<longleftrightarrow>
     (\<forall>ep i. ul_sessions l ep = Some i \<longrightarrow> i < length (ul_store l) \<and> us_endpoint (ul_store l ! i) = ep)"

lemma us_endpoint_kept:
  "us_process cfg ep data s = (taken, s') \<Longrightarrow> us_endpoint s' = us_endpoint s"
  by (auto simp: us_process_def us_in_recv_def us_timer_async_wait_def us_out_async_write_buffer_def Let_def split: if_splits)

lemma us_start_endpoint: "us_start cfg (new_udp_forward_session ep) = Inr s \<Longrightarrow> us_endpoint s = ep"
  by (auto simp: us_start_def bind_exn_def us_timer_async_wait_def new_udp_forward_session_def split: sum.splits)

lemma us_process_taken: "us_endpoint s = ep \<Longrightarrow> us_process cfg ep data s = (True, us_in_recv cfg data s)"
  by (simp add: us_process_def)

lemma ul_create_inv:
  assumes "ul_inv l" and "ul_create cfg ep data l = Inr l'"
  shows "ul_inv l'"
proof -
  from assms(2) obtain s where s: "us_start cfg (new_udp_forward_session ep) = Inr s"
    and l': "l' = l\<lparr>ul_sessions := (ul_sessions l)(ep \<mapsto> length (ul_store l)),
              ul_store := ul_store l @ [snd (us_process cfg ep data s)], ul_reading := True\<rparr>"
    by (auto simp: ul_create_def bind_exn_def split: sum.splits)
  have "us_endpoint (snd (us_process cfg ep data s)) = ep"
    using us_endpoint_kept [of cfg ep data s] us_start_endpoint [OF s] by (metis prod.collapse)
  with assms(1) l' show ?thesis by (auto simp: ul_inv_def nth_append less_Suc_eq split: if_splits)
qed

text \<open>What one datagram does: only the session of its source changes.  A live session of that source
  receives it; without one a new session is started with it.\<close>

lemma ul_datagram_cases:
  assumes "ul_inv l" and "ul_datagram cfg ep data l = Inr l'"
  shows "ul_inv l' \<and> ul_reading l' \<and> (\<forall>ep'. ep' \<noteq> ep \<longrightarrow> ul_sessions l' ep' = ul_sessions l ep') \<and>
    (\<exists>i. ul_sessions l' ep = Some i \<and> (\<forall>j < length (ul_store l). j \<noteq> i \<longrightarrow> ul_store l' ! j = ul_store l ! j) \<and>
       (if \<exists>k. ul_sessions l ep = Some k \<and> \<not> expired (ul_store l ! k)
        then ul_sessions l ep = Some i \<and> ul_store l' ! i = us_in_recv cfg data (ul_store l ! i)
        else i = length (ul_store l) \<and>
          (\<exists>s. us_start cfg (new_udp_forward_session ep) = Inr s \<and> ul_store l' ! i = us_in_recv cfg data s)))"
proof (cases "\<exists>k. ul_sessions l ep = Some k \<and> \<not> expired (ul_store l ! k)")
  case True
  then obtain k where k: "ul_sessions l ep = Some k" "\<not> expired (ul_store l ! k)" by blast
  with assms(1) have e: "k < length (ul_store l)" "us_endpoint (ul_store l ! k) = ep" by (auto simp: ul_inv_def)
  with assms(2) k have l': "l' = l\<lparr>ul_store := (ul_store l)[k := us_in_recv cfg data (ul_store l ! k)], ul_reading := True\<rparr>"
    by (simp add: ul_datagram_def us_process_taken)
  have "us_endpoint (us_in_recv cfg data (ul_store l ! k)) = ep"
    using us_endpoint_kept [OF us_process_taken [OF e(2)]] e(2) by simp
  with assms(1) l' e have "ul_inv l'" by (auto simp: ul_inv_def nth_list_update)
  with k l' e show ?thesis by auto
next
  case False
  let ?l = "l\<lparr>ul_sessions := (ul_sessions l)(ep := None)\<rparr>"
  have "ul_datagram cfg ep data l = ul_create cfg ep data l \<or> ul_datagram cfg ep data l = ul_create cfg ep data ?l"
    using False by (auto simp: ul_datagram_def split: option.splits)
  then obtain l0 where l0: "ul_create cfg ep data l0 = Inr l'" "ul_inv l0" "ul_store l0 = ul_store l"
      "\<forall>ep'. ep' \<noteq> ep \<longrightarrow> ul_sessions l0 ep' = ul_sessions l ep'"
    using assms by (auto simp: ul_inv_def)
  from l0(1) obtain s where s: "us_start cfg (new_udp_forward_session ep) = Inr s"
    and l': "l' = l0\<lparr>ul_sessions := (ul_sessions l0)(ep \<mapsto> length (ul_store l0)),
              ul_store := ul_store l0 @ [snd (us_process cfg ep data s)], ul_reading := True\<rparr>"
    by (auto simp: ul_create_def bind_exn_def split: sum.splits)
  have "snd (us_process cfg ep data s) = us_in_recv cfg data s" using us_process_taken [OF us_start_endpoint [OF s]] by simp
  with l' l0 s ul_create_inv [OF l0(2,1)] False show ?thesis by (auto simp: nth_append)
qed

section \<open>A single accept loop\<close>

lemma accept_can_step:
  assumes "length (live_accepts as) = 1"
  shows "\<exists>as'. accept_step cfg as as'"
proof -
  from assms obtain a where a: "a \<in> set as" by (cases as) (auto simp: live_accepts_def)
  then obtain i where i: "i < length as" "as ! i = a" by (auto simp: in_set_conv_nth)
  show ?thesis
  proof (cases a)
    case None
    with i have "accept_step cfg as (as[i := Some Accept_ok])" by (intro accept_ready) simp_all
    then show ?thesis by blast
  next
    case (Some err)
    obtain go_on started s' sv' where "handle_accept_completion cfg (\<lambda>x. x) (\<lambda>x. x) err None True
        (Client_session new_client_session, new_service cfg 0) = (go_on, started, s', sv')"
      by (metis prod_cases4)
    with i Some accept_run [of i as err cfg] show ?thesis by blast
  qed
qed

lemma reload_single:
  assumes "length (live_accepts as) = 1" and "run_type cfg = SERVER"
  shows "length (live_accepts (reload_cert cfg as)) = (if None \<in> set as then 1 else 2)"
proof -
  define waiting where "waiting = length (filter (\<lambda>a. a = None) as)"
  define queued where "queued = length (filter (\<lambda>a. a \<noteq> None \<and> a \<noteq> Some Accept_aborted) as)"
  have "length (live_accepts as) = waiting + queued" unfolding waiting_def queued_def by (induction as) (auto simp: live_accepts_def)
  moreover have "None \<in> set as \<longleftrightarrow> 0 < waiting" unfolding waiting_def by (induction as) auto
  moreover have "length (live_accepts (reload_cert cfg as)) = 1 + queued" unfolding queued_def by (rule reload_live [OF assms(2)])
  ultimately show ?thesis using assms(1) by (auto split: if_split)
qed

end
