(* ===== verification/Tunnel_Samples.thy ===== *)
theory Tunnel_Samples
  imports Samples Client_Udp_Runs Service_Setup Mysql_Authenticator
begin

text \<open>
  Executable runs of the sessions of the client side, and the concrete runs on which their
  properties are exhibited.
\<close>

section \<open>Runs\<close>

fun fwd_act :: "bool \<Rightarrow> action \<Rightarrow> ForwardSession \<times> io_trace \<Rightarrow> (ForwardSession \<times> io_trace) option" where
  "fwd_act ord (Complete i c) (s, tr) =
     (if i < length (fs_pending s) \<and> snd (fs_pending s ! i) = None \<and>
         tun_admissible (fs_in_read_size s) (fs_out_read_size s) 0 (tr_in_off tr = length (fs_in_write_data s))
           (tr_out_off tr = length (fs_out_write_data s)) (fst (fs_pending s ! i)) c
      then Some (s\<lparr>fs_pending := (fs_pending s)[i := (fst (fs_pending s ! i), Some c)]\<rparr>, tr) else None)"
| "fwd_act ord (In_bytes k) (s, tr) =
     (if (Client_write, None) \<in> set (fs_pending s) \<and> tr_in_off tr + k \<le> length (fs_in_write_data s)
      then Some (s, tr\<lparr>tr_in_wire := tr_in_wire tr @ take k (drop (tr_in_off tr) (fs_in_write_data s)),
                       tr_in_off := tr_in_off tr + k\<rparr>) else None)"
| "fwd_act ord (Out_bytes k) (s, tr) =
     (if (Tunnel_write, None) \<in> set (fs_pending s) \<and> tr_out_off tr + k \<le> length (fs_out_write_data s)
      then Some (s, tr\<lparr>tr_out_wire := tr_out_wire tr @ take k (drop (tr_out_off tr) (fs_out_write_data s)),
                       tr_out_off := tr_out_off tr + k\<rparr>) else None)"
| "fwd_act ord (Run i ok) (s, tr) =
     (if i < length (fs_pending s)
      then (case fs_pending s ! i of
              (op, Some c) \<Rightarrow>
                if ord \<longrightarrow> orderly s op c
                then Some (fwd_on_complete ok op c (s\<lparr>fs_pending := remove_nth i (fs_pending s)\<rparr>), fwd_note s op c tr)
                else None
            | (op, None) \<Rightarrow> None)
      else None)"

fun fwd_acts :: "bool \<Rightarrow> action list \<Rightarrow> ForwardSession \<times> io_trace \<Rightarrow> (ForwardSession \<times> io_trace) option" where
  "fwd_acts ord [] c = Some c"
| "fwd_acts ord (a # as) c = (case fwd_act ord a c of None \<Rightarrow> None | Some c' \<Rightarrow> fwd_acts ord as c')"

lemma fwd_act_step: "fwd_act ord a c = Some c' \<Longrightarrow> fwd_step ord c c'"
proof (induction ord a c rule: fwd_act.induct)
  case (1 ord i c s tr)
  then show ?case by (auto split: if_splits intro!: fwd_step.fwd_ready) (metis prod.collapse)
next
  case (4 ord i ok s tr)
  then show ?case by (auto split: if_splits prod.splits option.splits intro!: fwd_step.fwd_run)
qed (auto split: if_splits intro: fwd_step.intros)

lemma fwd_acts_steps: "fwd_acts ord as c = Some c' \<Longrightarrow> (fwd_step ord)\<^sup>*\<^sup>* c c'"
  by (induction as arbitrary: c) (auto split: option.splits dest!: fwd_act_step intro: converse_rtranclp_into_rtranclp)

fun cl_act :: "bool \<Rightarrow> Config \<Rightarrow> os_answers \<Rightarrow> action \<Rightarrow> ClientSession \<times> client_view \<Rightarrow> (ClientSession \<times> client_view) option" where
  "cl_act ord cfg os (Complete i c) (s, v) =
     (if i < length (cs_pending s) \<and> snd (cs_pending s ! i) = None \<and>
         tun_admissible (cs_in_read_size s) (cs_out_read_size s) (cs_udp_read_size s)
           (tr_in_off (cv_trace v) = length (cs_in_write_data s)) (tr_out_off (cv_trace v) = length (cs_out_write_data s))
           (fst (cs_pending s ! i)) c
      then Some ((cl_arrive c s)\<lparr>cs_pending := (cs_pending s)[i := (fst (cs_pending s ! i), Some c)]\<rparr>,
                 cl_sends (fst (cs_pending s ! i)) c s v) else None)"
| "cl_act ord cfg os (In_bytes k) (s, v) =
     (if (Client_write, None) \<in> set (cs_pending s) \<and> tr_in_off (cv_trace v) + k \<le> length (cs_in_write_data s)
      then Some (s, cl_in_progressed k s v) else None)"
| "cl_act ord cfg os (Out_bytes k) (s, v) =
     (if (Tunnel_write, None) \<in> set (cs_pending s) \<and> tr_out_off (cv_trace v) + k \<le> length (cs_out_write_data s)
      then Some (s, cl_out_progressed k s v) else None)"
| "cl_act ord cfg os (Run i ok) (s, v) =
     (if i < length (cs_pending s)
      then (case cs_pending s ! i of
              (op, Some c) \<Rightarrow>
                if ord \<longrightarrow> cl_orderly s op c \<and> cl_quiet s op c
                then (case cl_on_complete cfg (os\<lparr>os_open_ok := ok\<rparr>) op c (s\<lparr>cs_pending := remove_nth i (cs_pending s)\<rparr>) of
                        Inl e \<Rightarrow> None
                      | Inr s' \<Rightarrow> Some (s', cl_look (os\<lparr>os_open_ok := ok\<rparr>) s op c v))
                else None
            | (op, None) \<Rightarrow> None)
      else None)"

fun cl_acts :: "bool \<Rightarrow> Config \<Rightarrow> os_answers \<Rightarrow> action list \<Rightarrow> ClientSession \<times> client_view \<Rightarrow> (ClientSession \<times> client_view) option" where
  "cl_acts ord cfg os [] c = Some c"
| "cl_acts ord cfg os (a # as) c = (case cl_act ord cfg os a c of None \<Rightarrow> None | Some c' \<Rightarrow> cl_acts ord cfg os as c')"

lemma cl_act_step: "cl_act ord cfg os a c = Some c' \<Longrightarrow> cl_step ord cfg c c'"
proof (induction ord cfg os a c rule: cl_act.induct)
  case (1 ord cfg os i c s v)
  then show ?case by (auto split: if_splits intro!: cl_step.cl_ready) (metis prod.collapse)
next
  case (4 ord cfg os i ok s v)
  then show ?case by (auto split: if_splits prod.splits option.splits sum.splits intro!: cl_step.cl_run)
qed (auto split: if_splits intro: cl_step.intros)

lemma cl_acts_steps: "cl_acts ord cfg os as c = Some c' \<Longrightarrow> (cl_step ord cfg)\<^sup>*\<^sup>* c c'"
  by (induction as arbitrary: c) (auto split: option.splits dest!: cl_act_step intro: converse_rtranclp_into_rtranclp)

definition blank_view :: client_view where
  "blank_view = \<lparr>cv_trace = empty_trace, cv_said = '''', cv_datagrams = []\<rparr>"

lemma cl_acts_reachable:
  "cl_acts ord cfg os as (cl_start remote new_client_session, blank_view) = Some (s, v) \<Longrightarrow> cl_reachable ord cfg s v"
  unfolding cl_reachable_def blank_view_def using cl_acts_steps by blast

datatype udp_action = Io action | Local_datagram endpoint string

fun us_act :: "Config \<Rightarrow> udp_action \<Rightarrow> UDPForwardSession \<times> io_trace \<Rightarrow> (UDPForwardSession \<times> io_trace) option" where
  "us_act cfg (Io (Complete i c)) (s, tr) =
     (if i < length (us_pending s) \<and> snd (us_pending s ! i) = None \<and>
         tun_admissible 0 (us_out_read_size s) 0 True (tr_out_off tr = length (us_out_write_data s)) (fst (us_pending s ! i)) c
      then Some (s\<lparr>us_pending := (us_pending s)[i := (fst (us_pending s ! i), Some c)]\<rparr>, tr) else None)"
| "us_act cfg (Io (In_bytes k)) (s, tr) = None"
| "us_act cfg (Io (Out_bytes k)) (s, tr) =
     (if (Tunnel_write, None) \<in> set (us_pending s) \<and> tr_out_off tr + k \<le> length (us_out_write_data s)
      then Some (s, tr\<lparr>tr_out_wire := tr_out_wire tr @ take k (drop (tr_out_off tr) (us_out_write_data s)),
                       tr_out_off := tr_out_off tr + k\<rparr>) else None)"
| "us_act cfg (Io (Run i ok)) (s, tr) =
     (if i < length (us_pending s)
      then (case us_pending s ! i of
              (op, Some c) \<Rightarrow>
                if us_orderly s op c
                then Some (us_on_complete ok op c (s\<lparr>us_pending := remove_nth i (us_pending s)\<rparr>), us_note s op c tr)
                else None
            | (op, None) \<Rightarrow> None)
      else None)"
| "us_act cfg (Local_datagram ep data) (s, tr) =
     (case us_process cfg ep data s of (taken, s') \<Rightarrow>
        Some (s', if taken \<and> us_status s \<noteq> U_DESTROY
                  then tr\<lparr>tr_up := tr_up tr @ udp_generate_domain (target_addr cfg) (target_port cfg) data\<rparr> else tr))"

fun us_acts :: "Config \<Rightarrow> udp_action list \<Rightarrow> UDPForwardSession \<times> io_trace \<Rightarrow> (UDPForwardSession \<times> io_trace) option" where
  "us_acts cfg [] c = Some c"
| "us_acts cfg (a # as) c = (case us_act cfg a c of None \<Rightarrow> None | Some c' \<Rightarrow> us_acts cfg as c')"

lemma us_act_step: "us_act cfg a c = Some c' \<Longrightarrow> us_step cfg c c'"
proof (induction cfg a c rule: us_act.induct)
  case (1 cfg i c s tr)
  then show ?case by (auto split: if_splits intro!: us_step.us_ready) (metis prod.collapse)
next
  case (4 cfg i ok s tr)
  then show ?case by (auto split: if_splits prod.splits option.splits intro!: us_step.us_run)
next
  case (5 cfg ep data s tr)
  then show ?case
    by (auto split: prod.splits) (auto dest: us_step.us_datagram)
qed (auto split: if_splits intro: us_step.intros)

lemma us_acts_steps: "us_acts cfg as c = Some c' \<Longrightarrow> (us_step cfg)\<^sup>*\<^sup>* c c'"
  by (induction as arbitrary: c) (auto split: option.splits dest!: us_act_step intro: converse_rtranclp_into_rtranclp)

section \<open>A client\<close>

text \<open>The configuration of a client of the sample server, and of a forwarder to \<open>h:443\<close>.\<close>

definition client_config :: Config where
  "client_config = sample_config\<lparr>run_type := CLIENT, target_addr := ''h'', target_port := 443\<rparr>"

lemma client_config_simps [simp]:
  "password client_config = [(''70'', ''p'')]" "target_addr client_config = ''h''" "target_port client_config = 443"
  "first_password client_config = Inr ''70''"
  by (simp_all add: client_config_def first_password_def)

lemma sample_password_line: "find_sub crlf ''70'' = None"
  by code_simp

definition sample_os :: os_answers where
  "sample_os = \<lparr>os_local = Some loopback_peer, os_open_ok = True, os_bind = Some 1080, os_beyond = nul_terminated\<rparr>"

definition sample_server :: completion where
  "sample_server = Resolved [sample_endpoint ''10.0.0.9'' 443]"

text \<open>An application asks for \<open>h:443\<close> and says \<open>hi\<close> before the tunnel stands; the server's answer \<open>ok\<close>
  is on its way back.\<close>

definition greeting :: string where
  "greeting = [CHR 0x05, CHR 0x01, CHR 0x00]"

definition app_request :: "char \<Rightarrow> string" where
  "app_request cmd = [CHR 0x05, cmd, CHR 0x00, CHR 0x03, CHR 0x01, CHR ''h'', CHR 0x01, CHR 0xBB]"

definition wire_request :: "char \<Rightarrow> string" where
  "wire_request cmd = ''70'' @ crlf @ [cmd, CHR 0x03, CHR 0x01, CHR ''h'', CHR 0x01, CHR 0xBB] @ crlf"

lemma wire_request_bytes:
  "wire_request cmd = [CHR ''7'', CHR ''0'', CHR 0x0D, CHR 0x0A, cmd, CHR 0x03, CHR 0x01, CHR ''h'', CHR 0x01, CHR 0xBB, CHR 0x0D, CHR 0x0A]"
  by (simp add: wire_request_def crlf_def)

lemma sample_tunnel_request: "tunnel_request ''70'' (app_request cmd) = Inr (wire_request cmd)"
  by (simp add: tunnel_request_Inr app_request_def wire_request_def)

lemma sample_parses:
  "trojan_parse blank_request (wire_request (CHR 0x01)) = Inr (\<lparr>req_password = ''70'', req_command = CONNECT_cmd,
     req_address = \<lparr>address_type = DOMAINNAME, address = ''h'', port = 443\<rparr>, req_payload = ''''\<rparr>, 12)"
  "trojan_parse blank_request (wire_request (CHR 0x03)) = Inr (\<lparr>req_password = ''70'', req_command = UDP_ASSOCIATE,
     req_address = \<lparr>address_type = DOMAINNAME, address = ''h'', port = 443\<rparr>, req_payload = ''''\<rparr>, 12)"
  by code_simp+

lemma greeting_accepted: "cl_handshake greeting s = cl_in_async_write_buffer [CHR 0x05, CHR 0x00] s"
proof -
  have "has_method greeting" by code_simp
  then show ?thesis by (simp add: cl_handshake_def greeting_def)
qed

lemma app_requests:
  "cl_request client_config sample_os (app_request (CHR 0x01)) s =
     Inr ((cl_in_async_write_buffer connect_reply (s\<lparr>cs_target_host := ''h'', cs_target_port := 443, cs_is_udp := False\<rparr>))
       \<lparr>cs_out_write_buf := wire_request (CHR 0x01)\<rparr>)"
  "cl_request client_config sample_os (app_request (CHR 0x03)) s =
     Inr ((cl_in_async_write_buffer ([CHR 0x05, CHR 0x00, CHR 0x00] @ socks5_generate (loopback_peer\<lparr>ep_port := 1080\<rparr>))
        (s\<lparr>cs_target_host := ''h'', cs_target_port := 443, cs_is_udp := True, cs_udp_open := True\<rparr>))
       \<lparr>cs_out_write_buf := wire_request (CHR 0x03)\<rparr>)"
proof -
  have d: "\<not> length (app_request c) < 7" "app_request c ! 0 = CHR 0x05" "app_request c ! 2 = CHR 0x00" for c
    by (simp_all add: app_request_def)
  show "cl_request client_config sample_os (app_request (CHR 0x01)) s =
     Inr ((cl_in_async_write_buffer connect_reply (s\<lparr>cs_target_host := ''h'', cs_target_port := 443, cs_is_udp := False\<rparr>))
       \<lparr>cs_out_write_buf := wire_request (CHR 0x01)\<rparr>)"
    using d by (simp add: cl_request_def sample_tunnel_request sample_parses bind_exn_def Let_def)
  show "cl_request client_config sample_os (app_request (CHR 0x03)) s =
     Inr ((cl_in_async_write_buffer ([CHR 0x05, CHR 0x00, CHR 0x00] @ socks5_generate (loopback_peer\<lparr>ep_port := 1080\<rparr>))
        (s\<lparr>cs_target_host := ''h'', cs_target_port := 443, cs_is_udp := True, cs_udp_open := True\<rparr>))
       \<lparr>cs_out_write_buf := wire_request (CHR 0x03)\<rparr>)"
    using d by (simp add: cl_request_def sample_tunnel_request sample_parses bind_exn_def Let_def cl_udp_associate_def sample_os_def)
qed

definition negotiation :: "char \<Rightarrow> action list" where
  "negotiation cmd = [Complete 0 (Received greeting), Run 0 True, In_bytes 2, Complete 0 Done, Run 0 True,
     Complete 0 (Received (app_request cmd)), Run 0 True, In_bytes 10, Complete 0 Done, Run 0 True]"

definition client_actions :: "action list" where
  "client_actions = negotiation (CHR 0x01) @ [Complete 1 sample_server, Run 1 True, Complete 1 Done, Run 1 True,
     Complete 0 (Received ''hi''), Run 0 True, Complete 0 Done, Run 0 True,
     Out_bytes 14, Complete 1 Done, Run 1 True, Complete 0 (Received ''ok''), Run 0 True, In_bytes 1]"

lemmas client_run_defs = cl_defs cl_start_def begin_op_def abort_ops_def abort_op_def remove_nth_def
  cl_in_progressed_def cl_out_progressed_def cl_look_def negotiating_def cl_orderly_def cl_quiet_def greeting_accepted app_requests
  grow_after_read_def DEFAULT_BUFFER_SIZE_def sample_server_def blank_view_def empty_trace_def new_client_session_def
  connect_reply_def

lemma sample_lengths: "length greeting = 3" "length (app_request c) = 8" "greeting \<noteq> []" "app_request c \<noteq> []"
  by (simp_all add: greeting_def app_request_def)

lemma sample_os_ok: "sample_os\<lparr>os_open_ok := True\<rparr> = sample_os" "os_open_ok sample_os" "os_beyond sample_os = nul_terminated"
  by (simp_all add: sample_os_def)

lemma client_run:
  "\<exists>s v. cl_acts True client_config sample_os client_actions (cl_start (Some sample_peer) new_client_session, blank_view) = Some (s, v) \<and>
     cs_status s = C_FORWARD \<and> cs_is_udp s = False \<and> tr_out_wire (cv_trace v) = wire_request (CHR 0x01) @ ''hi'' \<and> tr_in_wire (cv_trace v) = ''o'' \<and>
     tr_down (cv_trace v) = ''ok'' \<and> tr_up (cv_trace v) = ''hi'' \<and> tun_writes (cs_pending s) = []"
  by (simp add: client_actions_def negotiation_def client_run_defs sample_lengths sample_os_ok Let_def wire_request_bytes tun_writes_def)

text \<open>An application with a UDP association: its datagram is in the tunnel, and the answer is sent back to it.\<close>

definition sample_datagram :: string where
  "sample_datagram = replicate 3 (CHR 0x00) @ [CHR 0x03, CHR 0x01, CHR ''d'', CHR 0x00, CHR 0x35, CHR ''q'']"

definition sample_frame :: string where
  "sample_frame = udp_generate_domain ''d'' 53 ''q''"

lemma sample_frame_bytes: "sample_frame = [CHR 0x03, CHR 0x01, CHR ''d'', CHR 0x00, CHR 0x35, CHR 0x00, CHR 0x01, CHR 0x0D, CHR 0x0A, CHR ''q'']"
  by code_simp

lemma sample_datagram_frame: "datagram_frame nul_terminated sample_datagram = Some (sample_frame, 1)"
  by code_simp

lemma sample_frame_decode:
  "udp_decode sample_frame = Some (\<lparr>pkt_address = \<lparr>address_type = DOMAINNAME, address = ''d'', port = 53\<rparr>, pkt_length = 1, pkt_payload = ''q''\<rparr>, 10)"
  "socks5_parse nul_terminated (pkt_address blank_packet) sample_frame = (\<lparr>address_type = DOMAINNAME, address = ''d'', port = 53\<rparr>, Some 5)"
  by code_simp+

definition associate_actions :: "action list" where
  "associate_actions = negotiation (CHR 0x03) @ [Complete 2 sample_server, Run 2 True, Complete 2 Done, Run 2 True,
     Complete 1 (Datagram sample_datagram sample_peer), Run 1 True, Complete 1 Done, Run 1 True,
     Out_bytes 22, Complete 1 (Received sample_frame), Run 1 True, Complete 2 Done]"

lemma sample_udp_steps:
  "cl_udp_recv sample_os sample_datagram s =
     (let s = s\<lparr>cs_udp_read_size := grow_after_read (cs_udp_read_size s) 9, cs_sent_len := cs_sent_len s + 1\<rparr>
      in if cs_status s = C_CONNECT then s\<lparr>cs_first_packet_recv := True, cs_out_write_buf := cs_out_write_buf s @ sample_frame\<rparr>
         else if cs_status s = C_UDP_FORWARD then cl_out_async_write_buffer sample_frame s else s)"
  "cs_status s = C_UDP_FORWARD \<Longrightarrow> cs_udp_data_buf s = sample_frame \<Longrightarrow>
     cl_udp_sent s = Inr (cl_udp_async_write sample_datagram (cs_udp_recv_endpoint s)
       (s\<lparr>cs_udp_data_buf := [], cs_recv_len := cs_recv_len s + 1\<rparr>))"
proof -
  have l: "length sample_datagram = 9" by (simp add: sample_datagram_def)
  show "cl_udp_recv sample_os sample_datagram s =
     (let s = s\<lparr>cs_udp_read_size := grow_after_read (cs_udp_read_size s) 9, cs_sent_len := cs_sent_len s + 1\<rparr>
      in if cs_status s = C_CONNECT then s\<lparr>cs_first_packet_recv := True, cs_out_write_buf := cs_out_write_buf s @ sample_frame\<rparr>
         else if cs_status s = C_UDP_FORWARD then cl_out_async_write_buffer sample_frame s else s)"
    by (simp add: cl_udp_recv_def sample_os_ok l sample_datagram_frame Let_def)
  show "cl_udp_sent s = Inr (cl_udp_async_write sample_datagram (cs_udp_recv_endpoint s)
       (s\<lparr>cs_udp_data_buf := [], cs_recv_len := cs_recv_len s + 1\<rparr>))" 
    if "cs_status s = C_UDP_FORWARD" "cs_udp_data_buf s = sample_frame"
    using that by (simp add: cl_udp_sent_def sample_frame_decode)
      (simp add: sample_frame_bytes sample_datagram_def substr_def substr_from_def bind_exn_def numeral_3_eq_3)
qed

lemma sample_udp_lengths: "length sample_datagram = 9" "length sample_frame = 10" "sample_datagram \<noteq> []" "sample_frame \<noteq> []"
  "length (socks5_generate (loopback_peer\<lparr>ep_port := 1080\<rparr>)) = 7"
  by (simp_all add: sample_datagram_def sample_frame_bytes socks5_generate_def loopback_peer_def)

lemma associate_run:
  "\<exists>s v. cl_acts True client_config sample_os associate_actions (cl_start (Some sample_peer) new_client_session, blank_view) = Some (s, v) \<and>
     cs_status s = C_UDP_FORWARD \<and> cs_is_udp s \<and> tr_out_wire (cv_trace v) = wire_request (CHR 0x03) @ sample_frame \<and>
     tr_up (cv_trace v) = sample_frame \<and> tr_down (cv_trace v) = sample_frame \<and> cv_datagrams v = [sample_datagram]"
  by (simp add: associate_actions_def negotiation_def client_run_defs sample_lengths sample_udp_lengths sample_os_ok Let_def
      sample_udp_steps sample_datagram_frame cl_udp_async_write_def wire_request_bytes)

text \<open>An application with a UDP association that sends bytes on its TCP connection before the tunnel stands: they
  are in the tunnel where the server expects a frame; and as they count as the first packet, the receive of the relay
  is not cancelled, so the next datagram makes a second write while the first is in progress.\<close>

definition chatty_actions :: "action list" where
  "chatty_actions = negotiation (CHR 0x03) @ [Complete 2 sample_server, Run 2 True, Complete 2 Done, Run 2 True,
     Complete 0 (Received ''hi''), Run 0 True, Complete 1 Done, Run 1 True, Out_bytes 14,
     Complete 0 (Datagram sample_datagram sample_peer), Run 0 True]"

lemma chatty_run:
  "\<exists>s v. cl_acts False client_config sample_os chatty_actions (cl_start (Some sample_peer) new_client_session, blank_view) = Some (s, v) \<and>
     cs_status s = C_UDP_FORWARD \<and> cs_is_udp s \<and> tr_out_wire (cv_trace v) = wire_request (CHR 0x03) @ ''hi'' \<and>
     tun_writes (cs_pending s) = [(Tunnel_write, None), (Tunnel_write, None)]"
  by (simp add: chatty_actions_def negotiation_def client_run_defs sample_lengths sample_udp_lengths sample_os_ok Let_def
      sample_udp_steps sample_datagram_frame cl_udp_async_write_def wire_request_bytes tun_writes_def)

section \<open>A forwarder\<close>

definition forwarder :: ForwardSession where
  "forwarder = fs_begin Proxy_resolve (fs_begin Client_read
     (new_forward_session\<lparr>fs_out_write_buf := wire_request (CHR 0x01)\<rparr>))"

lemma sample_generate: "trojan_generate ''70'' ''h'' 443 True = wire_request (CHR 0x01)"
  "trojan_generate ''70'' ''h'' 443 False = wire_request (CHR 0x03)"
  by code_simp+

lemma forwarder_started: "fwd_start client_config (Some sample_peer) new_forward_session = Inr forwarder"
  by (simp add: fwd_start_def bind_exn_def forwarder_def sample_generate)

lemma fwd_acts_reachable:
  "fwd_acts ord as (forwarder, empty_trace) = Some (s, tr) \<Longrightarrow> fwd_reachable ord client_config s tr"
  unfolding fwd_reachable_def using fwd_acts_steps forwarder_started by blast

lemmas forward_run_defs = fwd_defs forwarder_def new_forward_session_def begin_op_def abort_ops_def abort_op_def remove_nth_def
  orderly_def grow_after_read_def DEFAULT_BUFFER_SIZE_def sample_server_def empty_trace_def wire_request_bytes fwd_destroy_def

definition forward_actions :: "action list" where
  "forward_actions = [Complete 1 sample_server, Run 1 True, Complete 1 Done, Run 1 True,
     Complete 0 (Received ''hi''), Run 0 True, Complete 0 Done, Run 0 True,
     Out_bytes 14, Complete 1 Done, Run 1 True, Complete 0 (Received ''ok''), Run 0 True, In_bytes 1]"

lemma forward_run:
  "\<exists>s tr. fwd_acts True forward_actions (forwarder, empty_trace) = Some (s, tr) \<and> fs_status s = F_FORWARD \<and>
     tr_out_wire tr = wire_request (CHR 0x01) @ ''hi'' \<and> tr_in_wire tr = ''o'' \<and> tr_down tr = ''ok'' \<and> tr_up tr = ''hi''"
  by (simp add: forward_actions_def forward_run_defs Let_def)

text \<open>Client data that is queued when the tunnel is established: the read cannot be cancelled any more,
  and its handler starts a second write to the tunnel while the first one is in progress.\<close>

definition overlap_actions :: "action list" where
  "overlap_actions = [Complete 1 sample_server, Run 1 True, Complete 1 Done, Run 1 True,
     Complete 0 (Received ''hi''), Complete 1 Done, Run 1 True, Run 0 True]"

lemma overlap_run:
  "\<exists>s tr. fwd_acts False overlap_actions (forwarder, empty_trace) = Some (s, tr) \<and>
     fs_pending s = [(Tunnel_read, None), (Tunnel_write, None), (Tunnel_write, None)]"
  by (simp add: overlap_actions_def forward_run_defs Let_def)

text \<open>A client that disconnects while the completed handshake is queued: the session goes on relaying
  after it has ended.\<close>

definition revive_actions :: "action list" where
  "revive_actions = [Complete 1 sample_server, Run 1 True, Complete 1 Done, Run 1 True,
     Complete 0 (Failed ''eof''), Complete 1 Done, Run 0 True, Run 0 True]"

lemma revive_run:
  "\<exists>s tr. fwd_acts False revive_actions (forwarder, empty_trace) = Some (s, tr) \<and>
     fs_status s = F_FORWARD \<and> \<not> fs_in_open s"
  by (simp add: revive_actions_def forward_run_defs Let_def)

section \<open>A UDP forwarder\<close>

definition udp_forwarder :: UDPForwardSession where
  "udp_forwarder = us_begin Proxy_resolve
     ((us_timer_async_wait (new_udp_forward_session sample_peer))\<lparr>us_out_write_buf := wire_request (CHR 0x03)\<rparr>)"

lemma udp_forwarder_started: "us_start client_config (new_udp_forward_session sample_peer) = Inr udp_forwarder"
  by (simp add: us_start_def bind_exn_def udp_forwarder_def sample_generate)

lemma us_acts_reachable:
  "us_acts client_config as (udp_forwarder, empty_trace) = Some (s, tr) \<Longrightarrow> us_reachable client_config sample_peer s tr"
  unfolding us_reachable_def using us_acts_steps udp_forwarder_started by blast

definition udp_forward_actions :: "udp_action list" where
  "udp_forward_actions = Local_datagram sample_peer ''q'' # map Io [Complete 1 sample_server, Run 1 True, Complete 2 Done, Run 2 True,
     Complete 2 Done, Run 2 True, Out_bytes 22, Complete 2 (Received sample_frame), Run 2 True]"

lemma sample_deliver:
  assumes "us_udp_data_buf s = sample_frame"
  shows "us_deliver s = (True, s\<lparr>us_udp_data_buf := [], us_recv_len := us_recv_len s + 1,
    us_in_writes := us_in_writes s @ [(us_endpoint s, ''q'')]\<rparr>)"
proof -
  have "udp_decode [] = None" by code_simp
  moreover have "drop 10 sample_frame = []" by (simp add: sample_frame_bytes)
  ultimately show ?thesis using assms
    by (subst us_deliver.simps, simp add: sample_frame_decode, subst us_deliver.simps) simp
qed

lemma sample_packet: "udp_generate_domain ''h'' 443 ''q'' = [CHR 0x03, CHR 0x01, CHR ''h'', CHR 0x01, CHR 0xBB, CHR 0x00, CHR 0x01, CHR 0x0D, CHR 0x0A, CHR ''q'']"
  by code_simp

lemma udp_forward_run:
  "\<exists>s tr. us_acts client_config udp_forward_actions (udp_forwarder, empty_trace) = Some (s, tr) \<and> us_status s = U_FORWARDING \<and>
     tr_out_wire tr = wire_request (CHR 0x03) @ tr_up tr \<and> us_in_writes s = [(sample_peer, ''q'')]"
  by (simp add: udp_forward_actions_def udp_forwarder_def new_udp_forward_session_def us_process_def us_in_recv_def us_timer_async_wait_def
      us_begin_def us_cancel_def begin_op_def abort_ops_def abort_op_def remove_nth_def us_orderly_def sample_server_def empty_trace_def
      us_resolved_def us_connected_def us_established_def us_out_async_write_buffer_def us_out_recv_def sample_deliver
      sample_packet wire_request_bytes sample_udp_lengths DEFAULT_BUFFER_SIZE_def grow_after_read_def Let_def)

text \<open>The run of the client in two parts, before and after the negotiation.\<close>

definition tunnel_actions :: "action list" where
  "tunnel_actions = drop 10 client_actions"

lemma cl_acts_append: "cl_acts ord cfg os (as @ bs) c = (case cl_acts ord cfg os as c of None \<Rightarrow> None | Some c' \<Rightarrow> cl_acts ord cfg os bs c')"
  by (induction as arbitrary: c) (auto split: option.split)

lemma client_run_parts:
  "\<exists>s v s' v'. cl_acts True client_config sample_os (negotiation (CHR 0x01)) (cl_start (Some sample_peer) new_client_session, blank_view) = Some (s, v) \<and>
     cs_status s = C_CONNECT \<and> \<not> cs_is_udp s \<and> cl_acts True client_config sample_os tunnel_actions (s, v) = Some (s', v') \<and> cs_status s' = C_FORWARD"
proof -
  have "\<exists>s v. cl_acts True client_config sample_os (negotiation (CHR 0x01)) (cl_start (Some sample_peer) new_client_session, blank_view) = Some (s, v) \<and>
     cs_status s = C_CONNECT \<and> \<not> cs_is_udp s"
    by (simp add: negotiation_def client_run_defs sample_lengths sample_os_ok Let_def wire_request_bytes)
  then obtain s v where s: "cl_acts True client_config sample_os (negotiation (CHR 0x01)) (cl_start (Some sample_peer) new_client_session, blank_view) = Some (s, v)"
     "cs_status s = C_CONNECT" "\<not> cs_is_udp s" by blast
  have "client_actions = negotiation (CHR 0x01) @ tunnel_actions" by (simp add: tunnel_actions_def client_actions_def negotiation_def)
  then have run: "cl_acts True client_config sample_os client_actions (cl_start (Some sample_peer) new_client_session, blank_view) =
      cl_acts True client_config sample_os tunnel_actions (s, v)" using cl_acts_append [of True client_config sample_os "negotiation (CHR 0x01)" tunnel_actions] s(1) by simp
  obtain s' v' where "cl_acts True client_config sample_os tunnel_actions (s, v) = Some (s', v')" "cs_status s' = C_FORWARD"
    using client_run unfolding run by blast
  with s show ?thesis by blast
qed

text \<open>The other end of the tunnel: the server reads what the client has sent and has put the answer on the wire.\<close>

definition served_actions :: "action list" where
  "served_actions = butlast relay_actions @ [In_bytes 2]"

lemma served_run:
  obtains s tr where "server_history sample_env s tr [sample_request]" "status s = FORWARD_TCP" "up_write s = None"
    "tr_out_wire tr = ''hi''" "tr_in_wire tr = ''ok''"
proof -
  obtain s1 w1 where st: "start sample_env (Some sample_peer) (new_session, new_service sample_config 1) = (s1, w1)" by fastforce
  have "\<exists>s w tr. session_run sample_env new_session (Some sample_peer) (new_service sample_config 1) served_actions = Some (s, w, tr) \<and>
      status s = FORWARD_TCP \<and> up_write s = None \<and> tr_out_wire tr = ''hi'' \<and> tr_in_wire tr = ''ok''"
    by (simp add: served_actions_def relay_actions_def run_defs sample_gate new_session_def DEFAULT_BUFFER_SIZE_def empty_trace_def Let_def
        up_write_def ups_def)
  moreover have "acts_chunks sample_env served_actions (s1, w1, empty_trace) = [sample_request]"
    using st by (auto simp: served_actions_def relay_actions_def run_defs sample_gate new_session_def DEFAULT_BUFFER_SIZE_def empty_trace_def Let_def)
  ultimately show thesis using session_run_history [OF _ st] that unfolding server_history_def by metis
qed

text \<open>A prober that is connected to the web server behind.\<close>

definition probed_actions :: "action list" where
  "probed_actions = [Complete 0 Done, Run 0 True, Complete 0 (Received ''GET /''), Run 0 True,
     Complete 0 (Resolved [sample_endpoint ''10.0.0.9'' 80]), Run 0 True, Complete 0 Done, Run 0 True, Out_bytes 5,
     Complete 1 Done, Run 1 True]"

lemma probed_run:
  obtains s tr where "server_history sample_env s tr [''GET /'']" "status s = FORWARD_TCP" "up_write s = None"
proof -
  obtain s1 w1 where st: "start sample_env (Some sample_peer) (new_session, new_service sample_config 1) = (s1, w1)" by fastforce
  note defs = probed_actions_def run_defs fallback_run_defs probe_gate probe_decision_def new_session_def new_service_def DEFAULT_BUFFER_SIZE_def
    empty_trace_def Let_def
  have "\<exists>s w tr. session_run sample_env new_session (Some sample_peer) (new_service sample_config 1) probed_actions = Some (s, w, tr) \<and>
      status s = FORWARD_TCP \<and> up_write s = None"
    by (simp add: defs up_write_def ups_def)
  moreover have "acts_chunks sample_env probed_actions (s1, w1, empty_trace) = [''GET /'']"
    using st by (auto simp: defs)
  ultimately show thesis using session_run_history [OF _ st] that unfolding server_history_def by metis
qed

lemma probe_no_request: "\<not> trojan_request r ''GET /''"
proof -
  have "trojan_parse blank_request ''GET /'' = Inr (blank_request, -1)" by code_simp
  then show ?thesis using trojan_parse_complete [of r "''GET /''" blank_request] by (auto simp: int_of_size_def)
qed

section \<open>A build\<close>

definition sample_build :: build_env where
  "sample_build = \<lparr>be_nat = True, be_reuse_port = False, be_fastopen = True, be_tls13 = True, be_mysql = False, be_keylog = False,
     be_concurrency = 1\<rparr>"

section \<open>A data base\<close>

text \<open>A data base that knows every user, with an unlimited quota, and a request of one of them.\<close>

definition open_mysql :: mysql_client where
  "open_mysql = \<lparr>my_ok = (\<lambda>h c. True), my_row = (\<lambda>h. (-1, 0)), my_error = (\<lambda>h. '''')\<rparr>"

text \<open>A machine on which every call succeeds and no file can be read.\<close>

definition sample_machine :: machine where
  "sample_machine = \<lparr>mc_throws = (\<lambda>c. None), mc_read_file = (\<lambda>f. Inl ''No such file or directory''), mc_mysql = open_mysql\<rparr>"

lemma sample_machine_listens: "can_listen be sample_machine cfg"
  by (simp add: can_listen_def acceptor_stands_def sample_machine_def Let_def list_all_iff)

definition mysql_user :: string where
  "mysql_user = replicate 56 (CHR ''a'')"

definition mysql_request :: string where
  "mysql_request = trojan_generate mysql_user ''h'' 443 True"

lemma mysql_samples: "length mysql_request < 2 ^ 31" "mysql_user \<noteq> ''''"
  by (simp_all add: mysql_request_def trojan_generate_def domain_field_def mysql_user_def crlf_def)

lemma mysql_gate:
  "\<exists>d. gate_evaluate sample_config (Some (\<lambda>pw. fst (auth_password_ok open_mysql pw []))) (tls_build_gate_input sample_peer None mysql_request) = Inr d \<and>
     authenticated d \<and> auth_record_password d = mysql_user"
proof -
  let ?r = "\<lparr>req_password = mysql_user, req_command = CONNECT_cmd,
    req_address = \<lparr>address_type = DOMAINNAME, address = ''h'', port = 443\<rparr>, req_payload = ''''\<rparr>"
  have n: "find_sub crlf mysql_user = None" by code_simp
  have f: "address_field \<lparr>address_type = DOMAINNAME, address = ''h'', port = 443\<rparr> (domain_field ''h'' 443)"
    by (rule domain_field_is_field) simp_all
  have "trojan_request ?r mysql_request"
    using trojan_requestI [OF n f, of CONNECT_cmd "''''"] by (simp add: mysql_request_def trojan_generate_def command_byte_def)
  moreover have "fst (auth_password_ok open_mysql mysql_user [])" by code_simp
  then have "authorised sample_config (Some (\<lambda>pw. fst (auth_password_ok open_mysql pw []))) mysql_user" by (simp add: authorised_def)
  moreover have "map_of (password sample_config) mysql_user = None" by (simp add: mysql_user_def numeral_eq_Suc)
  ultimately show ?thesis
    using gate_accepts [of ?r "tls_build_gate_input sample_peer None mysql_request" sample_config] mysql_samples(1)
    by (auto simp: tls_build_gate_input_def)
qed

end
