(* ===== verification/Tunnel_Composition.thy ===== *)
theory Tunnel_Composition
  imports Session_Gate Server_Session_History Client_Udp_Runs Udp_Forward_Session
begin

text \<open>
  The two ends of the tunnel together: what a session of the client side puts on the wire, and
  what the gate of the server makes of it.  Also the invariants of the client side in the form
  in which the properties use them.
\<close>

section \<open>Streams\<close>

lemma is_prefix_trans: "is_prefix xs ys \<Longrightarrow> is_prefix ys zs \<Longrightarrow> is_prefix xs zs"
  by (auto simp: is_prefix_def)

lemma is_prefix_append [simp]: "is_prefix (xs @ ys) (xs @ zs) \<longleftrightarrow> is_prefix ys zs"
  by (simp add: is_prefix_def)

lemma is_prefix_covers:
  assumes "is_prefix (xs @ ys) (zs @ us)" and "length zs \<le> length xs"
  obtains pl where "xs = zs @ pl" and "is_prefix (pl @ ys) us"
proof -
  from assms(1) obtain ts where "zs @ us = xs @ ys @ ts" by (auto simp: is_prefix_def)
  with assms(2) obtain pl where "xs = zs @ pl" "us = pl @ ys @ ts" by (auto simp: append_eq_append_conv2)
  with that show thesis by (auto simp: is_prefix_def)
qed

lemma fwd_inv_faithful:
  assumes "fwd_inv req s tr"
  shows "is_prefix (tr_out_wire tr) (req @ tr_up tr)" and "is_prefix (tr_in_wire tr) (tr_down tr)"
    and "fs_status s = F_FORWARD \<Longrightarrow> tun_writes (fs_pending s) = [] \<Longrightarrow> tr_out_wire tr = req @ tr_up tr"
    and "fs_status s = F_FORWARD \<Longrightarrow> map fst (tun_downs (fs_pending s)) = [Tunnel_read] \<Longrightarrow> tr_in_wire tr = tr_down tr"
    and "fs_sent_len s = of_nat (length (tr_up tr))" and "fs_recv_len s = of_nat (length (tr_down tr))"
proof -
  show "is_prefix (tr_out_wire tr) (req @ tr_up tr)" "is_prefix (tr_in_wire tr) (tr_down tr)"
    using fwd_inv_prefix [OF assms] by simp_all
  show "tr_out_wire tr = req @ tr_up tr" if "fs_status s = F_FORWARD" "tun_writes (fs_pending s) = []"
    using assms that by (simp add: fwd_inv_def Let_def write_of_def flow_def)
  show "tr_in_wire tr = tr_down tr" if f: "fs_status s = F_FORWARD" "map fst (tun_downs (fs_pending s)) = [Tunnel_read]"
  proof -
    from f(2) obtain c where "tun_downs (fs_pending s) = [(Tunnel_read, c)]" by (auto simp: map_fst_single)
    with assms f(1) show ?thesis by (simp add: fwd_inv_def Let_def write_of_def flow_def)
  qed
  show "fs_sent_len s = of_nat (length (tr_up tr))" "fs_recv_len s = of_nat (length (tr_down tr))"
    using assms by (simp_all add: fwd_inv_def Let_def)
qed

text \<open>Datagrams put into the tunnel come out of it, however its bytes are cut into reads.\<close>

lemma datagrams_roundtrip:
  assumes "list_all2 (\<lambda>d p. \<exists>n < 65536. datagram_frame beyond d = Some (p, n)) ds ps"
  shows "drain reply_decode (concat ps) = (ds, [])"
  using assms
proof (induction rule: list_all2_induct)
  case (Cons d ds p ps)
  then obtain n where "datagram_frame beyond d = Some (p, n)" "n < 65536" by blast
  then have "reply_decode (p @ concat ps) = Some (d, length p)" by (rule datagram_roundtrip)
  with Cons show ?case by (simp add: reply_stream.drain_Some)
qed simp

section \<open>From the application to the target\<close>

lemma request_extended:
  assumes "trojan_request r req"
  shows "trojan_request (r\<lparr>req_payload := req_payload r @ pl\<rparr>) (req @ pl)"
  using assms
proof cases
  case (trojan_requestI pw a f cmd pl0)
  then show ?thesis using trojan_request.trojan_requestI [of pw a f cmd "pl0 @ pl"] by simp
qed

lemma request_reaches_target:
  assumes "trojan_request r req" and "authorised cfg auth (req_password r)" and "gi_initial_data input = req @ pl"
    and "length (req @ pl) < 2 ^ 31"
  shows "\<exists>d. gate_evaluate cfg auth input = Inr d \<and> authenticated d \<and>
       sd_path d = (if req_command r = UDP_ASSOCIATE then AUTHENTICATED_UDP else AUTHENTICATED_TCP) \<and>
       sd_target d = \<lparr>ct_host = address (req_address r), ct_port = port (req_address r), ct_is_fallback = False\<rparr> \<and>
       outbound_payload d = req_payload r @ pl"
proof -
  have "trojan_request (r\<lparr>req_payload := req_payload r @ pl\<rparr>) (gi_initial_data input)"
    using request_extended [OF assms(1), of pl] assms(3) by simp
  with gate_accepts [OF this, of cfg auth] assms show ?thesis
    by (cases "req_command r") (auto simp: request_target_def)
qed

lemma cl_request_of:
  assumes "cl_inv pw s v" and "cs_status s = C_FORWARD \<or> cs_status s = C_UDP_FORWARD"
  shows "\<exists>req. request_for pw (cs_is_udp s) (cs_target_host s) (cs_target_port s) req \<and>
    is_prefix (tr_out_wire (cv_trace v)) (req @ tr_up (cv_trace v))"
proof (cases "cs_is_udp s")
  case True
  with assms obtain req where "udp_at pw req s v" by (auto simp: cl_inv_def negotiating_def udp_inv_def)
  with True udp_at_prefix [OF this] show ?thesis by (auto simp: udp_at_def udp_requested_def Let_def)
next
  case False
  with assms obtain req where i: "fwd_inv req (as_forward s) (cv_trace v)"
      "request_for pw False (cs_target_host s) (cs_target_port s) req"
    by (auto simp: cl_inv_def negotiating_def tcp_inv_def)
  with False fwd_inv_faithful(1) [OF i(1)] show ?thesis by auto
qed

text \<open>What the server's session makes of the stream: from its first read on it connects to the target of the
  decision about that read and to nothing else, and its wire to the target carries the bytes of
  that decision and of the later reads.\<close>

lemma server_history_relays:
  assumes "server_history e t tr (first # rest)"
  obtains d where "verdict_on e first d" and "list_all (\<lambda>q. op_target (fst q) \<in> {None, Some (sd_target d)}) (pending t)"
    and "is_prefix (tr_out_wire tr) (outbound_payload d @ concat rest)"
    and "status t = FORWARD_TCP \<Longrightarrow> up_write t = None \<Longrightarrow> tr_out_wire tr = outbound_payload d @ concat rest"
proof -
  from server_history_inv [OF assms] obtain d where v: "verdict_on e first d"
    and dec: "decided (Some (sd_target d)) (outbound_payload d) t"
    and up: "is_prefix (tr_up tr) (concat rest)" "status t = FORWARD_TCP \<Longrightarrow> tr_up tr = concat rest"
    by (auto simp: history_inv_def)
  have "bytes_inv t tr" by (rule server_reachable_bytes [OF server_history_reachable [OF assms]])
  then have b: "is_prefix (tr_out_wire tr) (out_write_buf t @ tr_up tr)"
      "status t = FORWARD_TCP \<Longrightarrow> up_write t = None \<Longrightarrow> tr_out_wire tr = out_write_buf t @ tr_up tr"
    by (auto simp: bytes_inv_def up_inv_prefix up_inv_def flow_def)
  have buf: "out_write_buf t = outbound_payload d" using dec by (simp add: decided_def)
  show thesis
  proof (rule that [OF v])
    show "list_all (\<lambda>q. op_target (fst q) \<in> {None, Some (sd_target d)}) (pending t)" using dec by (auto simp: decided_def list_all_iff)
    show "is_prefix (tr_out_wire tr) (outbound_payload d @ concat rest)" using is_prefix_trans [OF b(1)] buf up(1) by simp
    show "tr_out_wire tr = outbound_payload d @ concat rest" if "status t = FORWARD_TCP" "up_write t = None"
      using b(2) up(2) buf that by simp
  qed
qed

text \<open>A first read that holds the request of a client the server knows.\<close>

lemma served_request:
  fixes r :: TrojanRequest
  assumes "trojan_request r req" and "server_history e t tr ((req @ pl) # rest)"
    and "map_of (password (se_config e)) (req_password r) \<noteq> None" and "length (req @ pl) < 2 ^ 31"
  shows "list_all (\<lambda>q. op_target (fst q) \<in> {None, Some \<lparr>ct_host = address (req_address r), ct_port = port (req_address r), ct_is_fallback = False\<rparr>}) (pending t)"
    and "is_prefix (tr_out_wire tr) (req_payload r @ pl @ concat rest)"
    and "status t = FORWARD_TCP \<Longrightarrow> up_write t = None \<Longrightarrow> tr_out_wire tr = req_payload r @ pl @ concat rest"
proof -
  obtain d where v: "verdict_on e (req @ pl) d" and relay: "list_all (\<lambda>q. op_target (fst q) \<in> {None, Some (sd_target d)}) (pending t)"
      "is_prefix (tr_out_wire tr) (outbound_payload d @ concat rest)"
      "status t = FORWARD_TCP \<Longrightarrow> up_write t = None \<Longrightarrow> tr_out_wire tr = outbound_payload d @ concat rest"
    using server_history_relays [OF assms(2)] by metis
  from v obtain w ep where g: "gate_evaluate (se_config e) (map_option (\<lambda>a pw. au_auth a pw w) (se_auth e))
      (tls_build_gate_input ep (se_alpn e) (req @ pl)) = Inr d" by (auto simp: verdict_on_def)
  have "authorised (se_config e) (map_option (\<lambda>a pw. au_auth a pw w) (se_auth e)) (req_password r)"
    using assms(3) by (simp add: authorised_def)
  from request_reaches_target [OF assms(1) this _ assms(4), of "tls_build_gate_input ep (se_alpn e) (req @ pl)"] g
  have d: "sd_target d = \<lparr>ct_host = address (req_address r), ct_port = port (req_address r), ct_is_fallback = False\<rparr>"
      "outbound_payload d = req_payload r @ pl"
    by (simp_all add: tls_build_gate_input_def)
  show "list_all (\<lambda>q. op_target (fst q) \<in> {None, Some \<lparr>ct_host = address (req_address r), ct_port = port (req_address r), ct_is_fallback = False\<rparr>}) (pending t)"
    "is_prefix (tr_out_wire tr) (req_payload r @ pl @ concat rest)"
    "status t = FORWARD_TCP \<Longrightarrow> up_write t = None \<Longrightarrow> tr_out_wire tr = req_payload r @ pl @ concat rest"
    using relay d by simp_all
qed

text \<open>A first read that is no request of anybody the server lets through.\<close>

lemma fallback_relays:
  assumes "server_history e t tr (first # rest)" and "\<forall>r. trojan_request (r :: TrojanRequest) first \<longrightarrow> \<not> may_use e (req_password r)"
    and "length first < 2 ^ 31"
  shows "list_all (\<lambda>q. op_target (fst q) \<in>
      {None, Some (fallback_target (se_config e) (case se_alpn e of None \<Rightarrow> [] | Some a \<Rightarrow> a))}) (pending t)"
    and "is_prefix (tr_out_wire tr) (concat (first # rest))"
    and "status t = FORWARD_TCP \<Longrightarrow> up_write t = None \<Longrightarrow> tr_out_wire tr = concat (first # rest)"
proof -
  obtain d where v: "verdict_on e first d" and relay: "list_all (\<lambda>q. op_target (fst q) \<in> {None, Some (sd_target d)}) (pending t)"
      "is_prefix (tr_out_wire tr) (outbound_payload d @ concat rest)"
      "status t = FORWARD_TCP \<Longrightarrow> up_write t = None \<Longrightarrow> tr_out_wire tr = outbound_payload d @ concat rest"
    using server_history_relays [OF assms(1)] by metis
  from v obtain w ep where g: "gate_evaluate (se_config e) (map_option (\<lambda>a pw. au_auth a pw w) (se_auth e))
      (tls_build_gate_input ep (se_alpn e) first) = Inr d" by (auto simp: verdict_on_def)
  have "\<not> may_use e pw \<Longrightarrow> \<not> authorised (se_config e) (map_option (\<lambda>a pw. au_auth a pw w) (se_auth e)) pw" for pw
    by (auto simp: may_use_def authorised_def)
  with gate_falls_back [of "tls_build_gate_input ep (se_alpn e) first" "se_config e" "map_option (\<lambda>a pw. au_auth a pw w) (se_auth e)"] assms(2,3) g
  have d: "sd_target d = fallback_target (se_config e) (case se_alpn e of None \<Rightarrow> [] | Some a \<Rightarrow> a)" "outbound_payload d = first"
    by (auto simp: tls_build_gate_input_def tls_build_context_def split: option.splits)
  show "list_all (\<lambda>q. op_target (fst q) \<in>
      {None, Some (fallback_target (se_config e) (case se_alpn e of None \<Rightarrow> [] | Some a \<Rightarrow> a))}) (pending t)"
    "is_prefix (tr_out_wire tr) (concat (first # rest))"
    "status t = FORWARD_TCP \<Longrightarrow> up_write t = None \<Longrightarrow> tr_out_wire tr = concat (first # rest)"
    using relay d by simp_all
qed

section \<open>The negotiation\<close>

lemma cl_handshake_cases:
  "cl_handshake data s =
     (if \<exists>n methods. data = CHR 0x05 # n # methods \<and> length methods = of_char n
      then if of_char (data ! 1) < (128 :: nat) \<and> CHR 0x00 \<in> set (drop 2 data)
           then cl_in_async_write_buffer [CHR 0x05, CHR 0x00] s
           else (cl_in_async_write_buffer [CHR 0x05, CHR 0xFF] s)\<lparr>cs_status := C_INVALID\<rparr>
      else cl_destroy s)"
proof -
  have "(\<exists>n methods. data = CHR 0x05 # n # methods \<and> length methods = of_char n) \<longleftrightarrow>
      \<not> (length data < 2 \<or> data ! 0 \<noteq> CHR 0x05 \<or> length data \<noteq> of_char (data ! 1) + 2)"
    by (cases data; cases "tl data") auto
  then show ?thesis using has_method_iff [of data] by (auto simp: cl_handshake_def)
qed

text \<open>An application's request: the reserved bytes, the command and an address field.\<close>

lemma cl_request_granted:
  assumes "first_password cfg = Inr pw" and "find_sub crlf pw = None" and "address_field a f"
    and "length pw < 2 ^ 30"
  shows "cl_request cfg os ([CHR 0x05, command_byte cmd, CHR 0x00] @ f) s =
    (let req = pw @ crlf @ [command_byte cmd] @ f @ crlf;
         s = s\<lparr>cs_target_host := address a, cs_target_port := port a, cs_is_udp := cmd = UDP_ASSOCIATE\<rparr>
     in if cmd = UDP_ASSOCIATE then cl_udp_associate os req s
        else Inr ((cl_in_async_write_buffer connect_reply s)\<lparr>cs_out_write_buf := req\<rparr>))"
proof -
  let ?data = "[CHR 0x05, command_byte cmd, CHR 0x00] @ f"
  let ?req = "pw @ crlf @ [command_byte cmd] @ f @ crlf"
  note len = address_field_length [OF assms(3)]
  have "trojan_request \<lparr>req_password = pw, req_command = cmd, req_address = a, req_payload = []\<rparr> ?req"
    using trojan_requestI [OF assms(2,3), of cmd "[]"] by simp
  from trojan_parse_complete [OF this, of blank_request]
  have p: "trojan_parse blank_request ?req = Inr (\<lparr>req_password = pw, req_command = cmd, req_address = a, req_payload = []\<rparr>, int (length ?req))"
    using assms(4) len by (simp add: int_of_size_small crlf_def)
  have "tunnel_request pw ?data = Inr ?req" using len by (simp add: tunnel_request_Inr)
  with p assms(1) len show ?thesis by (simp add: cl_request_def bind_exn_def Let_def)
qed

end
