(* ===== verification/Server_Session_Shutdown.thy ===== *)
theory Server_Session_Shutdown
  imports Server_Session_Safety
begin

text \<open>
  The end of a server session.  Once \<open>destroy\<close> has run, no handler starts the session
  again: every step makes the remaining work smaller, the inbound socket is closed by the
  TLS shutdown or by its timeout, and when nothing is pending any more (so that no handler
  keeps the object alive) the socket is closed.
\<close>

section \<open>Remaining work\<close>

text \<open>An operation in flight has its completion and its handler to come, a queued one its handler.
  The handler of a UDP lookup may still start a receive and a send.\<close>

definition op_work :: "async_op \<times> completion option \<Rightarrow> nat" where
  "op_work p = (if is_udp_resolve (fst p) then 4 else 0) + (if snd p = None then 2 else 1)"

definition shutdown_work :: "ServerSession \<Rightarrow> nat" where
  "shutdown_work s = sum_list (map op_work (pending s))"

lemma work_start [simp]: "shutdown_work (start_op op s) = shutdown_work s + op_work (op, None)"
  by (simp add: shutdown_work_def start_op_def)

lemma work_cancel: "shutdown_work (cancel_io obj s) \<le> shutdown_work s"
proof -
  have "op_work (abort_on obj p) \<le> op_work p" for p by (simp add: op_work_def abort_set_def)
  then show ?thesis by (simp add: shutdown_work_def cancel_io_def comp_def sum_list_mono)
qed

lemma work_update [simp]:
  "shutdown_work (s\<lparr>in_read_size := x\<rparr>) = shutdown_work s" "shutdown_work (s\<lparr>out_read_size := x\<rparr>) = shutdown_work s"
  "shutdown_work (s\<lparr>udp_read_size := x\<rparr>) = shutdown_work s" "shutdown_work (s\<lparr>sent_len := y\<rparr>) = shutdown_work s"
  "shutdown_work (s\<lparr>recv_len := y\<rparr>) = shutdown_work s" "shutdown_work (s\<lparr>udp_write_data := z\<rparr>) = shutdown_work s"
  "shutdown_work (s\<lparr>udp_open := b\<rparr>) = shutdown_work s" "shutdown_work (s\<lparr>in_open := b\<rparr>) = shutdown_work s"
  by (simp_all add: shutdown_work_def)

lemma work_remove:
  assumes "i < length (pending s)"
  shows "shutdown_work (s\<lparr>pending := remove_nth i (pending s)\<rparr>) + op_work (pending s ! i) = shutdown_work s"
proof -
  have "map op_work (pending s) = map op_work (take i (pending s)) @ op_work (pending s ! i) # map op_work (drop (Suc i) (pending s))"
    using id_take_nth_drop [OF assms] by (metis list.simps(9) map_append)
  then show ?thesis by (simp add: shutdown_work_def remove_nth_def)
qed

text \<open>In a session that has ended, no handler starts more than it removes.\<close>

lemma destroyed_destroy: "status s = DESTROY \<Longrightarrow> destroy e (s, w) = (s, w)"
  by (simp add: destroy_def)

lemma destroyed_run:
  assumes "status s = DESTROY" and "forward_up op \<or> udp_up op \<or> forward_down op \<or> udp_down op \<or> is_closer op"
  shows "status (fst (on_complete e ok op c (s, w))) = DESTROY"
    and "shutdown_work (fst (on_complete e ok op c (s, w))) < shutdown_work s + op_work (op, Some c)"
proof -
  note d = destroyed_destroy [OF assms(1)]
  have cb: "shutdown_work (ssl_shutdown_cb c s) \<le> shutdown_work s" "status (ssl_shutdown_cb c s) = DESTROY"
    using assms(1) work_cancel [of In_socket "cancel_io Timer s"] work_cancel [of Timer s]
    by (auto simp: ssl_shutdown_cb_def close_in_socket_def)
  have res: "shutdown_work (fst (udp_resolved e ok pl n c (s, w))) < shutdown_work s + 5 \<and> status (fst (udp_resolved e ok pl n c (s, w))) = DESTROY" for pl n
    using assms(1)
    by (auto simp: d udp_resolved_def dispatch_udp_payload_def ensure_udp_socket_open_def starts_defs op_work_def split: completion.split option.split)
  show "status (fst (on_complete e ok op c (s, w))) = DESTROY"
    using assms cb res
    by (cases op) (auto simp: d in_recv_def in_sent_def out_recv_def out_sent_def udp_recv_def udp_sent_def Let_def split: completion.split)
  show "shutdown_work (fst (on_complete e ok op c (s, w))) < shutdown_work s + op_work (op, Some c)"
    using assms cb res
    by (cases op) (auto simp: d in_recv_def in_sent_def out_recv_def out_sent_def udp_recv_def udp_sent_def Let_def op_work_def
        less_Suc_eq_le split: completion.split)
qed

lemma destroyed_ops:
  assumes "tok_inv False False s" and "status s = DESTROY" and "(op, c) \<in> set (pending s)"
  shows "forward_up op \<or> udp_up op \<or> forward_down op \<or> udp_down op \<or> is_closer op" and "is_write op \<Longrightarrow> c \<noteq> None"
proof -
  have "is_up op \<or> is_down op \<or> is_closer op" by (cases op) auto
  moreover have "is_up op \<Longrightarrow> (op, c) \<in> set (ups s)" "is_down op \<Longrightarrow> (op, c) \<in> set (downs s)"
    using assms(3) by (auto simp: ups_def downs_def)
  moreover have "is_write op \<Longrightarrow> is_up op \<or> is_down op" by (cases op) auto
  ultimately show "forward_up op \<or> udp_up op \<or> forward_down op \<or> udp_down op \<or> is_closer op" "is_write op \<Longrightarrow> c \<noteq> None"
    using assms(1,2) by (auto simp: tok_inv_def token_def list_all_iff)
qed

lemma destroyed_step:
  assumes "session_step e (s, w, tr) (s', w', tr')" and "tok_inv False False s" and "status s = DESTROY"
  shows "status s' = DESTROY \<and> shutdown_work s' < shutdown_work s"
  using assms(1)
proof cases
  case (ready i op c)
  have "shutdown_work s' + op_work (op, None) = shutdown_work s + op_work (op, Some c)"
    using ready sum_list_update [of i "map op_work (pending s)" "op_work (op, Some c)"] elem_le_sum_list [of i "map op_work (pending s)"]
    by (auto simp: shutdown_work_def map_update)
  moreover have "op_work (op, None) = op_work (op, Some c) + 1" by (simp add: op_work_def)
  ultimately show ?thesis using ready assms(3) by simp
next
  case (in_progress k)
  with destroyed_ops(2) [OF assms(2,3)] show ?thesis by fastforce
next
  case (out_progress n acc k)
  with destroyed_ops(2) [OF assms(2,3)] show ?thesis by fastforce
next
  case (run i op c ok)
  have "(op, Some c) \<in> set (pending s)" using run nth_mem by metis
  note o = destroyed_ops(1) [OF assms(2,3) this]
  have "status (s\<lparr>pending := remove_nth i (pending s)\<rparr>) = DESTROY" using assms(3) by simp
  note r = destroyed_run [OF this o, of e ok c w] and m = work_remove [of i s]
  show ?thesis using run r m by simp
qed

section \<open>The inbound socket\<close>

text \<open>As long as the inbound socket of an ended session is open, the TLS shutdown or its timeout is
  still to close it.\<close>

definition close_inv :: "ServerSession \<Rightarrow> bool" where
  "close_inv s \<longleftrightarrow> (status s = DESTROY \<and> in_open s \<longrightarrow> list_ex (\<lambda>p. snd p \<noteq> Some Aborted) (closers s))"

lemma close_frame [simp]:
  "close_inv s \<Longrightarrow> close_inv (start_op op s)"
  "close_inv s \<Longrightarrow> close_inv ((cancel_io obj s)\<lparr>in_open := False\<rparr>)"
  "st \<noteq> DESTROY \<Longrightarrow> close_inv (s\<lparr>status := st\<rparr>)"
  by (auto simp: close_inv_def)

lemma close_update [simp]:
  "close_inv (s\<lparr>external_front_handoff := x_external_front_handoff\<rparr>) = close_inv s"
  "close_inv (s\<lparr>trusted_front_bootstrap_buffer := x_trusted_front_bootstrap_buffer\<rparr>) = close_inv s"
  "close_inv (s\<lparr>connection_slot_acquired := x_connection_slot_acquired\<rparr>) = close_inv s"
  "close_inv (s\<lparr>fallback_slot_acquired := x_fallback_slot_acquired\<rparr>) = close_inv s"
  "close_inv (s\<lparr>auth_password := x_auth_password\<rparr>) = close_inv s"
  "close_inv (s\<lparr>in_read_size := x_in_read_size\<rparr>) = close_inv s"
  "close_inv (s\<lparr>out_read_size := x_out_read_size\<rparr>) = close_inv s"
  "close_inv (s\<lparr>udp_read_size := x_udp_read_size\<rparr>) = close_inv s"
  "close_inv (s\<lparr>in_write_data := x_in_write_data\<rparr>) = close_inv s"
  "close_inv (s\<lparr>out_write_data := x_out_write_data\<rparr>) = close_inv s"
  "close_inv (s\<lparr>udp_write_data := x_udp_write_data\<rparr>) = close_inv s"
  "close_inv (s\<lparr>recv_len := x_recv_len\<rparr>) = close_inv s"
  "close_inv (s\<lparr>sent_len := x_sent_len\<rparr>) = close_inv s"
  "close_inv (s\<lparr>out_write_buf := x_out_write_buf\<rparr>) = close_inv s"
  "close_inv (s\<lparr>udp_data_buf := x_udp_data_buf\<rparr>) = close_inv s"
  "close_inv (s\<lparr>in_endpoint := x_in_endpoint\<rparr>) = close_inv s"
  "close_inv (s\<lparr>out_open := x_out_open\<rparr>) = close_inv s"
  "close_inv (s\<lparr>udp_open := x_udp_open\<rparr>) = close_inv s"
  by (simp_all add: close_inv_def)

lemma close_destroy: "close_inv s \<Longrightarrow> close_inv (fst (destroy e (s, w)))"
  by (simp add: destroy_def closing_defs split_beta) (auto simp: close_inv_def)

lemma close_udp_sent: "close_inv s \<Longrightarrow> close_inv (fst (udp_sent e (s, w)))"
  using try_parse_udp_cases [of s] by (auto simp: udp_sent_def starts_defs intro: close_destroy)

lemma close_begin_tcp_relay: "close_inv s \<Longrightarrow> close_inv (fst (snd (begin_tcp_relay e t b (s, w))))"
  by (auto simp: begin_tcp_relay_def Let_def intro!: close_destroy split: prod.split)

lemma close_execute_plan: "close_inv s \<Longrightarrow> close_inv (fst (execute_plan e plan (s, w)))"
  by (auto simp: execute_plan_def start_udp_forward_def connect_outbound_def Let_def
      intro!: close_udp_sent close_begin_tcp_relay close_destroy)

lemma close_handle_payload: "close_inv s \<Longrightarrow> close_inv (fst (handle_handshake_payload e data (s, w)))"
  by (auto simp: handle_handshake_payload_def intro!: close_execute_plan split: sum.split prod.split)

lemma close_bootstrap_read: "close_inv s \<Longrightarrow> close_inv (fst (trusted_front_ingress_read e data (s, w)))"
  by (auto simp: trusted_front_ingress_read_def set_external_front_handoff_def Let_def starts_defs
      intro!: close_handle_payload close_destroy)

lemma close_in_recv: "close_inv s \<Longrightarrow> close_inv (fst (in_recv e data (s, w)))"
  by (auto simp: in_recv_def starts_defs Let_def intro!: close_handle_payload close_udp_sent split: Status.split)

lemma close_tcp_resolved: "close_inv s \<Longrightarrow> close_inv (fst (tcp_resolved e ok t c (s, w)))"
  by (auto simp: tcp_resolved_def intro!: close_destroy split: completion.split option.split)

lemma close_udp_resolved: "close_inv s \<Longrightarrow> close_inv (fst (udp_resolved e ok pl n c (s, w)))"
  by (auto simp: udp_resolved_def dispatch_udp_payload_def ensure_open_cases starts_defs split_beta
      close_destroy split: completion.split option.split)

lemma close_handshake_done: "close_inv s \<Longrightarrow> close_inv (fst (handshake_done e c (s, w)))"
  by (auto simp: handshake_done_def starts_defs intro!: close_destroy)

lemma close_tcp_connected: "close_inv (tcp_connected s)"
  by (simp add: tcp_connected_def starts_defs Let_def)

lemma close_on_complete:
  assumes "close_inv s" and "\<not> is_closer op"
  shows "close_inv (fst (on_complete e ok op c (s, w)))"
  using assms
  by (cases op)
     (auto simp: in_sent_def out_recv_def out_sent_def udp_recv_def starts_defs Let_def
       intro!: close_destroy close_handshake_done close_udp_sent close_tcp_resolved close_udp_resolved
         close_in_recv close_bootstrap_read close_tcp_connected
       split: Status.split completion.split)

lemma closers_pending: "closers (s\<lparr>pending := ps\<rparr>) = filter (\<lambda>p. is_closer (fst p)) ps"
  by (simp add: closers_def)

lemma close_step:
  assumes "session_step e (s, w, tr) (s', w', tr')" and "close_inv s"
  shows "close_inv s'"
  using assms(1)
proof cases
  case (ready i op c)
  then have c: "c \<noteq> Aborted" and pi: "pending s ! i = (op, None)" by auto
  have "list_ex (\<lambda>p. snd p \<noteq> Some Aborted) (filter (\<lambda>p. is_closer (fst p)) ((pending s)[i := (op, Some c)]))"
    if "list_ex (\<lambda>p. snd p \<noteq> Some Aborted) (filter (\<lambda>p. is_closer (fst p)) (pending s))"
  proof -
    from that obtain j where j: "j < length (pending s)" "is_closer (fst (pending s ! j))" "snd (pending s ! j) \<noteq> Some Aborted"
      by (auto simp: list_ex_iff in_set_conv_nth)
    let ?ps = "(pending s)[i := (op, Some c)]"
    have "j < length ?ps" "is_closer (fst (?ps ! j))" "snd (?ps ! j) \<noteq> Some Aborted"
      using j c pi by (cases "j = i"; simp)+
    moreover have "?ps ! j \<in> set ?ps" using \<open>j < length ?ps\<close> by (rule nth_mem)
    ultimately have "\<exists>p \<in> set ?ps. is_closer (fst p) \<and> snd p \<noteq> Some Aborted" by blast
    then show ?thesis by (auto simp: list_ex_iff) blast
  qed
  with ready assms(2) show ?thesis by (auto simp: close_inv_def closers_def)
next
  case (run i op c ok)
  let ?s = "s\<lparr>pending := remove_nth i (pending s)\<rparr>"
  show ?thesis
  proof (cases "is_closer op \<and> c \<noteq> Aborted")
    case True
    then have "\<not> in_open (fst (on_complete e ok op c (?s, w)))"
      by (cases op) (auto simp: ssl_shutdown_cb_def close_in_socket_def)
    with run have "\<not> in_open s'" by simp
    then show ?thesis by (simp add: close_inv_def)
  next
    case False
    have "list_ex (\<lambda>p. snd p \<noteq> Some Aborted) (filter (\<lambda>p. is_closer (fst p)) (remove_nth i (pending s)))"
      if "list_ex (\<lambda>p. snd p \<noteq> Some Aborted) (filter (\<lambda>p. is_closer (fst p)) (pending s))"
    proof -
      from that obtain p where p: "p \<in> set (pending s)" "is_closer (fst p)" "snd p \<noteq> Some Aborted" by (auto simp: list_ex_iff)
      have "set (pending s) = set (remove_nth i (pending s)) \<union> {pending s ! i}"
        using arg_cong [OF id_take_nth_drop [of i "pending s"], of set] run by (auto simp: remove_nth_def)
      with p False run have "p \<in> set (remove_nth i (pending s))" by auto
      with p(2,3) show ?thesis unfolding list_ex_iff set_filter by blast
    qed
    with assms(2) have "close_inv ?s" by (auto simp: close_inv_def closers_def)
    moreover have "on_complete e ok op c (?s, w) = (?s, w)" if "is_closer op"
      using that False by (cases op) (auto simp: ssl_shutdown_cb_def)
    ultimately have "close_inv (fst (on_complete e ok op c (?s, w)))" using close_on_complete [of ?s op e ok c w] by (cases "is_closer op") auto
    with run show ?thesis by simp
  qed
qed (use assms(2) in auto)

lemma close_start:
  assumes "fresh_session s"
  shows "close_inv (fst (start e remote (s, w)))"
proof -
  have "close_inv s" using assms by (auto simp: fresh_session_def new_session_def close_inv_def)
  then show ?thesis
    by (auto simp: start_def Let_def starts_defs intro!: close_destroy split: option.split BootstrapMode.split)
qed

lemma server_reachable_close:
  assumes "server_reachable e s tr"
  shows "close_inv s"
proof -
  have steps: "(server_step e)\<^sup>*\<^sup>* c c' \<Longrightarrow> close_inv (fst c) \<Longrightarrow> close_inv (fst c')" for c c'
    by (induction rule: rtranclp_induct) (auto elim!: server_stepE intro: close_step)
  from assms obtain s0 remote w0 s1 w1 w where r: "fresh_session s0" "start e remote (s0, w0) = (s1, w1)"
      "(server_step e)\<^sup>*\<^sup>* (s1, w1, empty_trace) (s, w, tr)"
    by (auto simp: server_reachable_def)
  have "close_inv s1" using close_start [OF r(1), of e remote w0] r(2) by simp
  with steps [OF r(3)] show ?thesis by simp
qed

section \<open>Runs to the end\<close>

lemma pending_can_step:
  assumes "pending s \<noteq> []"
  shows "\<exists>c'. session_step e (s, w, tr) c'"
proof -
  have i: "0 < length (pending s)" using assms by simp
  obtain op c where p: "pending s ! 0 = (op, c)" by fastforce
  show ?thesis
  proof (cases c)
    case None
    have "admissible s tr op (Failed '''')" by simp
    with ready [OF i, of op tr "Failed ''''" e w] p None show ?thesis by blast
  next
    case (Some x)
    obtain s' w' where "on_complete e True op x (s\<lparr>pending := remove_nth 0 (pending s)\<rparr>, w) = (s', w')" by fastforce
    with run [OF i, of op x e True w s' w' tr] p Some show ?thesis by blast
  qed
qed

text \<open>The session and the service take turns; only the steps of the session count.\<close>

lemma destroyed_steps_bounded:
  assumes "(session_step e ^^ n) (s, w, tr) (s', w', tr')" and "tok_inv False False s" and "close_inv s" and "status s = DESTROY"
  shows "n + shutdown_work s' \<le> shutdown_work s \<and> status s' = DESTROY \<and> tok_inv False False s' \<and> close_inv s'"
  using assms(1)
proof (induction n arbitrary: s' w' tr')
  case (Suc n)
  then obtain s1 w1 tr1 where a: "(session_step e ^^ n) (s, w, tr) (s1, w1, tr1)" and b: "session_step e (s1, w1, tr1) (s', w', tr')"
    by auto
  from Suc.IH [OF a] have i: "n + shutdown_work s1 \<le> shutdown_work s" "status s1 = DESTROY" "tok_inv False False s1" "close_inv s1" by auto
  with destroyed_step [OF b i(3,2)] close_step [OF b i(4)] session_step_tok [OF b i(3)] show ?case by simp
qed (use assms in simp)

end
