(* ===== verification/Server_Session_Targets.thy ===== *)
theory Server_Session_Targets
  imports Server_Session_History
begin

text \<open>
  Which bytes decide where a session connects to.  A session gives data to its gate once: the first
  chunk behind a TLS handshake with the client, or what follows the ingress frame on a connection
  of the trusted front, once that frame is complete.  Everything the session connects to, and
  the relaying of UDP, is what a request in that data asks for, or the fallback.
\<close>

section \<open>The data for the gate\<close>

fun boot_payload :: "(string \<Rightarrow> ptree option) \<Rightarrow> string \<Rightarrow> string list \<Rightarrow> string option" where
  "boot_payload rj buf [] = None"
| "boot_payload rj buf (d # ds) =
     (let result = parse_ingress rj (buf @ d)
      in if ingress_parsed result then Some (downstream_payload result) else boot_payload rj (buf @ d) ds)"

definition gate_data :: "'w session_env \<Rightarrow> BootstrapMode \<Rightarrow> string list \<Rightarrow> string option" where
  "gate_data e m h =
     (if m = StandardTls then (case h of [] \<Rightarrow> None | d # ds \<Rightarrow> Some d)
      else boot_payload (se_read_json e) [] h)"

lemma boot_payload_append:
  "boot_payload rj buf (ds @ ds') =
     (case boot_payload rj buf ds of Some p \<Rightarrow> Some p | None \<Rightarrow> boot_payload rj (buf @ concat ds) ds')"
  by (induction rj buf ds rule: boot_payload.induct) (simp_all add: Let_def split: option.split)

lemma gate_data_Nil [simp]: "gate_data e m [] = None"
  by (simp add: gate_data_def)

lemma gate_data_append: "gate_data e m h = Some p \<Longrightarrow> gate_data e m (h @ h') = Some p"
  by (auto simp: gate_data_def boot_payload_append split: if_splits list.splits)

section \<open>Asking once\<close>

definition waiting :: "async_op \<Rightarrow> bool" where
  "waiting op \<longleftrightarrow> op = Handshake \<or> op = In_read \<or> op = Bootstrap_read"

text \<open>While the session waits for data to evaluate, it has evaluated none, and a session of the front
  has kept all it received.\<close>

definition unasked :: "'w session_env \<Rightarrow> BootstrapMode \<Rightarrow> ServerSession \<Rightarrow> string list \<Rightarrow> async_op \<Rightarrow> bool" where
  "unasked e m s h op \<longleftrightarrow> bootstrap_mode s = m \<and> gate_data e m h = None \<and>
     (op = Handshake \<longrightarrow> m \<noteq> TrustedFrontIngress) \<and>
     (if m = StandardTls then op \<noteq> Bootstrap_read
      else op \<noteq> In_read \<and> trusted_front_bootstrap_buffer s = concat h)"

definition asking_inv :: "'w session_env \<Rightarrow> BootstrapMode \<Rightarrow> ServerSession \<Rightarrow> string list \<Rightarrow> bool" where
  "asking_inv e m s h \<longleftrightarrow>
     (status s = HANDSHAKE \<longrightarrow> list_all (\<lambda>p. waiting (fst p) \<longrightarrow> unasked e m s h (fst p)) (ups s))"

definition deciding_inv :: "'w session_env \<Rightarrow> BootstrapMode \<Rightarrow> ServerSession \<Rightarrow> string list \<Rightarrow> bool" where
  "deciding_inv e m s h \<longleftrightarrow>
     tok_inv False False s \<and> asking_inv e m s h \<and> target_inv e (gate_data e m h) s"

lemma connecting_not_waiting: "has_target op \<Longrightarrow> \<not> waiting op"
  by (cases op) (auto simp: has_target_def waiting_def)

lemma connecting_asking: "list_all (\<lambda>p. has_target (fst p)) (ups s) \<Longrightarrow> asking_inv e m s h"
  by (auto simp: asking_inv_def list_all_iff dest: connecting_not_waiting)

lemma asking_past: "status s \<noteq> HANDSHAKE \<Longrightarrow> asking_inv e m s h"
  by (simp add: asking_inv_def)

lemma target_more: "target_inv e (gate_data e m h) s \<Longrightarrow> target_inv e (gate_data e m (h @ h')) s"
  by (cases "gate_data e m h") (simp_all add: gate_data_append target_unasked)

text \<open>The data a waiting session evaluates is the data for the gate.\<close>

lemma unasked_evaluated:
  assumes "waiting op \<Longrightarrow> unasked e m s h op"
  shows "evaluated e s op c \<in> {None, gate_data e m (h @ in_chunk op c)}"
proof (cases "\<exists>d. (op = In_read \<or> op = Bootstrap_read) \<and> c = Received d")
  case False
  then show ?thesis by (cases op; cases c) auto
next
  case True
  with assms have "unasked e m s h op" by (auto simp: waiting_def)
  with True show ?thesis
    by (auto simp: unasked_def gate_data_def boot_payload_append Let_def split: if_splits list.splits)
qed

lemma asking_on_complete:
  assumes "status s = HANDSHAKE" and "ups s = []" and "handshake_op op" and "waiting op \<Longrightarrow> unasked e m s h op"
  shows "asking_inv e m (fst (on_complete e ok op c (s, w))) (h @ in_chunk op c)"
proof (cases "\<exists>d. op = Bootstrap_read \<and> c = Received d")
  case True
  then obtain d where d: "op = Bootstrap_read" "c = Received d" by blast
  then have u: "unasked e m s h Bootstrap_read" using assms(4) by (simp add: waiting_def)
  then have m: "m \<noteq> StandardTls" by (auto simp: unasked_def)
  let ?r = "parse_ingress (se_read_json e) (trusted_front_bootstrap_buffer s @ d)"
  let ?s = "set_external_front_handoff (the (ig_handoff ?r)) (s\<lparr>trusted_front_bootstrap_buffer := ''''\<rparr>)"
  show ?thesis
  proof (cases "ingress_parsed ?r")
    case True
    then have "fst (on_complete e ok op c (s, w)) = fst (handle_handshake_payload e (downstream_payload ?r) (?s, w))"
      using d by (simp add: trusted_front_ingress_read_def Let_def)
    then show ?thesis
      using handle_payload_tokens [of ?s e "downstream_payload ?r" w] assms(2)
      by (cases "status (fst (on_complete e ok op c (s, w))) = HANDSHAKE")
         (auto simp: set_external_front_handoff_def intro: connecting_asking asking_past)
  next
    case False
    then show ?thesis using d u m assms(1,2)
      by (auto simp: trusted_front_ingress_read_def Let_def starts_defs asking_inv_def waiting_def unasked_def
          gate_data_def boot_payload_append)
  qed
next
  case False
  then have h: "op = In_read \<or> h @ in_chunk op c = h" by (cases op; cases c) auto
  have first: "asking_inv e m (fst (in_recv e d (s, w))) h'" for d h'
    using first_chunk_tokens [of s e d w] assms(1,2)
    by (cases "status (fst (in_recv e d (s, w))) = HANDSHAKE") (auto intro: connecting_asking asking_past)
  show ?thesis
  proof (cases "op = In_read")
    case True
    then show ?thesis using first by (cases c) (simp_all add: asking_past)
  next
    case other: False
    with assms False h show ?thesis
      by (cases op; cases c; cases m)
         (auto simp: handshake_done_def tcp_resolved_def tcp_connected_fields starts_defs asking_inv_def waiting_def unasked_def
           split: option.splits)
  qed
qed

lemma run_deciding:
  assumes "deciding_inv e m s h" and "i < length (pending s)" and "pending s ! i = (op, Some c)"
    and "on_complete e ok op c (s\<lparr>pending := remove_nth i (pending s)\<rparr>, w) = (s', w')"
  shows "deciding_inv e m s' (h @ in_chunk op c)"
proof -
  let ?s = "s\<lparr>pending := remove_nth i (pending s)\<rparr>"
  have tok: "tok_inv False False s" and ask: "asking_inv e m s h" and tgt: "target_inv e (gate_data e m (h @ in_chunk op c)) s"
    using assms(1) target_more by (auto simp: deciding_inv_def)
  have s': "s' = fst (on_complete e ok op c (?s, w))" using assms(4) by simp
  note t = target_pending [OF tgt assms(2,3)]
  have "asking_inv e m s' (h @ in_chunk op c) \<and> evaluated e ?s op c \<in> {None, gate_data e m (h @ in_chunk op c)}"
  proof (cases "status s = HANDSHAKE")
    case True
    note r = run_op_cases(1) [OF tok assms(2,3) True]
    have u: "waiting op \<Longrightarrow> unasked e m ?s h op" using ask r True by (auto simp: asking_inv_def unasked_def)
    then show ?thesis
      using asking_on_complete [of ?s op e m h ok c w] unasked_evaluated [of op e m ?s h c] r True s' by simp
  next
    case False
    have op: "op \<noteq> Bootstrap_read" "\<not> is_tcp_connect op"
      using run_op_cases(2) [OF tok assms(2,3) False] tok_inv_take_up(3) [OF tok assms(2,3)] False
      by (auto split: Status.splits)
    then have "status s' \<noteq> HANDSHAKE"
      using stays_on_complete [of op ?s e ok c w] False unfolding s' stays_def by auto
    moreover have "evaluated e ?s op c = None" using op False by (cases op; cases c) auto
    ultimately show ?thesis by (simp add: asking_past)
  qed
  then show ?thesis
    using run_tok [OF tok assms(2-4)] target_on_complete [OF t(1,3), of c ok w] s' by (simp add: deciding_inv_def)
qed

lemma history_step_deciding:
  assumes "history_step e (s, w, tr, h) (s', w', tr', h')" and "deciding_inv e m s h"
  shows "deciding_inv e m s' h'"
  using assms(1)
proof cases
  case (hist_ready i op c)
  have tok: "tok_inv False False s" using assms(2) by (simp add: deciding_inv_def)
  have tok': "tok_inv False False s'" using ready_tok [OF tok hist_ready(5,6), of c] hist_ready by simp
  have "list_all (\<lambda>p. waiting (fst p) \<longrightarrow> unasked e m s h (fst p)) (ups s') =
      list_all (\<lambda>p. waiting (fst p) \<longrightarrow> unasked e m s h (fst p)) (ups s)"
    using ready_tokens_ups(1) [OF tok hist_ready(5,6), of c] ready_tokens_ups(2) [OF tok hist_ready(5,6)] hist_ready
    by (auto split: if_splits)
  moreover have "unasked e m s' h = unasked e m s h" using hist_ready by (simp add: unasked_def fun_eq_iff)
  moreover have "status s' = status s" using hist_ready by simp
  ultimately have "asking_inv e m s' h" using assms(2) by (simp add: deciding_inv_def asking_inv_def)
  moreover have "target_inv e (gate_data e m h) s'"
    using target_pending(2) [of e _ s i op None "Some c"] hist_ready assms(2) by (simp add: deciding_inv_def)
  ultimately show ?thesis using tok' hist_ready by (simp add: deciding_inv_def)
next
  case (hist_run i op c ok)
  then show ?thesis using run_deciding [OF assms(2)] by blast
qed (use assms(2) in \<open>simp_all\<close>)

lemma start_deciding:
  assumes "fresh_session s0" and "start e remote (s0, w) = (s, w')"
  shows "deciding_inv e (bootstrap_mode s0) s []"
proof -
  have n: "ups s0 = []" "trusted_front_bootstrap_buffer s0 = []"
    using assms(1) by (auto simp: fresh_session_def new_session_def ups_def)
  have "asking_inv e (bootstrap_mode s0) s []"
  proof (cases remote)
    case None
    then have "status s = DESTROY" using assms(2) by (auto simp: start_def dest!: arg_cong [of _ _ fst])
    then show ?thesis by (simp add: asking_past)
  next
    case (Some ep)
    with assms(2) n show ?thesis
      by (cases "bootstrap_mode s0") (auto simp: start_def starts_defs asking_inv_def waiting_def unasked_def)
  qed
  then show ?thesis
    using start_tok [OF assms(1), of e remote w] start_target [OF assms(1), of e _ remote w] assms(2)
    by (simp add: deciding_inv_def)
qed

lemma session_history_deciding:
  assumes "session_history e s0 s tr h" and "fresh_session s0"
  shows "deciding_inv e (bootstrap_mode s0) s h"
proof -
  have steps: "(history_step e)\<^sup>*\<^sup>* c c' \<Longrightarrow> deciding_inv e m (fst c) (snd (snd (snd c))) \<Longrightarrow>
      deciding_inv e m (fst c') (snd (snd (snd c')))" for c c' m
  proof (induction rule: rtranclp_induct)
    case (step c' c'')
    obtain s w tr h s' w' tr' h' where "c' = (s, w, tr, h)" "c'' = (s', w', tr', h')" by (metis prod_cases4)
    with step show ?case using history_step_deciding by auto
  qed simp
  from assms(1) obtain remote w0 s1 w1 w where r: "start e remote (s0, w0) = (s1, w1)"
      "(history_step e)\<^sup>*\<^sup>* (s1, w1, empty_trace, []) (s, w, tr, h)"
    by (auto simp: session_history_def)
  from steps [OF r(2)] start_deciding [OF assms(2) r(1)] show ?thesis by simp
qed

end
