(* ===== verification/Config_Wellformed.thy ===== *)
theory Config_Wellformed
  imports Config
begin

text \<open>
  What every configuration satisfies that \<open>src/core/config.cpp\<close> has filled: its maps are ordered, its
  passwords are stored under their digests, and the digests are text that fits a line of the
  protocol.  Also the format of the ALPN list, against a reader of that format.
\<close>

section \<open>Digests\<close>

definition hex_text :: "string \<Rightarrow> bool" where
  "hex_text s \<longleftrightarrow> set s \<subseteq> set ''0123456789abcdef''"

lemma hex_digit_text: "n < 16 \<Longrightarrow> hex_digit n \<in> set ''0123456789abcdef''"
proof -
  have "list_all (\<lambda>n. hex_digit n \<in> set ''0123456789abcdef'') [0..<16]" by code_simp
  then show "n < 16 \<Longrightarrow> hex_digit n \<in> set ''0123456789abcdef''" by (simp only: list_all_iff set_upt) simp
qed

lemma hex2_text: "hex_text (hex2 c)"
proof -
  have "(of_char c :: nat) div 16 < 16" using of_char_less_256 [of c] by (simp add: less_mult_imp_div_less)
  moreover have "(of_char c :: nat) mod 16 < 16" by simp
  ultimately have "{hex_digit (of_char c div 16), hex_digit (of_char c mod 16)} \<subseteq> set ''0123456789abcdef''"
    using hex_digit_text by (simp only: insert_subset empty_subsetI)
  then show ?thesis by (simp add: hex_text_def hex2_def)
qed

lemma SHA224_text: "SHA224 evp m = Inr h \<Longrightarrow> hex_text h"
  using hex2_text by (fastforce simp: SHA224_def hex_text_def split: sum.splits evp_error.splits)

lemma SHA224_length: "evp m = Inr digest \<Longrightarrow> length digest = 28 \<Longrightarrow> SHA224 evp m = Inr h \<Longrightarrow> length h = 56"
  by (auto simp: SHA224_def length_concat hex2_def comp_def sum_list_triv)

lemma hex_text_line: "hex_text h \<Longrightarrow> find_sub crlf h = None"
proof (rule ccontr)
  assume h: "hex_text h" and "find_sub crlf h \<noteq> None"
  then obtain i where "find_sub crlf h = Some i" by auto
  from find_sub_split [OF this] have "CHR 0x0D \<in> set h" by (metis crlf_def in_set_conv_decomp append_Cons)
  moreover have "CHR 0x0D \<notin> set ''0123456789abcdef''" by simp
  ultimately show False using h unfolding hex_text_def by blast
qed

section \<open>The maps\<close>

definition children_of :: "ptree \<Rightarrow> string \<Rightarrow> pt_child list" where
  "children_of t path = (case pt_children t path of None \<Rightarrow> [] | Some items \<Rightarrow> items)"

definition wf_config :: "(string \<Rightarrow> evp_error + string) \<Rightarrow> Config \<Rightarrow> bool" where
  "wf_config evp cfg \<longleftrightarrow>
     sorted_wrt (<) (map fst (password cfg)) \<and> list_all (\<lambda>(h, pw). SHA224 evp pw = Inr h \<and> hex_text h) (password cfg) \<and>
     sorted_wrt (<) (map fst (ssl_alpn_port_override (ssl cfg)))"

lemma set_smap_put: "set (smap_put k v m) \<subseteq> insert (k, v) (set m)"
  by (induction k v m rule: smap_put.induct) auto

lemma add_passwords_wf:
  assumes "add_passwords evp items m = Inr m'" and "sorted_wrt (<) (map fst m)"
    and "list_all (\<lambda>(h, pw). SHA224 evp pw = Inr h \<and> hex_text h) m"
  shows "sorted_wrt (<) (map fst m')" and "list_all (\<lambda>(h, pw). SHA224 evp pw = Inr h \<and> hex_text h) m'"
    and "fst ` set m' = fst ` set m \<union> {h. \<exists>item \<in> set items. SHA224 evp (ch_text item) = Inr h}"
proof -
  have "sorted_wrt (<) (map fst m') \<and> list_all (\<lambda>(h, pw). SHA224 evp pw = Inr h \<and> hex_text h) m' \<and>
      fst ` set m' = fst ` set m \<union> {h. \<exists>item \<in> set items. SHA224 evp (ch_text item) = Inr h}"
    using assms
  proof (induction evp items m rule: add_passwords.induct)
    case (2 evp item items m)
    then obtain h where h: "SHA224 evp (ch_text item) = Inr h"
        "add_passwords evp items (smap_put h (ch_text item) m) = Inr m'"
      by (auto simp: bind_exn_def split: sum.splits)
    have "list_all (\<lambda>(h, pw). SHA224 evp pw = Inr h \<and> hex_text h) (smap_put h (ch_text item) m)"
      using 2(4) h(1) SHA224_text [OF h(1)] set_smap_put [of h "ch_text item" m] by (auto simp: list_all_iff)
    with 2(1) [OF h(2)] sorted_smap_put [OF 2(3)] h keys_smap_put [of h "ch_text item" m] show ?case by auto
  qed simp
  then show "sorted_wrt (<) (map fst m')" "list_all (\<lambda>(h, pw). SHA224 evp pw = Inr h \<and> hex_text h) m'"
    "fst ` set m' = fst ` set m \<union> {h. \<exists>item \<in> set items. SHA224 evp (ch_text item) = Inr h}" by blast+
qed

lemma add_overrides_wf:
  "add_overrides items m = Inr m' \<Longrightarrow> sorted_wrt (<) (map fst m) \<Longrightarrow> sorted_wrt (<) (map fst m')"
  by (induction items m rule: add_overrides.induct) (auto split: option.splits intro: sorted_smap_put)

lemma add_overrides_last:
  "add_overrides items m = Inr m' \<Longrightarrow>
     map_of m' = (\<lambda>k. case find (\<lambda>item. ch_key item = k) (rev items) of Some item \<Rightarrow> ch_u16 item | None \<Rightarrow> map_of m k)"
proof (induction items m rule: add_overrides.induct)
  case (2 item items m)
  then obtain p where p: "ch_u16 item = Some p" "add_overrides items (smap_put (ch_key item) p m) = Inr m'"
    by (auto split: option.splits)
  have "find P (xs @ [x]) = (case find P xs of Some y \<Rightarrow> Some y | None \<Rightarrow> if P x then Some x else None)" for P xs and x :: pt_child
    by (induction xs) auto
  with 2(1) [OF p] p(1) show ?case by (auto simp: fun_eq_iff map_of_smap_put split: option.splits)
qed simp

lemma populate_wf:
  assumes "populate evp t = Inr cfg"
  shows "wf_config evp cfg"
    and "fst ` set (password cfg) = {h. \<exists>item \<in> set (children_of t ''password''). SHA224 evp (ch_text item) = Inr h}"
    and "map_of (ssl_alpn_port_override (ssl cfg)) =
      (\<lambda>k. case find (\<lambda>item. ch_key item = k) (rev (children_of t ''ssl.alpn_port_override'')) of Some item \<Rightarrow> ch_u16 item | None \<Rightarrow> None)"
    and "ssl_alpn (ssl cfg) = alpn_wire (children_of t ''ssl.alpn'')"
proof -
  from assms obtain pws overrides where
    p: "(case pt_children t ''password'' of None \<Rightarrow> Inr [] | Some items \<Rightarrow> add_passwords evp items []) = Inr pws"
    and o: "(case pt_children t ''ssl.alpn_port_override'' of None \<Rightarrow> Inr [] | Some items \<Rightarrow> add_overrides items []) = Inr overrides"
    and c: "password cfg = pws" "ssl cfg = populate_ssl t overrides"
    by (auto simp: populate_def bind_exn_def split: sum.splits)
  from p have p': "add_passwords evp (children_of t ''password'') [] = Inr pws" by (auto simp: children_of_def split: option.splits)
  from o have o': "add_overrides (children_of t ''ssl.alpn_port_override'') [] = Inr overrides" by (auto simp: children_of_def split: option.splits)
  note pw = add_passwords_wf [OF p'] and ov = add_overrides_wf [OF o'] add_overrides_last [OF o']
  have s: "ssl_alpn_port_override (ssl cfg) = overrides" using c by (simp add: populate_ssl_def)
  show "wf_config evp cfg" using pw(1,2) ov(1) c(1) s by (simp add: wf_config_def)
  show "fst ` set (password cfg) = {h. \<exists>item \<in> set (children_of t ''password''). SHA224 evp (ch_text item) = Inr h}"
    using pw(3) c(1) by simp
  show "map_of (ssl_alpn_port_override (ssl cfg)) =
      (\<lambda>k. case find (\<lambda>item. ch_key item = k) (rev (children_of t ''ssl.alpn_port_override'')) of Some item \<Rightarrow> ch_u16 item | None \<Rightarrow> None)"
    using ov(2) s by (simp add: fun_eq_iff split: option.splits)
  show "ssl_alpn (ssl cfg) = alpn_wire (children_of t ''ssl.alpn'')"
    using c(2) by (simp add: populate_ssl_def children_of_def split: option.split)
qed

text \<open>A configuration from the environment of a plugin is one from its JSON text, with other addresses.\<close>

lemma sip003_wf:
  assumes "sip003 getenv read_json evp = Inr (Some cfg)"
  shows "wf_config evp cfg" and "run_type cfg = SERVER \<or> run_type cfg = FORWARD"
proof -
  from assms obtain json t c where c: "read_json json = Some t" "populate evp t = Inr c" "password cfg = password c" "ssl cfg = ssl c"
    by (auto simp: sip003_def bind_exn_def populate_json_def split: option.splits sum.splits RunType.splits)
  then show "wf_config evp cfg" using populate_wf(1) [OF c(2)] by (simp add: wf_config_def)
  show "run_type cfg = SERVER \<or> run_type cfg = FORWARD"
    using assms by (auto simp: sip003_def bind_exn_def split: option.splits sum.splits RunType.splits)
qed

section \<open>The ALPN list\<close>

text \<open>The list of protocols in the format of the TLS extension: each name behind its length, no name empty.\<close>

function alpn_protocols :: "string \<Rightarrow> string list option" where
  "alpn_protocols [] = Some []"
| "alpn_protocols (n # cs) =
     (if of_char n = (0 :: nat) \<or> length cs < of_char n then None
      else map_option ((#) (take (of_char n) cs)) (alpn_protocols (drop (of_char n) cs)))"
  by pat_completeness auto
termination
  by (relation "measure length") auto

lemma alpn_roundtrip:
  "list_all (\<lambda>item. ch_text item \<noteq> [] \<and> length (ch_text item) \<le> 255) items \<Longrightarrow>
     alpn_protocols (alpn_wire items) = Some (map ch_text items)"
  by (induction items) auto

end
