(* ===== verification/Main_Program.thy ===== *)
theory Main_Program
  imports Service_Setup
begin

text \<open>
  The process around the service: the TLS session cache \<open>src/ssl/sslsession.{h,cpp}\<close>, the version
  \<open>src/core/version.cpp\<close>, what \<open>src/core/service.cpp\<close> logs when it is run and told to reload its
  certificate, and \<open>src/main.cpp\<close>.

  The parsing of the command line and the help text are Boost's; the parsed options are an
  argument.  A round of the main loop is described by what it finds (environment, configuration
  file, the answers of the machine to the constructor of the service) and by what happens while its service
  runs.  Reading back the endpoint of the listener, adding the signals and starting the threads are
  taken to succeed.
\<close>

section \<open>TLS session cache\<close>

definition new_session_cb :: "'s \<Rightarrow> 's list \<Rightarrow> 's list" where
  "new_session_cb session sessions = session # sessions"

definition remove_session_cb :: "'s \<Rightarrow> 's list \<Rightarrow> 's list" where
  "remove_session_cb session sessions = removeAll session sessions"

definition get_session :: "'s list \<Rightarrow> 's option" where
  "get_session sessions = (case sessions of [] \<Rightarrow> None | s # rest \<Rightarrow> Some s)"

lemma get_session_recent:
  "get_session (new_session_cb s cache) = Some s"
  "get_session (remove_session_cb s cache) \<noteq> Some s"
proof -
  show "get_session (new_session_cb s cache) = Some s" by (simp add: get_session_def new_session_cb_def)
  have "s \<notin> set (removeAll s cache)" by simp
  then show "get_session (remove_session_cb s cache) \<noteq> Some s"
    by (cases "removeAll s cache") (auto simp: get_session_def remove_session_cb_def)
qed

section \<open>The service, as the log shows it\<close>

text \<open>What the build provides besides \<^typ>\<open>build_env\<close>; \<open>bi_compiled\<close> is the text of the OpenSSL version compiled with, if the
  library in use is another one.\<close>

record build_info =
  bi_env :: build_env
  bi_fastopen_connect :: bool
  bi_boost :: string
  bi_openssl :: string
  bi_compiled :: "string option"
  bi_cflags :: string
  bi_mysql_client :: string

definition bi_multi :: "build_info \<Rightarrow> Config \<Rightarrow> bool" where
  "bi_multi bi cfg = use_multi_io_context (bi_env bi) cfg"

definition bi_threads :: "build_info \<Rightarrow> Config \<Rightarrow> int" where
  "bi_threads bi cfg = thread_count cfg (be_concurrency (bi_env bi))"

definition started_lines :: "build_info \<Rightarrow> Config \<Rightarrow> endpoint \<Rightarrow> (string \<times> Level) list" where
  "started_lines bi cfg ep =
     (''trojan service ('' @ run_type_name cfg @ '') started at '' @ ep_ip ep @ '':'' @ dec_string (unat (ep_port ep)), LV_WARN) #
     (if bi_multi bi cfg
      then [(''starting '' @ dec_string (nat (bi_threads bi cfg)) @ '' worker threads (multi io_context)'', LV_WARN)]
      else if bi_threads bi cfg > 1
      then [(''starting '' @ dec_string (nat (bi_threads bi cfg)) @ '' worker threads (shared io_context)'', LV_WARN)]
      else [])"

definition stopped_lines :: "RuntimeMetrics \<Rightarrow> (string \<times> Level) list" where
  "stopped_lines m = [(summary m, LV_WARN), (''trojan service stopped'', LV_WARN)]"

section \<open>Signals\<close>

datatype signal = SIGINT | SIGTERM | SIGHUP | SIGUSR1

fun signum :: "signal \<Rightarrow> nat" where
  "signum SIGHUP = 1"
| "signum SIGINT = 2"
| "signum SIGUSR1 = 10"
| "signum SIGTERM = 15"

text \<open>What happens while a service runs: a signal, for \<open>SIGUSR1\<close> with the error of reading the certificate or the
  key, if any; a line of a session; an error of the socket of the UDP listener, which stops the service; and an
  exception that leaves the handler of a session, of an accept or of the UDP listener, or the undefined
  behaviour such a handler runs into (the handlers that read the first password of an empty list).\<close>

datatype event =
    Signal signal "string option"
  | Line string Level
  | Udp_receive_failed string
  | Handler_threw cxx_exn

datatype run_end = Still_running | Stopped bool | Threw cxx_exn

fun line_of :: "event \<Rightarrow> (string \<times> Level) list" where
  "line_of (Line m lv) = [(m, lv)]"
| "line_of ev = []"

definition reload_log ::
    "(nat \<Rightarrow> string) \<Rightarrow> Config \<Rightarrow> string option \<Rightarrow> Log \<Rightarrow> cxx_exn option \<times> Log" where
  "reload_log time cfg err l =
     (if run_type cfg = SERVER
      then let l = say time (''reloading certificate and private key. . . '', LV_WARN) l
           in case err of
                Some e \<Rightarrow> (Some (Runtime_error e), l)
              | None \<Rightarrow> (None, say time (''certificate and private key reloaded'', LV_WARN) l)
      else (None, say time (''cannot reload certificate and private key: wrong run_type'', LV_ERROR) l))"

text \<open>Only the handler of \<open>SIGUSR1\<close> waits for another signal.  After \<open>stop\<close> handlers that run on other threads may
  still write a line.\<close>

fun run_events :: "(nat \<Rightarrow> string) \<Rightarrow> Config \<Rightarrow> event list \<Rightarrow> Log \<Rightarrow> run_end \<times> Log" where
  "run_events time cfg [] l = (Still_running, l)"
| "run_events time cfg (Line m lv # evs) l = run_events time cfg evs (say time (m, lv) l)"
| "run_events time cfg (Udp_receive_failed m # evs) l =
     (if run_type cfg = FORWARD
      then (Stopped False, say_all time (concat (map line_of evs)) (say time (''udp receive failed: '' @ m, LV_ERROR) l))
      else run_events time cfg evs l)"
| "run_events time cfg (Handler_threw e # evs) l = (Threw e, l)"
| "run_events time cfg (Signal sig err # evs) l =
     (let l = say time (''got signal: '' @ dec_string (signum sig), LV_WARN) l
      in if sig = SIGUSR1
         then (case reload_log time cfg err l of
                 (Some e, l) \<Rightarrow> (Threw e, l)
               | (None, l) \<Rightarrow> run_events time cfg evs l)
         else (Stopped (sig = SIGHUP), say_all time (concat (map line_of evs)) l))"

section \<open>The main program\<close>

definition get_version :: string where
  "get_version = ''1.16.0''"

definition support :: "bool \<Rightarrow> string \<Rightarrow> string" where
  "support on name = (if on then '' [Enabled] '' else ''[Disabled] '') @ name @ '' Support''"

definition version_lines :: "build_info \<Rightarrow> string list" where
  "version_lines bi =
     [''Boost '' @ bi_boost bi @ '', '' @ bi_openssl bi,
      support (be_mysql (bi_env bi)) ''MySQL'' @ (if be_mysql (bi_env bi) then '' ('' @ bi_mysql_client bi @ '')'' else ''''),
      support (be_fastopen (bi_env bi)) ''TCP_FASTOPEN'',
      support (bi_fastopen_connect bi) ''TCP_FASTOPEN_CONNECT'',
      support (be_keylog (bi_env bi)) ''SSL KeyLog'',
      support (be_nat (bi_env bi)) ''NAT'',
      support (be_tls13 (bi_env bi)) ''TLS1.3 Ciphersuites'',
      support (be_reuse_port (bi_env bi)) ''TCP Port Reuse'',
      ''OpenSSL Information''] @
     (case bi_compiled bi of None \<Rightarrow> [] | Some v \<Rightarrow> [CHR 0x09 # ''Compile-time Version: '' @ v]) @
     [CHR 0x09 # ''Build Flags: '' @ bi_cflags bi]"

record options =
  op_config :: string
  op_help :: bool
  op_version :: bool
  op_log :: "string option"
  op_keylog :: "string option"
  op_test :: bool

text \<open>How the process ends.  An exception aborts it that leaves a worker thread, or the main thread while there are
  worker threads to join; \<open>Crashed\<close> stands for whatever undefined behaviour does.\<close>

datatype exit_code = EXIT_SUCCESS | EXIT_FAILURE | Aborted | Crashed

text \<open>The process: its build, its clock, the text of exceptions the libraries throw, the digest, \<open>argv[0]\<close> and what
  opening the log files yields.\<close>

record process =
  pr_build :: build_info
  pr_time :: "nat \<Rightarrow> string"
  pr_what :: "cxx_exn \<Rightarrow> string"
  pr_evp :: "string \<Rightarrow> evp_error + string"
  pr_name :: string
  pr_log_err :: "string option"
  pr_keylog_err :: "string option"

text \<open>A round of the loop.\<close>

record round =
  rd_getenv :: "string \<Rightarrow> string option"
  rd_read_json :: "string \<Rightarrow> ptree option"
  rd_read_json_file :: "string \<Rightarrow> ptree option"
  rd_machine :: machine
  rd_endpoint :: endpoint
  rd_events :: "event list"
  rd_metrics :: RuntimeMetrics

fun what :: "process \<Rightarrow> cxx_exn \<Rightarrow> string" where
  "what pr (Runtime_error m) = m"
| "what pr (Logic_error m) = m"
| "what pr e = pr_what pr e"

definition fatal :: "process \<Rightarrow> cxx_exn \<Rightarrow> Log \<Rightarrow> exit_code option \<times> Log" where
  "fatal pr e l =
     (Some EXIT_FAILURE,
      say_all (pr_time pr) [(''fatal: '' @ what pr e, LV_FATAL), (''exiting. . . '', LV_FATAL)] l)"

text \<open>The \<open>catch\<close> block of \<open>main\<close>; undefined behaviour is not an exception and not caught.\<close>

definition caught :: "process \<Rightarrow> cxx_exn \<Rightarrow> Log \<Rightarrow> exit_code option \<times> Log" where
  "caught pr e l = (if e = Undefined_behaviour then (Some Crashed, l) else fatal pr e l)"

text \<open>One configuration: from the environment of a SIP003 plugin (\<open>True\<close>), else from the file.\<close>

definition read_config :: "process \<Rightarrow> round \<Rightarrow> string \<Rightarrow> (bool \<times> Config) cxx" where
  "read_config pr r config_file =
     bind_exn (sip003 (rd_getenv r) (rd_read_json r) (pr_evp pr)) (\<lambda>c.
       case c of
         Some cfg \<Rightarrow> Inr (True, cfg)
       | None \<Rightarrow> bind_exn (load (rd_read_json_file r) (pr_evp pr) config_file) (\<lambda>cfg. Inr (False, cfg)))"

text \<open>\<open>service.run()\<close>.  A service with one thread runs its handlers in the main thread, inside the \<open>try\<close> block.\<close>

definition run_service :: "process \<Rightarrow> round \<Rightarrow> Config \<Rightarrow> Log \<Rightarrow> run_end \<times> Log" where
  "run_service pr r cfg l =
     (case run_events (pr_time pr) cfg (rd_events r)
             (say_all (pr_time pr) (started_lines (pr_build pr) cfg (rd_endpoint r)) l) of
        (Stopped restart, l) \<Rightarrow> (Stopped restart, say_all (pr_time pr) (stopped_lines (rd_metrics r)) l)
      | other \<Rightarrow> other)"

text \<open>The loop of \<open>main\<close>.  No exit code: a process that is still running, or that has not come to its next round.\<close>

fun main_loop :: "process \<Rightarrow> options \<Rightarrow> round list \<Rightarrow> Log \<Rightarrow> exit_code option \<times> Log" where
  "main_loop pr opts [] l = (None, l)"
| "main_loop pr opts (r # rs) l =
     (case read_config pr r (op_config opts) of
        Inl e \<Rightarrow> caught pr e l
      | Inr (sip, cfg) \<Rightarrow>
          (let l = (if sip then say (pr_time pr) (''SIP003 is loaded'', LV_WARN) l else l)
           in case service_new (bi_env (pr_build pr)) (pr_time pr) (rd_machine r) (op_test opts) cfg l of
                (Inl e, l) \<Rightarrow> caught pr e l
              | (Inr ss, l) \<Rightarrow>
                  if op_test opts then (Some EXIT_SUCCESS, log_line ''The config file looks good.'' LV_OFF l)
                  else (case run_service pr r cfg l of
                          (Still_running, l) \<Rightarrow> (None, l)
                        | (Threw e, l) \<Rightarrow>
                            if e \<noteq> Undefined_behaviour \<and> bi_threads (pr_build pr) cfg > 1 then (Some Aborted, l) else caught pr e l
                        | (Stopped True, l) \<Rightarrow>
                            main_loop pr opts rs (say (pr_time pr) (''trojan service restarting. . . '', LV_WARN) l)
                        | (Stopped False, l) \<Rightarrow> (Some EXIT_SUCCESS, log_reset l))))"

text \<open>The log files: \<open>--keylog\<close> is an error in a build without it.\<close>

definition open_logs :: "process \<Rightarrow> options \<Rightarrow> Log \<Rightarrow> cxx_exn option \<times> Log" where
  "open_logs pr opts l =
     (case (case op_log opts of None \<Rightarrow> Inr l | Some f \<Rightarrow> redirect (pr_log_err pr) f l) of
        Inl e \<Rightarrow> (Some e, l)
      | Inr l \<Rightarrow>
          (case op_keylog opts of
             None \<Rightarrow> (None, l)
           | Some f \<Rightarrow>
               if be_keylog (bi_env (pr_build pr))
               then let l = say (pr_time pr) (''WARNING: SSL key logging exposes TLS session secrets. Use --keylog for debugging only, never in production.'', LV_WARN) l
                    in (case redirect_keylog (pr_keylog_err pr) f l of Inl e \<Rightarrow> (Some e, l) | Inr l \<Rightarrow> (None, l))
               else (Some (Runtime_error ''--keylog is not available in this build; recompile with -DENABLE_SSL_KEYLOG=ON only for debugging''), l)))"

definition main_program :: "process \<Rightarrow> options cxx \<Rightarrow> round list \<Rightarrow> exit_code option \<times> Log" where
  "main_program pr parsed rounds =
     (let l = log_line (''Welcome to trojan '' @ get_version) LV_FATAL new_log
      in case parsed of
           Inl e \<Rightarrow> caught pr e l
         | Inr opts \<Rightarrow>
             if op_help opts
             then (Some EXIT_SUCCESS, log_line (''usage: '' @ pr_name pr @ '' [-htv] [-l LOG] [-k KEYLOG] [[-c] CONFIG]'') LV_FATAL l)
             else if op_version opts
             then (Some EXIT_SUCCESS, fold (\<lambda>m. log_line m LV_FATAL) (version_lines (pr_build pr)) l)
             else (case open_logs pr opts l of
                     (Some e, l) \<Rightarrow> caught pr e l
                   | (None, l) \<Rightarrow> main_loop pr opts rounds l))"

section \<open>Properties\<close>

text \<open>Which fields of the log the parts of a round keep.\<close>

definition same_files :: "Log \<Rightarrow> Log \<Rightarrow> bool" where
  "same_files l l' \<longleftrightarrow> lg_output l' = lg_output l \<and> lg_keylog l' = lg_keylog l \<and> lg_open l' = lg_open l \<and> (log_inv l' \<longleftrightarrow> log_inv l)"

lemma same_files_refl [simp]: "same_files l l"
  by (simp add: same_files_def)

lemma same_files_say [simp]:
  "same_files l (say time x l') = same_files l l'" "same_files l (say_all time xs l') = same_files l l'"
  by (simp_all add: same_files_def)

lemma same_files_level [simp]: "same_files l (l'\<lparr>lg_level := n\<rparr>) = same_files l l'"
  by (simp add: same_files_def log_inv_def)

lemma same_files_trans: "same_files l l' \<Longrightarrow> same_files l' l'' \<Longrightarrow> same_files l l''"
  by (simp add: same_files_def)

lemma same_files_left [simp]:
  "same_files (say time x l) l' = same_files l l'" "same_files (l\<lparr>lg_level := n\<rparr>) l' = same_files l l'"
proof -
  show "same_files (say time x l) l' = same_files l l'" by (simp add: same_files_def)
  have "log_inv (l\<lparr>lg_level := n\<rparr>) = log_inv l" by (simp add: log_inv_def)
  then show "same_files (l\<lparr>lg_level := n\<rparr>) l' = same_files l l'" by (simp add: same_files_def)
qed

lemma run_script_files: "run_script time mc cfg as l = (x, l') \<Longrightarrow> same_files l l'"
proof (induction time mc cfg as l rule: run_script.induct)
  case (5 time mc cfg c as l)
  then show ?case by (cases "call_exn mc cfg c") auto
qed simp_all

lemma authenticator_exn: "authenticator_new my m = Inl e \<Longrightarrow> e \<noteq> Undefined_behaviour"
  unfolding authenticator_new_def Let_def by (simp split: prod.splits if_split_asm) blast+

lemma service_new_files: "service_new be time mc test cfg l = (x, l') \<Longrightarrow> same_files l l'"
  by (auto simp: service_new_def Let_def split: prod.splits option.splits dest!: run_script_files)

lemma service_new_exn: "service_new be time mc test cfg l = (Inl e, l') \<Longrightarrow> e \<noteq> Undefined_behaviour"
proof -
  assume new: "service_new be time mc test cfg l = (Inl e, l')"
  let ?as = "service_script be (lg_keylog l \<noteq> None) test cfg"
  have "fst (run_script time mc cfg ?as l) = Some e"
    using new by (auto simp: service_new_def Let_def split: prod.splits option.splits)
  from run_script_Some [OF this] obtain xs a ys where "?as = xs @ a # ys" "action_exn mc cfg a = Some e" by blast
  then have a: "a \<in> set ?as" "action_exn mc cfg a = Some e" by simp_all
  have call: "call_exn mc cfg c \<noteq> Some Undefined_behaviour" for c
    using authenticator_exn [of "mc_mysql mc" "mysql cfg"] by (cases c) (auto split: sum.splits)
  have throw: "Throw Undefined_behaviour \<notin> set ?as"
    by (auto simp: service_script_def listen_script_def setup_acceptor_def front_tls_script_def server_script_def mysql_script_def
        cipher_script_def Let_def)
  show "e \<noteq> Undefined_behaviour"
  proof
    assume e: "e = Undefined_behaviour"
    show False
    proof (cases a)
      case (Call c)
      with a(2) e call [of c] show ?thesis by simp
    qed (use a e throw in auto)
  qed
qed

lemma reload_log_files: "reload_log time cfg err l = (x, l') \<Longrightarrow> same_files l l'"
  by (auto simp: reload_log_def Let_def split: if_splits option.splits)

lemma run_events_files: "run_events time cfg evs l = (x, l') \<Longrightarrow> same_files l l'"
proof (induction time cfg evs l rule: run_events.induct)
  case (5 time cfg sig err evs l)
  show ?case
  proof (cases "sig = SIGUSR1")
    case True
    obtain e l1 where r: "reload_log time cfg err (say time (''got signal: '' @ dec_string (signum sig), LV_WARN) l) = (e, l1)" by fastforce
    then have "same_files l l1" using reload_log_files [OF r] by (simp add: same_files_def)
    with 5 True r show ?thesis by (cases e) (auto simp: Let_def intro: same_files_trans)
  next
    case False
    with "5.prems" show ?thesis by (auto simp: Let_def)
  qed
next
  case (2 time cfg m lv evs l)
  then show ?case by (auto simp: same_files_def)
next
  case (3 time cfg m evs l)
  then show ?case by (auto simp: same_files_def split: if_splits)
qed auto

lemma run_service_files: "run_service pr r cfg l = (x, l') \<Longrightarrow> same_files l l'"
  by (auto simp: run_service_def same_files_def split: prod.splits run_end.splits dest!: run_events_files)

lemma fatal_lines:
  assumes "lg_level l \<le> 4"
  shows "\<exists>t t'. lg_lines (snd (fatal pr e l)) = lg_lines l @
    [(lg_output l, t @ ''[FATAL] fatal: '' @ what pr e @ [CHR 0x0A]), (lg_output l, t' @ ''[FATAL] exiting. . . '' @ [CHR 0x0A])]"
  using assms by (simp add: fatal_def say_all_def say_written)

text \<open>How a process ends that had its log files open as its options say.\<close>

definition fails_in :: "process \<Rightarrow> options \<Rightarrow> round \<Rightarrow> bool" where
  "fails_in pr opts r \<longleftrightarrow>
     (\<exists>sip cfg. read_config pr r (op_config opts) = Inr (sip, cfg) \<and> bi_threads (pr_build pr) cfg > 1 \<and>
        (run_type cfg = SERVER \<and> (\<exists>err. Signal SIGUSR1 (Some err) \<in> set (rd_events r)) \<or>
         (\<exists>e. e \<noteq> Undefined_behaviour \<and> Handler_threw e \<in> set (rd_events r))))"

definition undefined_in :: "process \<Rightarrow> options \<Rightarrow> round \<Rightarrow> bool" where
  "undefined_in pr opts r \<longleftrightarrow>
     read_config pr r (op_config opts) = Inl Undefined_behaviour \<or> Handler_threw Undefined_behaviour \<in> set (rd_events r)"

definition ended_well :: "process \<Rightarrow> options \<Rightarrow> round list \<Rightarrow> exit_code option \<times> Log \<Rightarrow> bool" where
  "ended_well pr opts rounds res \<longleftrightarrow>
     (case fst res of
        None \<Rightarrow> True
      | Some EXIT_SUCCESS \<Rightarrow> op_test opts \<or> lg_open (snd res) = [] \<and> lg_output (snd res) = None \<and> lg_keylog (snd res) = None
      | Some EXIT_FAILURE \<Rightarrow> (\<exists>e l. e \<noteq> Undefined_behaviour \<and> res = fatal pr e l)
      | Some Aborted \<Rightarrow> list_ex (fails_in pr opts) rounds
      | Some Crashed \<Rightarrow> list_ex (undefined_in pr opts) rounds)"

lemma ended_well_caught:
  "(e = Undefined_behaviour \<Longrightarrow> list_ex (undefined_in pr opts) rounds) \<Longrightarrow> ended_well pr opts rounds (caught pr e l)"
  by (auto simp: ended_well_def caught_def fatal_def)

lemma ended_well_more: "ended_well pr opts rs res \<Longrightarrow> ended_well pr opts (r # rs) res"
  by (auto simp: ended_well_def split: option.splits exit_code.splits)

lemma run_events_threw:
  "run_events time cfg evs l = (Threw e, l') \<Longrightarrow>
     run_type cfg = SERVER \<and> (\<exists>err. e = Runtime_error err \<and> Signal SIGUSR1 (Some err) \<in> set evs) \<or> Handler_threw e \<in> set evs"
proof (induction time cfg evs l rule: run_events.induct)
  case (5 time cfg sig err evs l)
  then show ?case by (cases err) (auto simp: Let_def reload_log_def split: if_splits prod.splits option.splits)
qed (auto split: if_splits)

lemma run_service_threw:
  "run_service pr r cfg l = (Threw e, l') \<Longrightarrow>
     run_type cfg = SERVER \<and> (\<exists>err. e = Runtime_error err \<and> Signal SIGUSR1 (Some err) \<in> set (rd_events r)) \<or> Handler_threw e \<in> set (rd_events r)"
  by (auto simp: run_service_def split: prod.splits run_end.splits dest!: run_events_threw)

lemma main_loop_ends: "log_inv l \<Longrightarrow> ended_well pr opts rounds (main_loop pr opts rounds l)"
proof (induction pr opts rounds l rule: main_loop.induct)
  case (2 pr opts r rs l)
  show ?case
  proof (cases "read_config pr r (op_config opts)")
    case (Inl e)
    then show ?thesis using ended_well_caught [of e pr opts "r # rs" l] by (simp add: undefined_in_def)
  next
    case (Inr c)
    obtain sip cfg where c: "c = (sip, cfg)" by fastforce
    let ?l = "if sip then say (pr_time pr) (''SIP003 is loaded'', LV_WARN) l else l"
    obtain x l1 where x: "service_new (bi_env (pr_build pr)) (pr_time pr) (rd_machine r) (op_test opts) cfg ?l = (x, l1)" by fastforce
    then have l1: "log_inv l1" using service_new_files [OF x] "2.prems" by (simp add: same_files_def split: if_splits)
    obtain y l2 where y: "run_service pr r cfg l1 = (y, l2)" by fastforce
    then have l2: "log_inv l2" using run_service_files [OF y] l1 by (simp add: same_files_def)
    note step = Inr c x y
    show ?thesis
    proof (cases x)
      case (Inl e)
      with step service_new_exn [of _ _ _ _ _ ?l e l1] show ?thesis using ended_well_caught [of e pr opts "r # rs" l1] by (auto simp: Let_def)
    next
      case ss: (Inr ss)
      show ?thesis
      proof (cases "op_test opts")
        case True
        with step ss show ?thesis by (auto simp: Let_def ended_well_def)
      next
        case go: False
        have IH: "ended_well pr opts rs (main_loop pr opts rs (say (pr_time pr) (''trojan service restarting. . . '', LV_WARN) l2))"
          if "y = Stopped True"
          using "2.IH" step go ss that l2 by (auto simp: Let_def)
        show ?thesis
        proof (cases y)
          case (Stopped restart)
          then show ?thesis using step go ss ended_well_more [OF IH] log_reset_closes [OF l2]
            by (cases restart) (auto simp: Let_def ended_well_def [of _ _ _ "(Some EXIT_SUCCESS, _)"])
        next
          case (Threw e)
          note t = run_service_threw [of pr r cfg l1 e l2] y Threw
          have "e = Undefined_behaviour \<Longrightarrow> undefined_in pr opts r" using t by (auto simp: undefined_in_def)
          moreover have "e \<noteq> Undefined_behaviour \<Longrightarrow> bi_threads (pr_build pr) cfg > 1 \<Longrightarrow> fails_in pr opts r"
            using t step unfolding fails_in_def by blast
          ultimately show ?thesis using step go ss Threw ended_well_caught [of e pr opts "r # rs" l2]
            by (auto simp: Let_def ended_well_def [of _ _ _ "(Some Aborted, _)"])
        qed (use step go ss in \<open>auto simp: Let_def ended_well_def\<close>)
      qed
    qed
  qed
qed (simp add: ended_well_def)

lemma open_logs_inv:
  assumes "log_inv l" and "open_logs pr opts l = (x, l')"
  shows "log_inv l'"
proof -
  define l1 where "l1 = (case op_log opts of None \<Rightarrow> Inr l | Some f \<Rightarrow> redirect (pr_log_err pr) f l)"
  show ?thesis
  proof (cases l1)
    case (Inl e)
    with assms show ?thesis unfolding l1_def by (simp add: open_logs_def)
  next
    case (Inr m)
    then have "log_inv m" using assms(1) log_do_inv [of l "Log_redirect _ _"] unfolding l1_def by (auto split: option.splits)
    then have "redirect_keylog err f (say time line m) = Inr m' \<Longrightarrow> log_inv m'" for err f time line m'
      using log_do_inv [of "say time line m" "Log_redirect_keylog err f" m'] by simp
    with assms(2) Inr \<open>log_inv m\<close> show ?thesis unfolding l1_def
      by (auto simp: open_logs_def Let_def split: option.splits sum.splits if_splits)
  qed
qed

lemma main_program_ends:
  assumes "\<not> op_help opts" and "\<not> op_version opts"
  shows "ended_well pr opts rounds (main_program pr (Inr opts) rounds)"
proof -
  let ?l = "log_line (''Welcome to trojan '' @ get_version) LV_FATAL new_log"
  have i: "log_inv ?l" by (simp add: new_log_def log_inv_def)
  obtain x l where x: "open_logs pr opts ?l = (x, l)" by fastforce
  have "x \<noteq> Some Undefined_behaviour"
    using x by (auto simp: open_logs_def redirect_def redirect_keylog_def fopen_def bind_exn_def Let_def split: option.splits sum.splits if_splits)
  then have "x = Some e \<Longrightarrow> ended_well pr opts rounds (caught pr e l)" for e by (intro ended_well_caught) auto
  with x main_loop_ends [OF open_logs_inv [OF i x]] assms show ?thesis by (cases x) (simp_all add: main_program_def Let_def)
qed

text \<open>What a configuration that passes the test of \<open>--test\<close> is good for.\<close>

lemma main_loop_test:
  assumes "main_loop pr opts rounds l = (Some EXIT_SUCCESS, l')" and "op_test opts"
  shows "\<exists>r rs sip cfg ss m m'. rounds = r # rs \<and> read_config pr r (op_config opts) = Inr (sip, cfg) \<and>
    service_new (bi_env (pr_build pr)) (pr_time pr) (rd_machine r) True cfg m = (Inr ss, m')"
proof (cases rounds)
  case (Cons r rs)
  have nf: "caught pr e m \<noteq> (Some EXIT_SUCCESS, l')" for e m by (simp add: caught_def fatal_def)
  obtain sip cfg where c: "read_config pr r (op_config opts) = Inr (sip, cfg)"
    using assms Cons nf by (cases "read_config pr r (op_config opts)") auto
  let ?l = "if sip then say (pr_time pr) (''SIP003 is loaded'', LV_WARN) l else l"
  obtain x l1 where x: "service_new (bi_env (pr_build pr)) (pr_time pr) (rd_machine r) (op_test opts) cfg ?l = (x, l1)" by fastforce
  with assms Cons c nf obtain ss where "x = Inr ss" by (cases x) (auto simp: Let_def)
  with x assms(2) Cons c show ?thesis by auto
qed (use assms in simp)

lemma main_program_test:
  assumes "main_program pr (Inr opts) rounds = (Some EXIT_SUCCESS, l)" and "op_test opts" and "\<not> op_help opts" and "\<not> op_version opts"
  shows "\<exists>r rs sip cfg ss m m'. rounds = r # rs \<and> read_config pr r (op_config opts) = Inr (sip, cfg) \<and>
    service_new (bi_env (pr_build pr)) (pr_time pr) (rd_machine r) True cfg m = (Inr ss, m')"
proof -
  obtain x m where "open_logs pr opts (log_line (''Welcome to trojan '' @ get_version) LV_FATAL new_log) = (x, m)" by fastforce
  with assms main_loop_test [of pr opts rounds m l] show ?thesis
    by (cases x) (auto simp: main_program_def Let_def caught_def fatal_def split: if_splits)
qed

text \<open>A certificate that cannot be read when it is to be reloaded.\<close>

lemma run_events_failed_reload:
  "run_type cfg = SERVER \<Longrightarrow> list_all (\<lambda>ev. line_of ev \<noteq> []) lines \<Longrightarrow>
     fst (run_events time cfg (lines @ Signal SIGUSR1 (Some err) # evs) l) = Threw (Runtime_error err)"
proof (induction lines arbitrary: l)
  case (Cons ev lines)
  then show ?case by (cases ev) auto
qed (simp add: Let_def reload_log_def)

lemma main_loop_failed_reload:
  assumes "read_config pr r (op_config opts) = Inr (sip, cfg)" and "run_type cfg = SERVER" and "\<not> op_test opts"
    and "service_new (bi_env (pr_build pr)) (pr_time pr) (rd_machine r) False cfg
      (if sip then say (pr_time pr) (''SIP003 is loaded'', LV_WARN) l else l) = (Inr ss, l')"
    and "rd_events r = lines @ Signal SIGUSR1 (Some err) # evs" and "list_all (\<lambda>ev. line_of ev \<noteq> []) lines"
  shows "fst (main_loop pr opts (r # rs) l) = Some (if bi_threads (pr_build pr) cfg > 1 then Aborted else EXIT_FAILURE)"
proof -
  obtain y l2 where y: "run_events (pr_time pr) cfg (rd_events r)
      (say_all (pr_time pr) (started_lines (pr_build pr) cfg (rd_endpoint r)) l') = (y, l2)" by fastforce
  have "y = Threw (Runtime_error err)"
    using run_events_failed_reload [OF assms(2,6), of "pr_time pr" err evs] y unfolding assms(5) by (metis fst_conv)
  with y have "run_service pr r cfg l' = (Threw (Runtime_error err), l2)" by (simp add: run_service_def)
  with assms show ?thesis by (simp add: caught_def fatal_def)
qed

end
