(* ===== verification/Process_Samples.thy ===== *)
theory Process_Samples
  imports Main_Program Tunnel_Samples
begin

text \<open>
  A process of the sample server, on which the properties of the main program are exhibited.
\<close>

definition sample_process :: process where
  "sample_process = \<lparr>pr_build = \<lparr>bi_env = sample_build, bi_fastopen_connect = True,
       bi_boost = ''1_83'', bi_openssl = ''OpenSSL 3'', bi_compiled = None, bi_cflags = '''', bi_mysql_client = ''''\<rparr>,
     pr_time = (\<lambda>n. ''[] ''), pr_what = (\<lambda>e. ''error''), pr_evp = Inr, pr_name = ''trojan'', pr_log_err = None, pr_keylog_err = None\<rparr>"

definition sample_options :: options where
  "sample_options = \<lparr>op_config = ''config.json'', op_help = False, op_version = False, op_log = Some ''trojan.log'', op_keylog = None,
     op_test = False\<rparr>"

definition sample_round :: "event list \<Rightarrow> round" where
  "sample_round evs = \<lparr>rd_getenv = (\<lambda>_. None), rd_read_json = (\<lambda>_. None), rd_read_json_file = (\<lambda>_. Some sample_tree), rd_machine = sample_machine,
     rd_endpoint = sample_peer, rd_events = evs, rd_metrics = zero_metrics\<rparr>"

lemma sample_populate: "populate Inr sample_tree = Inr sample_config"
proof -
  have "case populate Inr sample_tree of Inl e \<Rightarrow> False | Inr c \<Rightarrow> True" by code_simp
  then show ?thesis by (auto simp: sample_config_def split: sum.splits)
qed

lemma sample_read_config: "read_config sample_process (sample_round evs) file = Inr (False, sample_config)"
  by (simp add: read_config_def sip003_def sample_round_def sample_process_def load_def bind_exn_def sample_populate)

lemma sample_config_more [simp]:
  "log_level sample_config = 1" "threads sample_config = 0" "mysql_enabled (mysql sample_config) = False"
  "tcp sample_config = \<lparr>tcp_prefer_ipv4 = False, tcp_no_delay = True, tcp_keep_alive = True, tcp_reuse_port = False,
     tcp_fast_open = False, tcp_fast_open_qlen = 20\<rparr>"
  "ssl_plain_http_response (ssl sample_config) = ''''" "ssl_curves (ssl sample_config) = ''''" "ssl_alpn (ssl sample_config) = ''''"
  "ssl_cipher (ssl sample_config) = ''''" "ssl_cipher_tls13 (ssl sample_config) = ''''" "ssl_dhparam (ssl sample_config) = ''''"
  by code_simp+

lemma sample_not_listening [simp]: "\<not> trusted_front_listening sample_config" "\<not> front_mtls sample_config"
  by (simp_all add: trusted_front_listening_def front_mtls_def)

lemma sample_threads: "bi_threads (pr_build sample_process) sample_config = 1" "\<not> use_multi_io_context sample_build sample_config"
  by (simp_all add: bi_threads_def use_multi_io_context_def thread_count_def multi_io_context_def sample_process_def sample_build_def)

text \<open>The constructor logs nothing and sets the level.\<close>

lemma sample_construct:
  assumes "lg_keylog l = None"
  shows "\<exists>ss. service_new (bi_env (pr_build sample_process)) time (rd_machine (sample_round evs)) test sample_config l = (Inr ss, l\<lparr>lg_level := 1\<rparr>)"
proof -
  have e: "run_script time sample_machine sample_config (service_script sample_build False test sample_config) l = (None, l\<lparr>lg_level := 1\<rparr>)"
    using sample_threads(2)
    by (cases test) (simp_all add: service_script_def listen_script_def setup_acceptor_def front_tls_script_def server_script_def
        server_tls_calls_def mysql_script_def dh_call_def cipher_script_def curve_calls_def sample_machine_def Let_def)
  then show ?thesis using assms by (simp add: service_new_def sample_process_def sample_round_def)
qed

text \<open>A round that a signal ends.\<close>

lemma sample_options_simps [simp]:
  "\<not> op_test sample_options" "\<not> op_help sample_options" "\<not> op_version sample_options" "op_keylog sample_options = None"
  "op_log sample_options = Some ''trojan.log''"
  by (simp_all add: sample_options_def)

lemma sample_round_ends:
  assumes "lg_keylog l = None" and "sig \<noteq> SIGUSR1"
  shows "\<exists>l'. lg_keylog l' = None \<and> main_loop sample_process sample_options (sample_round [Signal sig None] # rs) l =
    (if sig = SIGHUP then main_loop sample_process sample_options rs l' else (Some EXIT_SUCCESS, log_reset l'))"
proof -
  obtain l1 where r: "run_service sample_process (sample_round [Signal sig None]) sample_config (l\<lparr>lg_level := 1\<rparr>) = (Stopped (sig = SIGHUP), l1)"
    using assms(2) by (simp add: run_service_def sample_round_def Let_def)
  have "lg_keylog l1 = None" using run_service_files [OF r] assms(1) by (simp add: same_files_def)
  with r sample_construct [OF assms(1), of "pr_time sample_process" "[Signal sig None]" False] show ?thesis
    by (intro exI [of _ "if sig = SIGHUP then say (pr_time sample_process) (''trojan service restarting. . . '', LV_WARN) l1 else l1"])
       (auto simp: sample_read_config)
qed

text \<open>The process restarts once and is then terminated.\<close>

lemma sample_logs: "\<exists>l. open_logs sample_process sample_options (log_line m lv new_log) = (None, l) \<and> lg_keylog l = None"
  by (simp add: open_logs_def sample_process_def redirect_def fopen_def fclose_def bind_exn_def new_log_def log_line_def)

lemma sample_run:
  "\<exists>l. main_program sample_process (Inr sample_options) [sample_round [Signal SIGHUP None], sample_round [Signal SIGTERM None]] =
     (Some EXIT_SUCCESS, l)"
proof -
  obtain l0 where l0: "open_logs sample_process sample_options (log_line (''Welcome to trojan '' @ get_version) LV_FATAL new_log) = (None, l0)"
    "lg_keylog l0 = None" using sample_logs by blast
  obtain l1 where l1: "lg_keylog l1 = None" "main_loop sample_process sample_options [sample_round [Signal SIGHUP None], sample_round [Signal SIGTERM None]] l0 =
      main_loop sample_process sample_options [sample_round [Signal SIGTERM None]] l1"
    using sample_round_ends [OF l0(2), of SIGHUP "[sample_round [Signal SIGTERM None]]"] by auto
  obtain l2 where "main_loop sample_process sample_options [sample_round [Signal SIGTERM None]] l1 = (Some EXIT_SUCCESS, l2)"
    using sample_round_ends [OF l1(1), of SIGTERM "[]"] by auto
  with l0 l1 show ?thesis by (simp add: main_program_def del: main_loop.simps)
qed

end
