(* ===== verification/Spec2Isabelle.thy ===== *)
theory Spec2Isabelle
  imports Tunnel_Samples Tunnel_Composition Server_Session_Shutdown Server_Session_Targets Config_Wellformed Process_Samples
begin

text \<open>
  A verification of trojan (\<open>src/\<close>, C++): a proxy that hides its traffic in TLS.  A client process accepts
  local connections or datagrams and carries them through a TLS tunnel; the server process tells
  requests of its clients from everything else, relays the former to the target they name and
  passes the latter on to a web server.

  \<^bold>\<open>Parts of the program and the theories that model them.\<close>

  \<^item> Foundations.  \<open>Prelude\<close>: exceptions as a sum type, \<open>std::string\<close> operations, characters as signed
    bytes, machine integers, ordered maps and lemmas on lists.  \<open>Asio\<close>: endpoints, completions of
    asynchronous operations and the observer that notes bytes (\<open>io_trace\<close>).  \<open>Framing\<close>: decoders of byte
    streams, as the locale \<open>frame_decoder\<close>.  \<open>Slot_Counter\<close>: counted slots, as the locale \<open>slot_counter\<close>.
  \<^item> Wire formats (\<open>src/proto\<close>).  \<open>Socks5_Address\<close>, \<open>Trojan_Request\<close> and \<open>Udp_Packet\<close> hold the parsers and
    generators byte by byte, and the grammars they are compared with as inductive predicates.  The
    bytes behind a \<open>string_view\<close> are an argument, so that reading past its end would show.
  \<^item> Configuration (\<open>src/core/config.cpp\<close>).  \<open>Config\<close>: every field and default over a parsed JSON tree;
    Boost's JSON reader, OpenSSL's digest and the environment are parameters.  \<open>Config_Wellformed\<close>: what
    every configuration satisfies that was read.
  \<^item> Limits (\<open>src/core/{abuse_controller,fallback_controller,runtime_metrics}.cpp\<close>).
    \<open>Abuse_Controller\<close>: connections and authentication failures per address, with the clock reading as an
    argument.  \<open>Fallback_Controller\<close>: the budget of fallback sessions, as whole operations and as single
    atomic accesses of any number of threads.
  \<^item> Fronts (\<open>src/core/external_front_*.cpp\<close>, \<open>trusted_*.cpp\<close>).  \<open>External_Front\<close>: trust policy, contracts and
    builders of the metadata a front process attaches to a connection; \<open>Trusted_Front\<close>: the framed
    ingress protocol and who may speak it.
  \<^item> The gate (\<open>src/core/{session_gate,server_ingress_selector,embedded_tls_*,relay_executor}.cpp\<close>).
    \<open>Session_Gate\<close>: what becomes of the first bytes of a connection.
  \<^item> Server sessions (\<open>src/session/{session,serversession}.cpp\<close>, \<open>src/core/outbound_dialer.cpp\<close>).
    \<open>Session_Runtime\<close>: buffers and callbacks.  \<open>Server_Session\<close>: the state and every handler.  An
    asynchronous operation is in flight or complete and queued; a step of a session completes an
    operation, puts bytes on a wire or runs a queued handler (\<open>session_step\<close>), in any order, with any
    result of the operating system; cancelling an object aborts what is in flight and not what is
    queued.  \<open>Server_Session_Steps\<close> (one operation per direction), \<open>Server_Session_Bytes\<close> (the byte
    streams), \<open>Server_Session_Buffers\<close>, \<open>Server_Session_Slots\<close> (the locale \<open>slot_account\<close>),
    \<open>Server_Session_Safety\<close> (targets), \<open>Server_Session_History\<close> (what becomes of everything a session has
    received: the first chunk decides, the later ones are relayed), \<open>Server_Session_Targets\<close> (which of the
    bytes received decide about the targets, on both listeners) and \<open>Server_Session_Shutdown\<close> (the
    end of a session) hold the invariants.
  \<^item> The service (\<open>src/core/service.cpp\<close>).  \<open>Service\<close>: admission, callbacks, creation of sessions.
    \<open>Service_Constructor\<close>: the constructor as the list of its calls, log lines and exceptions in the order of the
    code, where the record \<open>machine\<close> says which calls of Asio, the file system and the data base throw.
    \<open>Service_Setup\<close>: the loops of \<open>run\<close>, the accept loops with \<open>reload_cert\<close> and \<open>stop\<close>, and the UDP listener of the
    forward mode.  \<open>System\<close>: the service with all its sessions, as one transition system; connections of the
    trusted-front listener come in only if the configuration has that listener.
  \<^item> Client-side sessions (\<open>src/session/{forward,nat,client,udpforward}session.cpp\<close>).  \<open>Tunnel\<close>: the
    operations they share.  \<open>Forward_Session\<close>: a TCP connection to a fixed or redirected target, and the
    locale \<open>forward_refinement\<close> of sessions that act as one.  \<open>Client_Session\<close>: the SOCKS5 server with its
    TCP relay and UDP association; \<open>Client_Session_Runs\<close> and \<open>Client_Udp_Runs\<close>: its invariants.
    \<open>Udp_Forward_Session\<close>: the datagrams of one source.  \<open>Tunnel_Composition\<close>: client and server together.
  \<^item> The rest.  \<open>Mysql_Authenticator\<close> (\<open>src/core/authenticator.cpp\<close>): over the MySQL client library as a
    parameter.  \<open>Logging\<close> (\<open>src/core/log.cpp\<close>): the lines written and the files open.  \<open>Main_Program\<close>: the TLS
    session cache (\<open>src/ssl/sslsession.cpp\<close>) and \<open>src/main.cpp\<close> with \<open>src/core/version.cpp\<close>: the process from
    its options to its exit code, as rounds of reading a configuration, constructing a service and
    running it until a signal or an exception that leaves a handler, with everything that \<open>main\<close> and the service
    itself put into the log.
  \<^item> \<open>Runs\<close>, \<open>Samples\<close>, \<open>Tunnel_Samples\<close> and \<open>Process_Samples\<close>: executable runs of the transition systems, and
    the concrete configurations and runs on which the properties below are exhibited.

  \<^bold>\<open>What is shown.\<close>  First the tunnel as a whole: when a SOCKS5 session of a client and a session of a
  server that knows its password are connected, the application's bytes reach the target it named,
  and no other, and the target's bytes reach the application; and a prober is connected to the web
  server behind with every byte it sent.  Then the parts.  The parsers accept
  exactly their grammars, never depend on bytes behind their view, and invert the generators; the
  frames decoded from a stream do not depend on how it was cut.  The gate lets exactly the
  authorised requests through and passes on everything else unchanged.  In every reachable state of
  a server session: targets are those of authorised requests it received, operations do not share buffers, both byte streams are
  faithful and counted, buffers are bounded, and after \<open>destroy\<close> the session comes to rest within a
  bounded number of steps.  In every reachable state of the service: the slots per address and the
  fallback budget agree with the sessions that hold them, also under every interleaving of the
  compare-exchange loops, each step of which is one of the whole operations or invisible.  The accept loop stays alive.  On the client side: the streams of all four
  kinds of session are faithful, a SOCKS5 TCP session refines a forward session, and a NAT session is
  one.  Configurations that were read are well formed, the constructor of the service succeeds exactly if no
  call it needs throws, and the process ends as its log says.  The
  last section states behaviour a reader may not expect.

  \<^bold>\<open>Hypotheses.\<close>  The bytes of a parsed request fit an \<open>int\<close> (the result type of \<open>parse\<close>).  The properties of
  the client-side sessions hold for \<^emph>\<open>orderly\<close> runs (\<open>orderly\<close>, \<open>cl_orderly\<close>, \<open>us_orderly\<close>): no connect or
  handshake succeeds after the session has ended, and no data is queued behind the read that is
  cancelled when the tunnel is established; the theorem \<open>forward_session_races\<close> shows that the code
  needs this.  Orderly runs of a SOCKS5 session are in addition \<^emph>\<open>quiet\<close> (\<open>cl_quiet\<close>): an application that asked for a
  UDP association sends nothing on its TCP connection before the tunnel stands.  That is a condition on the
  application and says nothing about sessions that relay TCP; \<open>client_udp_faithful\<close> shows what the code
  does without it.  The counts per address hold for the public listener with
  sound peers: a session's own view of its peer is the admitted address.  The tunnel as a whole assumes that the first read of the server holds the request, since
  the server takes a request that arrives in parts for a foreign protocol.

  \<^bold>\<open>Bounds and termination.\<close>  Integers of the code are words of their width where they can wrap (counters
  of 64 bits, ports and lengths of 16).  No definition uses fuel: \<open>drain\<close> and \<open>us_deliver\<close> recurse on the
  length of the buffer, which a decoder shortens; \<open>destroyed_steps_bounded\<close> bounds the steps of an ended
  session by \<open>shutdown_work\<close>.

  \<^bold>\<open>Not modelled.\<close>  Log lines and times within sessions (in a run of the process they are given lines);
  TLS itself (a handshake succeeds or fails); in the handlers of sessions, socket options and the binding of UDP sockets, taken to
  succeed there, while the main program takes an exception that leaves any handler as an event (\<open>Handler_threw\<close>) and
  follows it to the exit code;
  name resolution beyond the list it returns; data races between threads that share one \<open>io_context\<close>,
  for which the code has no strands: a handler is one step; the certificate stores of Windows and
  macOS; the command-line parser of Boost and its help text; the default Diffie-Hellman parameters
  (\<open>src/ssl/ssldefaults.cpp\<close>), which are constant text; the desktop client under \<open>client/\<close>, whose C++ is the
  window handling of the Flutter templates.
\<close>

section \<open>The tunnel\<close>

text \<open>C1: the whole tunnel.  A client session and a server session are connected: the server's reads are
  the beginning of what the client has put on its wire, and what the client has read from the tunnel
  is the beginning of what the server has put on its.  The server knows the client's password, and
  its first read holds the request.  Then the server's session connects to nothing but the target
  the application named; the target receives the payload of the request and the application's
  bytes, and all of them when they have all been read and no write is in progress; and the
  application receives the target's bytes.\<close>

theorem tunnel_end_to_end:
  fixes v :: client_view
  assumes client: "cl_reachable True cfg s v" "first_password cfg = Inr pw" "find_sub crlf pw = None"
      "\<not> negotiating s" "\<not> cs_is_udp s"
    and server: "server_history e t tr h" "map_of (password (se_config e)) pw \<noteq> None"
    and tunnel: "is_prefix (concat h) (tr_out_wire (cv_trace v))" "is_prefix (tr_down (cv_trace v)) (tr_in_wire tr)"
  shows "is_prefix (tr_in_wire (cv_trace v)) (tr_down tr) \<and>
    (tr_out_wire (cv_trace v) \<noteq> [] \<longrightarrow>
      (\<exists>req r. trojan_request (r :: TrojanRequest) req \<and> req_password r = pw \<and>
        address (req_address r) = cs_target_host s \<and> port (req_address r) = cs_target_port s \<and>
        is_prefix (tr_out_wire (cv_trace v)) (req @ tr_up (cv_trace v)) \<and>
        (cs_status s = C_FORWARD \<and> tun_writes (cs_pending s) = [] \<longrightarrow> tr_out_wire (cv_trace v) = req @ tr_up (cv_trace v)) \<and>
        (\<forall>first rest. h = first # rest \<longrightarrow> length req \<le> length first \<longrightarrow> length first < 2 ^ 31 \<longrightarrow>
          list_all (\<lambda>q. op_target (fst q) \<in>
            {None, Some \<lparr>ct_host = cs_target_host s, ct_port = cs_target_port s, ct_is_fallback = False\<rparr>}) (pending t) \<and>
          is_prefix (tr_out_wire tr) (req_payload r @ tr_up (cv_trace v)) \<and>
          (concat h = req @ tr_up (cv_trace v) \<and> status t = FORWARD_TCP \<and> up_write t = None \<longrightarrow>
             tr_out_wire tr = req_payload r @ tr_up (cv_trace v)))))"
proof -
  from cl_reachable_inv [OF client(1-3)] client(4,5) have "tcp_inv pw s v" by (simp add: cl_inv_def)
  then obtain req where i: "fwd_inv req (as_forward s) (cv_trace v)"
      "tr_out_wire (cv_trace v) \<noteq> [] \<Longrightarrow> request_for pw False (cs_target_host s) (cs_target_port s) req"
    by (auto simp: tcp_inv_def)
  note f = fwd_inv_faithful [OF i(1)]
  have "is_prefix (tr_in_wire tr) (tr_down tr)"
    using server_reachable_bytes [OF server_history_reachable [OF server(1)]] down_inv_prefix by (auto simp: bytes_inv_def)
  with f(2) tunnel(2) have down: "is_prefix (tr_in_wire (cv_trace v)) (tr_down tr)" by (blast intro: is_prefix_trans)
  have up: "is_prefix (concat h) (req @ tr_up (cv_trace v))" using tunnel(1) f(1) by (rule is_prefix_trans)
  show ?thesis
  proof (cases "tr_out_wire (cv_trace v) = []")
    case False
    then obtain r :: TrojanRequest where r: "trojan_request r req" "req_password r = pw"
        "address (req_address r) = cs_target_host s" "port (req_address r) = cs_target_port s"
      using i(2) by (auto simp: request_for_def)
    have "list_all (\<lambda>q. op_target (fst q) \<in>
            {None, Some \<lparr>ct_host = cs_target_host s, ct_port = cs_target_port s, ct_is_fallback = False\<rparr>}) (pending t) \<and>
          is_prefix (tr_out_wire tr) (req_payload r @ tr_up (cv_trace v)) \<and>
          (concat h = req @ tr_up (cv_trace v) \<and> status t = FORWARD_TCP \<and> up_write t = None \<longrightarrow>
             tr_out_wire tr = req_payload r @ tr_up (cv_trace v))"
      if h: "h = first # rest" "length req \<le> length first" "length first < 2 ^ 31" for first rest
    proof -
      from up h obtain pl where pl: "first = req @ pl" "is_prefix (pl @ concat rest) (tr_up (cv_trace v))"
        using is_prefix_covers [of first "concat rest" req] by (metis concat.simps(2))
      note served = served_request [OF r(1), unfolded r(2-4), OF server(1) [unfolded h(1) pl(1)] server(2) h(3) [unfolded pl(1)]]
      have "is_prefix (tr_out_wire tr) (req_payload r @ tr_up (cv_trace v))"
        using served(2) pl(2) is_prefix_trans by fastforce
      with served(1,3) h(1) pl(1) show ?thesis by simp
    qed
    moreover have "cs_status s = C_FORWARD \<and> tun_writes (cs_pending s) = [] \<longrightarrow> tr_out_wire (cv_trace v) = req @ tr_up (cv_trace v)"
      using f(3) by simp
    ultimately show ?thesis using down f(1) r by blast
  qed (use down in simp)
qed

theorem tunnel_end_to_end_witness:
  "\<exists>s (v :: client_view) t tr. cl_reachable True client_config s v \<and> server_history sample_env t tr [sample_request] \<and>
     tr_up (cv_trace v) = ''hi'' \<and> tr_out_wire tr = ''hi'' \<and> is_prefix ''o'' (tr_down tr) \<and>
     list_all (\<lambda>q. op_target (fst q) \<in>
       {None, Some \<lparr>ct_host = cs_target_host s, ct_port = cs_target_port s, ct_is_fallback = False\<rparr>}) (pending t)"
proof -
  obtain s and v :: client_view where r: "cl_acts True client_config sample_os client_actions (cl_start (Some sample_peer) new_client_session, blank_view) = Some (s, v)"
      "cs_status s = C_FORWARD" "\<not> cs_is_udp s" "tr_out_wire (cv_trace v) = wire_request (CHR 0x01) @ ''hi''" "tr_in_wire (cv_trace v) = ''o''"
      "tr_down (cv_trace v) = ''ok''" "tr_up (cv_trace v) = ''hi''" "tun_writes (cs_pending s) = []"
    using client_run by blast
  obtain t tr where t: "server_history sample_env t tr [sample_request]" "tr_out_wire tr = ''hi''" "tr_in_wire tr = ''ok''"
    using served_run by metis
  note reach = cl_acts_reachable [OF r(1)]
  have n: "\<not> negotiating s" using r(2) by (simp add: negotiating_def)
  have w: "wire_request (CHR 0x01) @ ''hi'' = sample_request" by (simp add: wire_request_bytes sample_request_bytes)
  have k: "map_of (password (se_config sample_env)) ''70'' \<noteq> None" by simp
  have x: "is_prefix (concat [sample_request]) (tr_out_wire (cv_trace v))" "is_prefix (tr_down (cv_trace v)) (tr_in_wire tr)"
    using r t w by (simp_all add: is_prefix_def)
  have ne: "tr_out_wire (cv_trace v) \<noteq> []" using r(4) by simp
  from tunnel_end_to_end [OF reach client_config_simps(4) sample_password_line n r(3) t(1) k x] ne r(2,5,8) obtain req
    where d: "is_prefix ''o'' (tr_down tr)" and p: "tr_out_wire (cv_trace v) = req @ tr_up (cv_trace v)"
      and q: "length req \<le> length sample_request \<Longrightarrow> length sample_request < 2 ^ 31 \<Longrightarrow> list_all (\<lambda>q. op_target (fst q) \<in>
       {None, Some \<lparr>ct_host = cs_target_host s, ct_port = cs_target_port s, ct_is_fallback = False\<rparr>}) (pending t)"
    by auto
  have "length req \<le> length sample_request" using p r(4,7) w by (metis append_same_eq length_append le_add1)
  with q have "list_all (\<lambda>q. op_target (fst q) \<in>
       {None, Some \<lparr>ct_host = cs_target_host s, ct_port = cs_target_port s, ct_is_fallback = False\<rparr>}) (pending t)" by simp
  with d r(7) reach t(1,2) show ?thesis by blast
qed

text \<open>C2: the two ends of the tunnel fit.  Whatever part of the stream a server reads first, as long as
  it holds the request: a server that authorises the client's password lets the session through
  to the target and for the command the application named, and relays the application's bytes.\<close>

theorem client_request_end_to_end:
  assumes "cl_reachable True cfg s v" and "first_password cfg = Inr pw" and "find_sub crlf pw = None"
    and "cs_status s = C_FORWARD \<or> cs_status s = C_UDP_FORWARD" and "authorised scfg auth pw"
  shows "\<exists>req r. trojan_request (r :: TrojanRequest) req \<and> is_prefix (tr_out_wire (cv_trace v)) (req @ tr_up (cv_trace v)) \<and>
    (\<forall>input k. gi_initial_data input = req @ take k (tr_up (cv_trace v)) \<longrightarrow> length (gi_initial_data input) < 2 ^ 31 \<longrightarrow>
      (\<exists>d. gate_evaluate scfg auth input = Inr d \<and> authenticated d \<and>
        sd_path d = (if cs_is_udp s then AUTHENTICATED_UDP else AUTHENTICATED_TCP) \<and>
        sd_target d = \<lparr>ct_host = cs_target_host s, ct_port = cs_target_port s, ct_is_fallback = False\<rparr> \<and>
        outbound_payload d = req_payload r @ take k (tr_up (cv_trace v))))"
proof -
  obtain req where "request_for pw (cs_is_udp s) (cs_target_host s) (cs_target_port s) req"
      and wire: "is_prefix (tr_out_wire (cv_trace v)) (req @ tr_up (cv_trace v))"
    using cl_request_of [OF cl_reachable_inv [OF assms(1-3)] assms(4)] by blast
  then obtain r :: TrojanRequest where r: "trojan_request r req" "req_password r = pw" "req_command r = UDP_ASSOCIATE \<longleftrightarrow> cs_is_udp s"
      "address (req_address r) = cs_target_host s" "port (req_address r) = cs_target_port s" by (auto simp: request_for_def)
  note reach = request_reaches_target [OF r(1), unfolded r(2-5), OF assms(5)]
  show ?thesis using reach wire r(1) by (intro exI [of _ req] exI [of _ r]) simp
qed

theorem client_request_end_to_end_witness:
  "\<exists>s v req. cl_reachable True client_config s v \<and> cs_status s = C_FORWARD \<and>
     is_prefix (wire_request (CHR 0x01) @ ''hi'') (req @ ''hi'') \<and>
     (\<forall>input. gi_initial_data input = req \<longrightarrow> length req < 2 ^ 31 \<longrightarrow>
        (\<exists>d. gate_evaluate sample_config None input = Inr d \<and> authenticated d \<and> sd_path d = AUTHENTICATED_TCP))"
proof -
  obtain s v where r: "cl_acts True client_config sample_os client_actions (cl_start (Some sample_peer) new_client_session, blank_view) = Some (s, v)"
      "cs_status s = C_FORWARD" "\<not> cs_is_udp s" "tr_out_wire (cv_trace v) = wire_request (CHR 0x01) @ ''hi''" "tr_up (cv_trace v) = ''hi''"
    using client_run by blast
  note reach = cl_acts_reachable [OF r(1)]
  have a: "authorised sample_config None ''70''" by (simp add: authorised_def)
  from client_request_end_to_end [OF reach client_config_simps(4) sample_password_line disjI1 [OF r(2)] a] r(3-5)
  obtain req where q: "is_prefix (wire_request (CHR 0x01) @ ''hi'') (req @ ''hi'')"
    "\<forall>input k. gi_initial_data input = req @ take k ''hi'' \<longrightarrow> length (gi_initial_data input) < 2 ^ 31 \<longrightarrow>
      (\<exists>d. gate_evaluate sample_config None input = Inr d \<and> authenticated d \<and> sd_path d = AUTHENTICATED_TCP)" by auto metis
  from q(2) have "\<forall>input. gi_initial_data input = req \<longrightarrow> length req < 2 ^ 31 \<longrightarrow>
      (\<exists>d. gate_evaluate sample_config None input = Inr d \<and> authenticated d \<and> sd_path d = AUTHENTICATED_TCP)"
    by (metis append_Nil2 take0)
  with q(1) reach r(2) show ?thesis by blast
qed

text \<open>C3: a prober sees the web server behind.  When the first bytes a session receives are not a request
  that anybody may use, the session connects to the fallback target of the negotiated protocol and
  to nothing else; that server receives every byte the prober sends, from the first one on, and the
  prober receives what that server answers.\<close>

theorem prober_sees_fallback:
  assumes "server_history e t tr (first # rest)"
    and "\<forall>r. trojan_request (r :: TrojanRequest) first \<longrightarrow> \<not> may_use e (req_password r)" and "length first < 2 ^ 31"
  shows "list_all (\<lambda>q. op_target (fst q) \<in>
      {None, Some (fallback_target (se_config e) (case se_alpn e of None \<Rightarrow> [] | Some a \<Rightarrow> a))}) (pending t) \<and>
    is_prefix (tr_out_wire tr) (concat (first # rest)) \<and> is_prefix (tr_in_wire tr) (tr_down tr) \<and>
    (status t = FORWARD_TCP \<and> up_write t = None \<longrightarrow> tr_out_wire tr = concat (first # rest))"
  using fallback_relays [OF assms] server_reachable_bytes [OF server_history_reachable [OF assms(1)]] down_inv_prefix
  by (auto simp: bytes_inv_def)

theorem prober_sees_fallback_witness:
  "\<exists>t tr. server_history sample_env t tr [''GET /''] \<and> status t = FORWARD_TCP \<and> tr_out_wire tr = ''GET /''"
proof -
  obtain t tr where t: "server_history sample_env t tr [''GET /'']" "status t = FORWARD_TCP" "up_write t = None"
    using probed_run by metis
  have n: "\<forall>r. trojan_request (r :: TrojanRequest) ''GET /'' \<longrightarrow> \<not> may_use sample_env (req_password r)"
    using probe_no_request by blast
  from prober_sees_fallback [OF t(1) n] t show ?thesis by auto
qed

section \<open>Wire formats\<close>

text \<open>C4: the address parser accepts exactly the grammar.  It reports success with a length exactly
  when the input begins with an address field of that length, and then the object holds the
  address the field denotes.  Neither its result nor that of the packet parser depends on the bytes
  behind the view, although the code indexes the view without bounds checks.\<close>

theorem socks5_parser_exact:
  "(socks5_parse beyond self data = (a, Some n) \<longleftrightarrow>
     (\<exists>f rest. data = f @ rest \<and> address_field a f \<and> n = length f)) \<and>
   socks5_parse b self data = socks5_parse b' self data \<and> udp_parse b pkt data = udp_parse b' pkt data"
  using socks5_parse_iff socks5_parse_beyond udp_parse_beyond by metis

text \<open>C5: the request parser accepts exactly the grammar of requests, with the request the input
  denotes, for every input whose length an \<open>int\<close> can hold.\<close>

theorem trojan_parser_exact:
  assumes "length data < 2 ^ 31"
  shows "(\<exists>v. trojan_parse self data = Inr (r, v) \<and> v \<noteq> -1) \<longleftrightarrow> trojan_request r data"
proof
  assume "\<exists>v. trojan_parse self data = Inr (r, v) \<and> v \<noteq> -1"
  then show "trojan_request r data" using trojan_parse_sound by blast
next
  assume "trojan_request r data"
  then show "\<exists>v. trojan_parse self data = Inr (r, v) \<and> v \<noteq> -1"
    using assms by (auto simp: trojan_parse_complete int_of_size_small)
qed

theorem trojan_parser_exact_witness:
  "length sample_request < 2 ^ 31 \<and>
   (\<exists>r. trojan_request r sample_request \<and> req_password r = ''70'' \<and> req_payload r = ''hi'')"
proof -
  have "trojan_parse blank_request sample_request =
      Inr (\<lparr>req_password = ''70'', req_command = CONNECT_cmd,
            req_address = \<lparr>address_type = DOMAINNAME, address = ''h'', port = 443\<rparr>, req_payload = ''hi''\<rparr>, 14)"
    by code_simp
  then have "trojan_request \<lparr>req_password = ''70'', req_command = CONNECT_cmd,
            req_address = \<lparr>address_type = DOMAINNAME, address = ''h'', port = 443\<rparr>, req_payload = ''hi''\<rparr> sample_request"
    using trojan_parser_exact [of sample_request blank_request] by force
  then show ?thesis by fastforce
qed

text \<open>C6: a request the client generates is parsed back by the server, with the payload that
  follows it.\<close>

theorem trojan_request_roundtrip:
  assumes "find_sub crlf pw = None" and "name \<noteq> []" and "length name \<le> 255"
    and "length (trojan_generate pw name p is_tcp @ pl) < 2 ^ 31"
  shows "trojan_parse self (trojan_generate pw name p is_tcp @ pl) =
    Inr (\<lparr>req_password = pw, req_command = (if is_tcp then CONNECT_cmd else UDP_ASSOCIATE),
          req_address = \<lparr>address_type = DOMAINNAME, address = name, port = p\<rparr>, req_payload = pl\<rparr>,
         int (length (trojan_generate pw name p is_tcp @ pl)))"
proof -
  have "trojan_generate pw name p is_tcp @ pl =
      pw @ crlf @ [command_byte (if is_tcp then CONNECT_cmd else UDP_ASSOCIATE)] @ domain_field name p @ crlf @ pl"
    by (simp add: trojan_generate_def command_byte_def)
  with trojan_requestI [OF assms(1) domain_field_is_field [OF assms(2,3)]]
  have "trojan_request \<lparr>req_password = pw, req_command = (if is_tcp then CONNECT_cmd else UDP_ASSOCIATE),
      req_address = \<lparr>address_type = DOMAINNAME, address = name, port = p\<rparr>, req_payload = pl\<rparr>
      (trojan_generate pw name p is_tcp @ pl)" by metis
  from trojan_parse_complete [OF this] show ?thesis using assms(4) by (simp only: int_of_size_small)
qed

theorem trojan_request_roundtrip_witness:
  "trojan_parse blank_request (trojan_generate ''70'' ''h'' 443 False @ ''hi'') =
    Inr (\<lparr>req_password = ''70'', req_command = UDP_ASSOCIATE,
          req_address = \<lparr>address_type = DOMAINNAME, address = ''h'', port = 443\<rparr>, req_payload = ''hi''\<rparr>, 14)"
proof -
  have "find_sub crlf ''70'' = None" "length (trojan_generate ''70'' ''h'' 443 False @ ''hi'') = 14" by code_simp+
  then show ?thesis using trojan_request_roundtrip [of "''70''" "''h''" 443 False "''hi''" blank_request] by simp
qed

text \<open>C7: how the tunnel's byte stream was cut into reads does not change the UDP frames that come out,
  nor the bytes left over; and frames generated back to back are decoded to the same packets, with
  nothing left over, however they were cut.\<close>

theorem udp_stream_roundtrip:
  assumes "list_all (\<lambda>(ep, pl). wf_address (ep_address ep) \<and> \<not> is_unspecified (ep_address ep) \<and> length pl < 65536) ps"
  shows "feed udp_decode [] chunks = drain udp_decode (concat chunks) \<and>
    (concat chunks = concat (map (\<lambda>(ep, pl). udp_generate ep pl) ps) \<longrightarrow>
     feed udp_decode [] chunks =
      (map (\<lambda>(ep, pl). \<lparr>pkt_address = endpoint_field_address ep, pkt_length = of_nat (length pl), pkt_payload = pl\<rparr>) ps, []))"
proof -
  have nil: "udp_decode [] = None" by code_simp
  then have cut: "feed udp_decode [] chunks = drain udp_decode (concat chunks)"
    using udp_stream.feed_eq_drain [of "[]" chunks] by simp
  have "drain udp_decode (concat (map (\<lambda>(ep, pl). udp_generate ep pl) ps)) =
      (map (\<lambda>(ep, pl). \<lparr>pkt_address = endpoint_field_address ep, pkt_length = of_nat (length pl), pkt_payload = pl\<rparr>) ps, [])"
    using assms
  proof (induction ps)
    case Nil
    with nil show ?case by (simp add: udp_stream.drain_None)
  next
    case (Cons x ps)
    obtain ep pl where x: "x = (ep, pl)" by fastforce
    with Cons.prems have "udp_frame \<lparr>pkt_address = endpoint_field_address ep, pkt_length = of_nat (length pl), pkt_payload = pl\<rparr>
        (udp_generate ep pl)"
      by (simp add: udp_generate_frame)
    then have "udp_decode (udp_generate ep pl @ rest) =
        Some (\<lparr>pkt_address = endpoint_field_address ep, pkt_length = of_nat (length pl), pkt_payload = pl\<rparr>,
              length (udp_generate ep pl))" for rest
      unfolding udp_decode_iff by blast
    with x Cons show ?case by (simp add: udp_stream.drain_Some)
  qed
  with cut show ?thesis by simp
qed

theorem udp_stream_roundtrip_witness:
  "feed udp_decode [] (map (\<lambda>b. [b]) (concat (map (\<lambda>(ep, pl). udp_generate ep pl) [(sample_peer, ''a''), (sample_peer, '''')]))) =
    (map (\<lambda>(ep, pl). \<lparr>pkt_address = endpoint_field_address ep, pkt_length = of_nat (length pl), pkt_payload = pl\<rparr>)
       [(sample_peer, ''a''), (sample_peer, '''')], [])"
proof -
  have "wf_address (ep_address sample_peer)" "\<not> is_unspecified (ep_address sample_peer)" by code_simp+
  then have ok: "list_all (\<lambda>(ep, pl). wf_address (ep_address ep) \<and> \<not> is_unspecified (ep_address ep) \<and> length pl < 65536)
      [(sample_peer, ''a''), (sample_peer, '''')]" by simp
  have "concat (map (\<lambda>b. [b]) xs) = xs" for xs :: string by (induction xs) simp_all
  then show ?thesis using udp_stream_roundtrip [OF ok] by blast
qed

section \<open>The gate\<close>

text \<open>C8: a request with an authorised password is let through: the session relays to the target the
  request names, with the payload behind the request as the first bytes, and the
  authenticator is asked only about passwords the configuration does not know.\<close>

theorem gate_accepts_authorised:
  assumes "trojan_request r (gi_initial_data input)" and "length (gi_initial_data input) < 2 ^ 31"
    and "authorised cfg auth (req_password r)"
  shows "\<exists>d. gate_evaluate cfg auth input = Inr d \<and> valid_trojan_request d \<and> authenticated d \<and>
    sd_request d = r \<and>
    sd_path d = (case req_command r of UDP_ASSOCIATE \<Rightarrow> AUTHENTICATED_UDP | CONNECT_cmd \<Rightarrow> AUTHENTICATED_TCP) \<and>
    sd_target d = request_target r \<and> outbound_payload d = req_payload r \<and>
    used_external_authenticator d = (map_of (password cfg) (req_password r) = None) \<and>
    auth_record_password d = (if map_of (password cfg) (req_password r) = None then req_password r else '''')"
  by (rule gate_accepts [OF assms])

theorem gate_accepts_authorised_witness:
  "\<exists>d. gate_evaluate sample_config None (tls_build_gate_input sample_peer None sample_request) = Inr d \<and> authenticated d \<and>
    sd_path d = AUTHENTICATED_TCP \<and> outbound_payload d = ''hi''"
proof -
  let ?r = "\<lparr>req_password = ''70'', req_command = CONNECT_cmd,
            req_address = \<lparr>address_type = DOMAINNAME, address = ''h'', port = 443\<rparr>, req_payload = ''hi''\<rparr>"
  have "trojan_parse blank_request sample_request = Inr (?r, 14)" by code_simp
  then have "trojan_request ?r sample_request" using trojan_parse_sound by force
  moreover have "authorised sample_config None ''70''" by (simp add: authorised_def)
  ultimately show ?thesis
    using gate_accepts_authorised [of ?r "tls_build_gate_input sample_peer None sample_request" sample_config None]
    by (auto simp: tls_build_gate_input_def)
qed

text \<open>C9: anything else is passed on unchanged: every byte received so far goes to the fallback
  target of the negotiated protocol, so a prober sees the web server behind.\<close>

theorem gate_falls_back_transparently:
  assumes "\<forall>r. trojan_request r (gi_initial_data input) \<longrightarrow> \<not> authorised cfg auth (req_password r)"
    and "length (gi_initial_data input) < 2 ^ 31"
  shows "\<exists>d. gate_evaluate cfg auth input = Inr d \<and> sd_path d = FALLBACK \<and> \<not> authenticated d \<and>
    valid_trojan_request d = (\<exists>r. trojan_request r (gi_initial_data input)) \<and>
    sd_target d = fallback_target cfg (selected_alpn (gi_context input)) \<and>
    outbound_payload d = gi_initial_data input \<and> auth_record_password d = ''''"
  by (rule gate_falls_back [OF assms])

theorem gate_falls_back_transparently_witness:
  "\<exists>d. gate_evaluate sample_config None (tls_build_gate_input sample_peer None ''GET /'') = Inr d \<and>
    sd_path d = FALLBACK \<and> outbound_payload d = ''GET /'' \<and> sd_target d = fallback_target sample_config ''''"
  using gate_falls_back_transparently [of "tls_build_gate_input sample_peer None ''GET /''" sample_config None] probe_no_request
  by (auto simp: tls_build_gate_input_def tls_build_context_def)

section \<open>Sessions of the server\<close>

text \<open>C10: a session connects to nothing but the fallback target of the configuration and the target of the
  \<open>CONNECT\<close> request its gate was given, and to the latter only if the password of that very request
  is authorised; it relays UDP only if that data is an authorised \<open>UDP_ASSOCIATE\<close> request.  The data
  is determined by the chunks received: the first one behind the TLS handshake with a client, or
  what follows the complete ingress frame on a connection of the trusted front; before it is
  there, nothing is connected to.  This holds in every state a session of either listener reaches, whatever
  order handlers run in and whatever the operating system reports, and every such state has its chunks.\<close>

theorem session_targets_authorised:
  assumes "p = gate_data e (bootstrap_mode s0) h"
  shows "(server_reachable e s tr \<longrightarrow> (\<exists>s0 h. fresh_session s0 \<and> session_history e s0 s tr h)) \<and>
    (fresh_session s0 \<and> session_history e s0 s tr h \<longrightarrow>
       list_all (\<lambda>(op, c). case op of Tcp_resolve t \<Rightarrow> target_ok e p t | Tcp_connect ep t \<Rightarrow> target_ok e p t | _ \<Rightarrow> True) (pending s) \<and>
       (status s = UDP_FORWARD \<longrightarrow> (\<exists>r. asked e p UDP_ASSOCIATE r)))"
proof (intro conjI impI)
  assume "fresh_session s0 \<and> session_history e s0 s tr h"
  then have t: "target_inv e p s" using session_history_deciding [of e s0 s tr h] assms by (simp add: deciding_inv_def)
  then show "list_all (\<lambda>(op, c). case op of Tcp_resolve t \<Rightarrow> target_ok e p t | Tcp_connect ep t \<Rightarrow> target_ok e p t | _ \<Rightarrow> True) (pending s)"
    by (auto simp: target_inv_def list_all_iff split: async_op.split option.splits)
  assume "status s = UDP_FORWARD"
  with t show "\<exists>r. asked e p UDP_ASSOCIATE r" by (simp add: target_inv_def)
qed (rule server_reachable_history)

theorem session_targets_authorised_witness:
  "\<exists>s tr. session_history sample_env new_session s tr [sample_request] \<and>
     pending s = [(Tcp_resolve \<lparr>ct_host = ''h'', ct_port = 443, ct_is_fallback = False\<rparr>, None)] \<and>
     target_ok sample_env (Some sample_request) \<lparr>ct_host = ''h'', ct_port = 443, ct_is_fallback = False\<rparr>"
proof -
  obtain s tr where r: "session_history sample_env new_session s tr [sample_request]"
      "pending s = [(Tcp_resolve \<lparr>ct_host = ''h'', ct_port = 443, ct_is_fallback = False\<rparr>, None)]"
    using resolve_run by blast
  have "Some sample_request = gate_data sample_env (bootstrap_mode new_session) [sample_request]"
    by (simp add: gate_data_def new_session_def)
  from session_targets_authorised [OF this, of s tr] new_session_fresh r show ?thesis
    by (intro exI [of _ s] exI [of _ tr]) simp
qed

text \<open>C11: no buffer is shared by two operations: at any time at most one operation of the direction
  to the target is in progress and at most one of the direction to the client, until the
  session ends and after.\<close>

theorem no_overlapping_operations:
  assumes "server_reachable e s tr"
  shows "length (ups s) \<le> 1 \<and> length (downs s) \<le> 1"
  by (rule one_operation_each [OF server_reachable_tok [OF assms]])

theorem no_overlapping_operations_witness:
  "\<exists>s tr. server_reachable sample_env s tr \<and> pending s = [(In_read, None), (In_write, None)] \<and>
     length (ups s) \<le> 1 \<and> length (downs s) \<le> 1"
  using relay_reachable no_overlapping_operations [of sample_env] by metis

text \<open>C12: the target receives the payload of the request followed by what the client sent, in
  order and without loss or duplication: the bytes on the wire are at any time a prefix of
  them, and while the session relays and no write is in progress they are all of them.  The
  count of sent bytes is, modulo 2 to the 64, those whose write has completed.\<close>

theorem upstream_bytes_faithful:
  assumes "server_reachable e s tr"
  shows "is_prefix (tr_out_wire tr) (out_write_buf s @ tr_up tr) \<and>
    (status s = FORWARD_TCP \<and> up_write s = None \<longrightarrow> tr_out_wire tr = out_write_buf s @ tr_up tr) \<and>
    (status s = FORWARD_TCP \<longrightarrow>
       sent_len s + (if up_write s = None then 0 else of_nat (length (out_write_data s))) =
         of_nat (length (out_write_buf s @ tr_up tr)))"
  using server_reachable_bytes [OF assms] forward_counts [OF server_reachable_bytes [OF assms]]
  by (auto simp: bytes_inv_def up_inv_prefix up_inv_def flow_def)

theorem upstream_bytes_faithful_witness:
  "\<exists>s tr. server_reachable sample_env s tr \<and> status s = FORWARD_TCP \<and> tr_out_wire tr = ''hi'' \<and>
     is_prefix ''hi'' (out_write_buf s @ tr_up tr)"
  using relay_reachable upstream_bytes_faithful [of sample_env] by metis

text \<open>C13: the client receives what the target sent, or the frames of the datagrams that came back,
  in order and without loss or duplication; while the session forwards TCP, the count of
  received bytes is, modulo 2 to the 64, the bytes accepted from the target.\<close>

theorem downstream_bytes_faithful:
  assumes "server_reachable e s tr"
  shows "is_prefix (tr_in_wire tr) (tr_down tr) \<and>
    ((status s = FORWARD_TCP \<or> status s = UDP_FORWARD) \<and> down_write s = None \<longrightarrow> tr_in_wire tr = tr_down tr) \<and>
    (status s = FORWARD_TCP \<longrightarrow> recv_len s = of_nat (length (tr_down tr)))"
  using server_reachable_bytes [OF assms]
  by (auto simp: bytes_inv_def down_inv_prefix down_inv_def flow_def)

theorem downstream_bytes_faithful_witness:
  "\<exists>s tr. server_reachable sample_env s tr \<and> tr_in_wire tr = ''o'' \<and> tr_down tr = ''ok'' \<and> recv_len s = of_nat (length ''ok'') \<and>
     is_prefix (tr_in_wire tr) (tr_down tr)"
  using relay_reachable downstream_bytes_faithful [of sample_env] by metis

text \<open>C14: the read buffers keep one of the three sizes 16, 32 and 64 KiB, and what a completed read
  delivered fits its buffer.\<close>

theorem read_buffers_bounded:
  assumes "server_reachable e s tr"
  shows "valid_size (in_read_size s) \<and> valid_size (out_read_size s) \<and> valid_size (udp_read_size s) \<and>
    list_all (\<lambda>(op, c). case (op, c) of
        (In_read, Some (Received d)) \<Rightarrow> length d \<le> in_read_size s
      | (Out_read, Some (Received d)) \<Rightarrow> length d \<le> out_read_size s
      | (Udp_read, Some (Datagram d ep)) \<Rightarrow> length d \<le> udp_read_size s
      | _ \<Rightarrow> True) (pending s)"
  using server_reachable_sizes [OF assms]
  by (auto simp: size_inv_def read_sizes_def list_all_iff split: async_op.split option.split completion.split)

theorem read_buffers_bounded_witness:
  "\<exists>s tr. server_reachable sample_env s tr \<and> status s = FORWARD_TCP \<and> valid_size (in_read_size s)"
  using relay_reachable read_buffers_bounded [of sample_env] by metis

section \<open>Admission\<close>

text \<open>C15: on the public listener the slots in use for an address are exactly the sessions of that
  address that hold one, and never more than the configured limit, over all interleavings
  of connections, session steps and clock ticks.\<close>

theorem per_ip_limit:
  assumes "system_reachable cfg auth plain rj True sy" and "run_type cfg = SERVER"
    and "limits_connections (abuse_control cfg)" and "auth_frame auth"
  shows "slots_in_use (sv_abuse (sy_service sy)) ip =
      length (filter (\<lambda>(alpn, s, tr). connection_slot_acquired s \<and> ep_ip (in_endpoint s) = ip) (sy_sessions sy)) \<and>
    slots_in_use (sv_abuse (sy_service sy)) ip \<le> nat (ac_per_ip_max_connections (abuse_control cfg))"
proof -
  have "length (filter (\<lambda>(alpn, s, tr). connection_slot_acquired s \<and> ep_ip (in_endpoint s) = ip) xs) =
      sum_list (map (\<lambda>x. conn_claim (sy_session x) ip) xs)" for xs
    by (induction xs) (auto simp: conn_claim_def)
  with system_conns [OF assms, of ip] show ?thesis by (simp add: conn_inv_def conn_ok_def conn_count_def)
qed

theorem per_ip_limit_witness:
  "\<exists>sy. system_reachable sample_config None '''' no_json True sy \<and>
     slots_in_use (sv_abuse (sy_service sy)) ''10.0.0.1'' = 2 \<and> length (sy_sessions sy) = 2 \<and>
     slots_in_use (sv_abuse (sy_service sy)) ''10.0.0.1'' \<le> nat (ac_per_ip_max_connections (abuse_control sample_config))"
proof -
  obtain sy where r: "server_acts sample_config None '''' no_json True (replicate 3 (accept_from sample_peer))
      (system_start sample_config 1) = Some sy"
    "length (sy_sessions sy) = 2" "slots_in_use (sv_abuse (sy_service sy)) ''10.0.0.1'' = 2"
    using three_accepts by blast
  from server_run_reachable [OF r(1)] per_ip_limit [OF server_run_reachable [OF r(1)], of "''10.0.0.1''"] r(2,3)
  show ?thesis by (intro exI [of _ sy]) (simp add: limits_connections_def auth_frame_def)
qed

text \<open>C16: the active-fallback metric is exactly the number of sessions that hold a fallback slot,
  and never exceeds the budget, on both listeners.\<close>

theorem fallback_budget_respected:
  assumes "system_reachable cfg auth plain rj public sy" and "limits_fallback (abuse_control cfg)" and "auth_frame auth"
  shows "unat (active_fallback_sessions (sv_metrics (sy_service sy))) =
      length (filter (\<lambda>(alpn, s, tr). fallback_slot_acquired s) (sy_sessions sy)) \<and>
    active_fallback_sessions (sv_metrics (sy_service sy)) \<le> fallback_budget (abuse_control cfg)"
proof -
  have "length (filter (\<lambda>(alpn, s, tr). fallback_slot_acquired s) xs) =
      sum_list (map (\<lambda>x. fb_claim (sy_session x)) xs)" for xs
    by (induction xs) (auto simp: fb_claim_def)
  with system_fallback [OF assms] show ?thesis
    by (simp add: fallback_inv_def fallback_ok_def fallback_count_def word_le_nat_alt)
qed

theorem fallback_budget_respected_witness:
  "\<exists>sy. system_reachable sample_config None '''' no_json True sy \<and>
     length (filter (\<lambda>(alpn, s, tr). fallback_slot_acquired s) (sy_sessions sy)) = 1 \<and>
     unat (active_fallback_sessions (sv_metrics (sy_service sy))) = 1"
proof -
  obtain sy where r: "server_acts sample_config None '''' no_json True probe_actions (system_start sample_config 1) = Some sy"
    "length (filter (\<lambda>(alpn, s, tr). fallback_slot_acquired s) (sy_sessions sy)) = 1"
    using probe_run by blast
  from server_run_reachable [OF r(1)] fallback_budget_respected [OF server_run_reachable [OF r(1)]] r(2)
  show ?thesis by (intro exI [of _ sy]) (simp add: limits_fallback_def auth_frame_def)
qed

text \<open>C17: the compare-exchange loops keep the budget under every interleaving of any number of
  threads, with stale loads and spurious failures: the counter is the number of slots that
  are held or are being granted or given back, and is at most the budget.\<close>

theorem fallback_budget_interleaved:
  assumes "fb_reachable cfg n s" and "limits_fallback cfg"
  shows "unat (active_fallback_sessions (fb_metrics s)) = fb_owners s \<and>
    active_fallback_sessions (fb_metrics s) \<le> fallback_budget cfg"
  using fb_reachable_inv [OF assms] by (simp add: fb_inv_def)

theorem fallback_budget_interleaved_witness:
  "\<exists>s. fb_reachable (abuse_control sample_config) 2 s \<and> fb_at s 0 Acq_granted \<and>
     unat (active_fallback_sessions (fb_metrics s)) = fb_owners s \<and>
     active_fallback_sessions (fb_metrics s) \<le> fallback_budget (abuse_control sample_config)"
proof -
  let ?cfg = "abuse_control sample_config"
  have lim: "limits_fallback ?cfg" by (simp add: limits_fallback_def)
  obtain s where s: "fb_reachable ?cfg 2 s" "fb_at s 0 Acq_granted" using granted_run by blast
  with fallback_budget_interleaved [OF s(1) lim] show ?thesis by blast
qed

text \<open>C18: the compare-exchange loops implement the one-piece operations the service is modelled with.
  Under every interleaving, each single step of a thread either is invisible or is one such
  operation on the current metrics: an exchange that leaves the loop of an acquire is the
  acquire that is granted and makes one more owner, an exchange that leaves the loop of a
  release is the release and makes one fewer, and an acquire that gives up changes what the
  refusal of the operation changes, the refusal being the operation's answer for the value the
  thread has read last.  Conversely a thread that is not interrupted performs the whole operation
  with its answer.\<close>

theorem fallback_operations_refine:
  "(fb_reachable cfg n s \<and> limits_fallback cfg \<and> fb_step cfg s s' \<longrightarrow>
     (\<exists>i pc pc'. fb_at s i pc \<and> fb_threads s' = (fb_threads s)[i := pc'] \<and>
        fb_effect cfg pc pc' (fb_abs s, fb_owners s) (fb_abs s', fb_owners s'))) \<and>
   (fb_at s i Acq_begin \<and> try_acquire_slot cfg (fb_metrics s) = (ok, m) \<longrightarrow>
     (fb_step cfg)\<^sup>*\<^sup>* s (fb_goto i Idle (s\<lparr>fb_metrics := m, fb_held := fb_held s + (if ok then 1 else 0)\<rparr>))) \<and>
   (fb_at s i Rel_begin \<longrightarrow>
     (fb_step cfg)\<^sup>*\<^sup>* s (fb_goto i Idle (s\<lparr>fb_metrics := release_slot (fb_metrics s)\<rparr>)))"
  using fb_step_effect [OF _ _ fb_reachable_inv] solo_acquire solo_release by blast

theorem fallback_operations_refine_witness:
  "(\<exists>s s'. fb_step (abuse_control sample_config) s s' \<and>
      try_acquire_slot (abuse_control sample_config) (fb_abs s) = (True, fb_abs s') \<and> fb_owners s' = fb_owners s + 1) \<and>
   (\<exists>s s'. fb_at s 0 Acq_begin \<and> (fb_step (abuse_control sample_config))\<^sup>*\<^sup>* s s' \<and> fb_held s' = 1)"
proof
  let ?cfg = "abuse_control sample_config"
  obtain s s' where r: "fb_reachable ?cfg 2 s" "fb_at s 0 (Acq_loop 0)" "fb_step ?cfg s s'" "fb_at s' 0 Acq_granted"
    using granted_step by blast
  moreover have "limits_fallback ?cfg" by (simp add: limits_fallback_def)
  ultimately obtain i pc pc' where e: "fb_at s i pc" "fb_threads s' = (fb_threads s)[i := pc']"
    "fb_effect ?cfg pc pc' (fb_abs s, fb_owners s) (fb_abs s', fb_owners s')"
    using fallback_operations_refine [of ?cfg 2 s s'] by blast
  with r have "pc = Acq_loop 0" "pc' = Acq_granted"
    by (cases "i = 0"; simp add: fb_at_def)+
  with e r show "\<exists>s s'. fb_step ?cfg s s' \<and> try_acquire_slot ?cfg (fb_abs s) = (True, fb_abs s') \<and>
      fb_owners s' = fb_owners s + 1" by (intro exI [of _ s] exI [of _ s']) simp
next
  let ?s = "fb_goto 0 Acq_begin (fb_start 1)"
  have at: "fb_at ?s 0 Acq_begin" by (simp add: fb_start_def)
  have "fst (try_acquire_slot (abuse_control sample_config) (fb_metrics ?s))" by code_simp
  then obtain m where m: "try_acquire_slot (abuse_control sample_config) (fb_metrics ?s) = (True, m)"
    by (metis prod.collapse)
  have "fb_held ?s = 0" by (simp add: fb_start_def)
  with at m fallback_operations_refine [of "abuse_control sample_config" 1 ?s ?s 0 True m]
  show "\<exists>s s'. fb_at s 0 Acq_begin \<and> (fb_step (abuse_control sample_config))\<^sup>*\<^sup>* s s' \<and> fb_held s' = 1"
    by (intro exI [of _ ?s] exI [of _ "fb_goto 0 Idle (?s\<lparr>fb_metrics := m, fb_held := fb_held ?s + 1\<rparr>)"]) simp
qed

text \<open>C19: the cooldown starts with the failure that reaches the maximum of one window and with no
  earlier one: an address without an entry that fails at the given times, all inside the
  window of the first, is refused at a later time exactly if the maximum was reached and the
  cooldown counted from the last failure has not passed.\<close>

theorem cooldown_exact:
  assumes "limits_failures (abuse_config c)" and "per_ip c ip = None" and "0 < t" and "0 \<le> now"
    and "list_all (\<lambda>u. u - t \<le> seconds (ac_auth_fail_window_seconds (abuse_config c))) ts"
    and "Suc (length ts) \<le> nat (ac_auth_fail_max (abuse_config c))"
  shows "is_ip_in_cooldown now ip (record_failures ip (t # ts) c) \<longleftrightarrow>
    Suc (length ts) = nat (ac_auth_fail_max (abuse_config c)) \<and>
    now < last (t # ts) + seconds (ac_cooldown_seconds (abuse_config c))"
proof -
  let ?c = "record_auth_failure t ip c"
  have first: "stats_at ?c ip = (if ac_auth_fail_max (abuse_config c) = 1
      then fresh_stats\<lparr>auth_fail_window_start := t, cooldown_until := t + seconds (ac_cooldown_seconds (abuse_config c))\<rparr>
      else fresh_stats\<lparr>auth_fail_window_start := t, auth_fail_count := 1\<rparr>)"
    using record_auth_failure_first [OF assms(1,2)] .
  have iff: "is_ip_in_cooldown now ip (record_failures ip (t # ts) c) \<longleftrightarrow>
      now < cooldown_until (stats_at (record_failures ip ts ?c) ip)"
    using is_ip_in_cooldown_iff [of "record_failures ip (t # ts) c" now ip] assms(1,4) by simp
  show ?thesis
  proof (cases "ac_auth_fail_max (abuse_config c) = 1")
    case True
    with assms(6) first iff show ?thesis by simp
  next
    case False
    with assms(1,6) have m: "1 < nat (ac_auth_fail_max (abuse_config c))" by (simp add: limits_failures_def)
    have "cooldown_until (stats_at (record_failures ip ts ?c) ip) =
        (if Suc (length ts) = nat (ac_auth_fail_max (abuse_config c))
         then last ts + seconds (ac_cooldown_seconds (abuse_config c)) else 0)"
      using record_failures_in_window [of ?c ip t ts] assms first False m
      by (auto simp: fresh_stats_def list_all_iff)
    with iff m assms(4) show ?thesis by (cases ts) auto
  qed
qed

theorem cooldown_exact_witness:
  "is_ip_in_cooldown 3 ''a'' (record_failures ''a'' [1, 2] (new_abuse_controller (abuse_control sample_config))) \<and>
   \<not> is_ip_in_cooldown 3 ''a'' (record_failures ''a'' [1] (new_abuse_controller (abuse_control sample_config)))"
  using cooldown_exact [of "new_abuse_controller (abuse_control sample_config)" "''a''" 1 3 "[2]"]
    cooldown_exact [of "new_abuse_controller (abuse_control sample_config)" "''a''" 1 3 "[]"]
  by (simp add: new_abuse_controller_def limits_failures_def seconds_def)

section \<open>External fronts\<close>

text \<open>C20: the listener for trusted fronts accepts exactly well-formed frames: a decimal length, a line
  end, an envelope of that length that passes the input contract, and at least one byte of
  the client behind it, which is handed on unchanged.\<close>

theorem ingress_parser_exact:
  "ingress_parsed (parse_ingress rj p) \<and> ig_handoff (parse_ingress rj p) = Some h \<and>
     downstream_payload (parse_ingress rj p) = downstream \<longleftrightarrow>
   downstream \<noteq> [] \<and> (\<exists>ds env. p = ingress_frame ds env downstream \<and> length_line ds (length env) \<and> ingress_handoff rj env = Some h)"
proof
  assume l: "ingress_parsed (parse_ingress rj p) \<and> ig_handoff (parse_ingress rj p) = Some h \<and>
     downstream_payload (parse_ingress rj p) = downstream"
  with parse_ingress_sound [of rj p] show "downstream \<noteq> [] \<and> (\<exists>ds env. p = ingress_frame ds env downstream \<and>
      length_line ds (length env) \<and> ingress_handoff rj env = Some h)" by auto
next
  assume "downstream \<noteq> [] \<and> (\<exists>ds env. p = ingress_frame ds env downstream \<and>
      length_line ds (length env) \<and> ingress_handoff rj env = Some h)"
  then show "ingress_parsed (parse_ingress rj p) \<and> ig_handoff (parse_ingress rj p) = Some h \<and>
     downstream_payload (parse_ingress rj p) = downstream"
    using parse_ingress_complete [of _ _ downstream rj h] by (auto simp: ingress_parsed_def)
qed

text \<open>C21: while a frame arrives, the parser asks for more bytes at every point before the end of the
  envelope; at the very end of it, it rejects the frame for good.  A front whose envelope and
  first payload arrive in separate reads is therefore turned away.\<close>

theorem ingress_frame_arriving:
  assumes "length_line ds (length env)"
  shows "(k < length ds + 1 + length env \<longrightarrow>
      parse_ingress rj (take k (ingress_frame ds env downstream)) = ingress_rejected RejectedIncompleteFrame) \<and>
    parse_ingress rj (take (length ds + 1 + length env) (ingress_frame ds env downstream)) = ingress_rejected RejectedMissingPayload"
  using parse_ingress_prefix [OF assms] parse_ingress_boundary [OF assms] by blast

theorem ingress_frame_arriving_witness:
  "parse_ingress no_json (take 3 (ingress_frame ''2'' ''{}'' ''x'')) = ingress_rejected RejectedIncompleteFrame \<and>
   parse_ingress no_json (take 4 (ingress_frame ''2'' ''{}'' ''x'')) = ingress_rejected RejectedMissingPayload"
  using ingress_frame_arriving [OF front_line, of 3 no_json "''x''"] by (simp add: eval_nat_numeral)

text \<open>C22: whatever the parser accepts has metadata the trust policy trusts and a source the contract
  accepts, so in a configuration with external fronts enabled the session is evaluated as
  one of that front, with the client's own address.\<close>

theorem ingress_accepts_trusted:
  assumes "ingress_parsed (parse_ingress rj p)"
  shows "\<exists>h fc. ig_handoff (parse_ingress rj p) = Some h \<and> ho_context h = Some fc \<and> is_trusted fc \<and>
    contract_accepted (evaluate_handoff_contract h) \<and>
    (ef_enabled (external_front cfg) \<longrightarrow>
       select_external_front cfg fc = \<lparr>sel_mode = ExternalFront, sel_front_context = Some fc\<rparr> \<and>
       source_ip (front_build_context fc) = original_client_ip fc)"
proof -
  obtain h where h: "ig_handoff (parse_ingress rj p) = Some h" using assms by (auto simp: ingress_parsed_def)
  obtain fc where fc: "ho_context h = Some fc" "is_trusted fc" using ingress_source.produced_context [OF h] by blast
  then have "select_external_front cfg fc = \<lparr>sel_mode = ExternalFront, sel_front_context = Some fc\<rparr>"
    if "ef_enabled (external_front cfg)"
    using that by (simp add: select_external_front_def observe_external_front_def is_trusted_def)
  moreover have "source_ip (front_build_context fc) = original_client_ip fc"
    using fc(2) by (simp add: front_build_context_def is_trusted_def should_apply_client_identity_def
        should_apply_transport_context_def Let_def)
  ultimately show ?thesis using h fc ingress_source.produced_accepted [OF h] by blast
qed

theorem ingress_accepts_trusted_witness:
  "ingress_parsed (parse_ingress front_json (ingress_frame ''2'' ''{}'' ''x'')) \<and>
   (\<exists>h fc. ig_handoff (parse_ingress front_json (ingress_frame ''2'' ''{}'' ''x'')) = Some h \<and>
      ho_context h = Some fc \<and> is_trusted fc \<and> contract_accepted (evaluate_handoff_contract h))"
  using front_parsed(1) ingress_accepts_trusted [OF front_parsed(1)] by blast

section \<open>Sessions of the client side\<close>

text \<open>C23: a SOCKS5 \<open>CONNECT\<close> session is faithful.  Once the negotiation is over, the application has been
  told exactly the two replies of SOCKS5; the tunnel carries a trojan request for the target the
  application named, followed by the application's bytes, and the application receives the bytes
  of the tunnel, in order and without loss or duplication; the counters count them modulo 2 to
  the 64.  A session that ends during the negotiation has put nothing on either wire.\<close>

theorem client_stream_faithful:
  assumes "cl_reachable True cfg s v" and "first_password cfg = Inr pw" and "find_sub crlf pw = None"
    and "\<not> negotiating s" and "\<not> cs_is_udp s"
  shows "\<exists>req. is_prefix (tr_out_wire (cv_trace v)) (req @ tr_up (cv_trace v)) \<and> is_prefix (tr_in_wire (cv_trace v)) (tr_down (cv_trace v)) \<and>
    (request_for pw False (cs_target_host s) (cs_target_port s) req \<and> cv_said v = accepted_reply @ connect_reply \<or>
     cs_status s = C_DESTROY \<and> tr_out_wire (cv_trace v) = [] \<and> tr_in_wire (cv_trace v) = []) \<and>
    (cs_status s = C_FORWARD \<longrightarrow>
       (tun_writes (cs_pending s) = [] \<longrightarrow> tr_out_wire (cv_trace v) = req @ tr_up (cv_trace v)) \<and>
       (map fst (tun_downs (cs_pending s)) = [Tunnel_read] \<longrightarrow> tr_in_wire (cv_trace v) = tr_down (cv_trace v))) \<and>
    cs_sent_len s = of_nat (length (tr_up (cv_trace v))) \<and> cs_recv_len s = of_nat (length (tr_down (cv_trace v)))"
proof -
  from cl_reachable_inv [OF assms(1-3)] assms(4,5) have "tcp_inv pw s v" by (simp add: cl_inv_def)
  then obtain req where i: "fwd_inv req (as_forward s) (cv_trace v)"
      "request_for pw False (cs_target_host s) (cs_target_port s) req \<and> cv_said v = accepted_reply @ connect_reply \<or>
       cs_status s = C_DESTROY \<and> tr_out_wire (cv_trace v) = [] \<and> tr_in_wire (cv_trace v) = []"
    by (auto simp: tcp_inv_def)
  with fwd_inv_faithful [OF i(1)] show ?thesis by (intro exI [of _ req]) simp
qed

theorem client_stream_faithful_witness:
  "\<exists>s v req. cl_reachable True client_config s v \<and> cs_status s = C_FORWARD \<and> tr_up (cv_trace v) = ''hi'' \<and>
     tr_out_wire (cv_trace v) = wire_request (CHR 0x01) @ ''hi'' \<and> is_prefix (wire_request (CHR 0x01) @ ''hi'') (req @ ''hi'') \<and>
     cv_said v = accepted_reply @ connect_reply"
proof -
  obtain s v where r: "cl_acts True client_config sample_os client_actions (cl_start (Some sample_peer) new_client_session, blank_view) = Some (s, v)"
      "cs_status s = C_FORWARD" "\<not> cs_is_udp s" "tr_out_wire (cv_trace v) = wire_request (CHR 0x01) @ ''hi''" "tr_up (cv_trace v) = ''hi''"
    using client_run by blast
  note reach = cl_acts_reachable [OF r(1)]
  have "\<not> negotiating s" using r(2) by (simp add: negotiating_def)
  from client_stream_faithful [OF reach client_config_simps(4) sample_password_line this r(3)] r reach show ?thesis by auto
qed

text \<open>C24: a SOCKS5 UDP association is faithful, in an orderly run in which the application sends nothing on
  its TCP connection before the tunnel stands (\<open>cl_quiet\<close>).  The tunnel carries a trojan request for a UDP
  association followed by frames of the application's datagrams and nothing else, and the datagrams
  sent back to the application are, in order, those of the frames that came through the tunnel.  The
  condition on the application is needed: otherwise the session has put bytes of the TCP connection where
  the server expects a frame, and two writes on the tunnel are in progress at once.\<close>

theorem client_udp_faithful:
  "(cl_reachable True cfg s v \<and> first_password cfg = Inr pw \<and> find_sub crlf pw = None \<and> \<not> negotiating s \<and> cs_is_udp s \<longrightarrow>
     (\<exists>req. request_for pw True (cs_target_host s) (cs_target_port s) req \<and> framed (tr_up (cv_trace v)) \<and>
        is_prefix (tr_out_wire (cv_trace v)) (req @ tr_up (cv_trace v)) \<and>
        is_prefix (cv_datagrams v) (fst (drain reply_decode (tr_down (cv_trace v)))) \<and>
        (cs_status s = C_UDP_FORWARD \<longrightarrow>
           (tun_writes (cs_pending s) = [] \<longrightarrow> tr_out_wire (cv_trace v) = req @ tr_up (cv_trace v)) \<and>
           (map fst (udp_downs (cs_pending s)) = [Tunnel_read] \<longrightarrow> cv_datagrams v = fst (drain reply_decode (tr_down (cv_trace v))))))) \<and>
   (\<exists>s v. cl_reachable False client_config s v \<and> cs_is_udp s \<and> cs_status s = C_UDP_FORWARD \<and>
      tr_out_wire (cv_trace v) = trojan_generate ''70'' ''h'' 443 False @ ''hi'' \<and> drain udp_decode ''hi'' = ([], ''hi'') \<and>
      tun_writes (cs_pending s) = [(Tunnel_write, None), (Tunnel_write, None)])"
proof (intro conjI impI)
  assume r: "cl_reachable True cfg s v \<and> first_password cfg = Inr pw \<and> find_sub crlf pw = None \<and> \<not> negotiating s \<and> cs_is_udp s"
  with cl_reachable_inv [of cfg s v pw] obtain req where i: "udp_at pw req s v" by (auto simp: cl_inv_def udp_inv_def)
  have f: "framed (tr_up (cv_trace v))" using cl_reachable_framed [of cfg s v pw] r by (simp add: framed_inv_def)
  have "cv_datagrams v = replies (tr_down (cv_trace v))" if st: "cs_status s = C_UDP_FORWARD" "map fst (udp_downs (cs_pending s)) = [Tunnel_read]"
  proof -
    obtain c where "udp_downs (cs_pending s) = [(Tunnel_read, c)]" using st(2) by (auto simp: map_fst_single)
    with i st show ?thesis by (auto simp: udp_at_def Let_def unsent_def replies_def reply_stream.drain_None)
  qed
  with i f udp_at_prefix [OF i] show "\<exists>req. request_for pw True (cs_target_host s) (cs_target_port s) req \<and> framed (tr_up (cv_trace v)) \<and>
      is_prefix (tr_out_wire (cv_trace v)) (req @ tr_up (cv_trace v)) \<and>
      is_prefix (cv_datagrams v) (fst (drain reply_decode (tr_down (cv_trace v)))) \<and>
      (cs_status s = C_UDP_FORWARD \<longrightarrow>
         (tun_writes (cs_pending s) = [] \<longrightarrow> tr_out_wire (cv_trace v) = req @ tr_up (cv_trace v)) \<and>
         (map fst (udp_downs (cs_pending s)) = [Tunnel_read] \<longrightarrow> cv_datagrams v = fst (drain reply_decode (tr_down (cv_trace v)))))"
    by (intro exI [of _ req]) (auto simp: udp_at_def Let_def udp_requested_def replies_def write_of_def flow_def)
next
  have "drain udp_decode ''hi'' = ([], ''hi'')" by code_simp
  then show "\<exists>s v. cl_reachable False client_config s v \<and> cs_is_udp s \<and> cs_status s = C_UDP_FORWARD \<and>
      tr_out_wire (cv_trace v) = trojan_generate ''70'' ''h'' 443 False @ ''hi'' \<and> drain udp_decode ''hi'' = ([], ''hi'') \<and>
      tun_writes (cs_pending s) = [(Tunnel_write, None), (Tunnel_write, None)]"
    using chatty_run cl_acts_reachable unfolding sample_generate by metis
qed

theorem client_udp_faithful_witness:
  "\<exists>s v. cl_reachable True client_config s v \<and> cs_status s = C_UDP_FORWARD \<and> cv_datagrams v = [sample_datagram] \<and>
     tr_out_wire (cv_trace v) = wire_request (CHR 0x03) @ sample_frame \<and> framed (tr_up (cv_trace v)) \<and>
     is_prefix [sample_datagram] (fst (drain reply_decode (tr_down (cv_trace v))))"
proof -
  obtain s v where r: "cl_acts True client_config sample_os associate_actions (cl_start (Some sample_peer) new_client_session, blank_view) = Some (s, v)"
      "cs_status s = C_UDP_FORWARD" "cs_is_udp s" "tr_out_wire (cv_trace v) = wire_request (CHR 0x03) @ sample_frame"
      "cv_datagrams v = [sample_datagram]"
    using associate_run by blast
  note reach = cl_acts_reachable [OF r(1)]
  have "\<not> negotiating s" using r(2) by (simp add: negotiating_def)
  with client_udp_faithful [of client_config s v "''70''"] client_config_simps(4) sample_password_line r reach show ?thesis by auto
qed

text \<open>C25: a SOCKS5 session that relays TCP refines a forward session: every run of it after the
  negotiation is a run of \<open>ForwardSession\<close> on the corresponding state, with the same bytes on both
  wires.\<close>

theorem client_refines_forward:
  assumes "cl_reachable True cfg s v" and "first_password cfg = Inr pw" and "find_sub crlf pw = None"
    and "\<not> negotiating s" and "\<not> cs_is_udp s" and "(cl_step True cfg)\<^sup>*\<^sup>* (s, v) (s', v')"
  shows "(fwd_step True)\<^sup>*\<^sup>* (as_forward s, cv_trace v) (as_forward s', cv_trace v')"
proof -
  from cl_reachable_inv [OF assms(1-3)] assms(4,5) have "tcp_phase s" "no_relay_ops (cs_pending s)"
    by (simp_all add: cl_inv_def tcp_inv_def)
  with tcp_client.steps_simulate [OF assms(6)] show ?thesis by simp
qed

theorem client_refines_forward_witness:
  "\<exists>s v (s' :: ClientSession) (v' :: client_view). cl_reachable True client_config s v \<and> cs_status s = C_CONNECT \<and> cs_status s' = C_FORWARD \<and>
     (fwd_step True)\<^sup>*\<^sup>* (as_forward s, cv_trace v) (as_forward s', cv_trace v')"
proof -
  obtain s v s' v' where r: "cl_acts True client_config sample_os (negotiation (CHR 0x01)) (cl_start (Some sample_peer) new_client_session, blank_view) = Some (s, v)"
      "cs_status s = C_CONNECT" "\<not> cs_is_udp s" "cl_acts True client_config sample_os tunnel_actions (s, v) = Some (s', v')" "cs_status s' = C_FORWARD"
    using client_run_parts by blast
  note reach = cl_acts_reachable [OF r(1)]
  have "\<not> negotiating s" using r(2) by (simp add: negotiating_def)
  from client_refines_forward [OF reach client_config_simps(4) sample_password_line this r(3) cl_acts_steps [OF r(4)]] r(2,5) reach
  show ?thesis by blast
qed

text \<open>C26: datagrams the client puts into the tunnel come out of it as the same datagrams when a client
  decodes them, however the tunnel's bytes are cut into reads.\<close>

theorem client_datagram_roundtrip:
  assumes "list_all2 (\<lambda>d p. \<exists>n < 65536. datagram_frame beyond d = Some (p, n)) ds ps" and "concat chunks = concat ps"
  shows "feed reply_decode [] chunks = (ds, [])"
proof -
  have "reply_decode [] = None" by code_simp
  then show ?thesis using reply_stream.feed_eq_drain [of "[]" chunks] datagrams_roundtrip [OF assms(1)] assms(2) by simp
qed

theorem client_datagram_roundtrip_witness:
  "feed reply_decode [] [take 3 sample_frame, drop 3 sample_frame @ sample_frame] = ([sample_datagram, sample_datagram], [])"
proof (rule client_datagram_roundtrip)
  have "\<exists>n < 65536. datagram_frame nul_terminated sample_datagram = Some (sample_frame, n)" by (simp add: sample_datagram_frame)
  then show "list_all2 (\<lambda>d p. \<exists>n < 65536. datagram_frame nul_terminated d = Some (p, n)) [sample_datagram, sample_datagram] [sample_frame, sample_frame]"
    by simp
  show "concat [take 3 sample_frame, drop 3 sample_frame @ sample_frame] = concat [sample_frame, sample_frame]"
    by (simp add: sample_frame_bytes)
qed

text \<open>C27: the negotiation answers a greeting as follows.  A well-formed greeting that offers \<open>no
  authentication\<close> among fewer than 128 methods is accepted, any other well-formed greeting is
  refused with \<open>05 FF\<close>, and anything else ends the session.  A request for a target is then granted
  with the reply of SOCKS5, and the trojan request with the same command and address field is
  kept for the tunnel.\<close>

theorem client_negotiation:
  assumes "first_password cfg = Inr pw" and "find_sub crlf pw = None" and "length pw < 2 ^ 30" and "address_field a f"
  shows "(cs_status s = C_HANDSHAKE \<longrightarrow>
      cl_in_recv cfg os data s =
        (let s = s\<lparr>cs_in_read_size := grow_after_read (cs_in_read_size s) (length data)\<rparr>
         in if \<exists>n methods. data = CHR 0x05 # n # methods \<and> length methods = of_char n
            then if of_char (data ! 1) < (128 :: nat) \<and> CHR 0x00 \<in> set (drop 2 data)
                 then Inr (cl_in_async_write_buffer [CHR 0x05, CHR 0x00] s)
                 else Inr ((cl_in_async_write_buffer [CHR 0x05, CHR 0xFF] s)\<lparr>cs_status := C_INVALID\<rparr>)
            else Inr (cl_destroy s))) \<and>
    (cs_status s = C_REQUEST \<longrightarrow>
      cl_in_recv cfg os ([CHR 0x05, command_byte CONNECT_cmd, CHR 0x00] @ f) s =
        Inr ((cl_in_async_write_buffer connect_reply
               (s\<lparr>cs_in_read_size := grow_after_read (cs_in_read_size s) (length f + 3),
                  cs_target_host := address a, cs_target_port := port a, cs_is_udp := False\<rparr>))
             \<lparr>cs_out_write_buf := pw @ crlf @ [command_byte CONNECT_cmd] @ f @ crlf\<rparr>))"
proof -
  have "cs_status s = C_REQUEST \<Longrightarrow> cl_in_recv cfg os ([CHR 0x05, command_byte CONNECT_cmd, CHR 0x00] @ f) s =
      cl_request cfg os ([CHR 0x05, command_byte CONNECT_cmd, CHR 0x00] @ f)
        (s\<lparr>cs_in_read_size := grow_after_read (cs_in_read_size s) (length f + 3)\<rparr>)"
    by (simp add: cl_in_recv_def Let_def eval_nat_numeral)
  moreover note cl_request_granted [OF assms(1,2,4,3), of os CONNECT_cmd]
  ultimately show ?thesis by (auto simp: cl_in_recv_def cl_handshake_cases Let_def)
qed

theorem client_negotiation_witness:
  "\<exists>s'. cl_in_recv client_config sample_os greeting new_client_session = Inr s' \<and> cs_in_write_data s' = [CHR 0x05, CHR 0x00]"
proof -
  have f: "address_field \<lparr>address_type = IPv4, address = ipv4_text (CHR 0x01) (CHR 0x01) (CHR 0x01) (CHR 0x01), port = be16 (CHR 0x00) (CHR 0x50)\<rparr>
      [CHR 0x01, CHR 0x01, CHR 0x01, CHR 0x01, CHR 0x01, CHR 0x00, CHR 0x50]" by (rule field_ipv4)
  have l: "length ''70'' < 2 ^ 30" by simp
  have g: "\<exists>n methods. greeting = CHR 0x05 # n # methods \<and> length methods = of_char n" "of_char (greeting ! 1) < (128 :: nat)"
      "CHR 0x00 \<in> set (drop 2 greeting)"
    by (simp_all add: greeting_def)
  have "cs_status new_client_session = C_HANDSHAKE" by (simp add: new_client_session_def)
  with client_negotiation [OF client_config_simps(4) sample_password_line l f, of new_client_session sample_os greeting] g
  show ?thesis by (simp add: Let_def cl_in_async_write_buffer_def cs_begin_def)
qed

text \<open>C28: a forward session is faithful: the tunnel carries the request for the configured target
  followed by the client's bytes, and the client receives the bytes of the tunnel.\<close>

theorem forward_stream_faithful:
  assumes "fwd_reachable True cfg s tr" and "first_password cfg = Inr pw"
  shows "is_prefix (tr_out_wire tr) (trojan_generate pw (target_addr cfg) (target_port cfg) True @ tr_up tr) \<and>
    is_prefix (tr_in_wire tr) (tr_down tr) \<and>
    (fs_status s = F_FORWARD \<longrightarrow>
       (tun_writes (fs_pending s) = [] \<longrightarrow> tr_out_wire tr = trojan_generate pw (target_addr cfg) (target_port cfg) True @ tr_up tr) \<and>
       (map fst (tun_downs (fs_pending s)) = [Tunnel_read] \<longrightarrow> tr_in_wire tr = tr_down tr)) \<and>
    fs_sent_len s = of_nat (length (tr_up tr)) \<and> fs_recv_len s = of_nat (length (tr_down tr))"
  using fwd_inv_faithful [OF fwd_reachable_inv [OF assms]] by simp

theorem forward_stream_faithful_witness:
  "\<exists>s tr. fwd_reachable True client_config s tr \<and> fs_status s = F_FORWARD \<and> tr_in_wire tr = ''o'' \<and>
     is_prefix (tr_out_wire tr) (trojan_generate ''70'' ''h'' 443 True @ tr_up tr) \<and> fs_recv_len s = of_nat (length ''ok'')"
proof -
  obtain s tr where r: "fwd_acts True forward_actions (forwarder, empty_trace) = Some (s, tr)" "fs_status s = F_FORWARD"
    "tr_in_wire tr = ''o''" "tr_down tr = ''ok''" using forward_run by blast
  note reach = fwd_acts_reachable [OF r(1)]
  from forward_stream_faithful [OF reach client_config_simps(4)] r reach show ?thesis by auto
qed

text \<open>C29: the session of a redirected connection is a forward session: every handler of \<open>NATSession\<close>
  acts as the one of \<open>ForwardSession\<close>, and it starts as a forward session whose configured target is
  the original destination of the connection; without one it ends.\<close>

theorem nat_is_forward:
  "nat_on_complete ok op c s = fwd_on_complete ok op c s \<and>
   (snd target \<noteq> 0 \<longrightarrow>
     nat_start cfg remote target s = fwd_start (cfg\<lparr>target_addr := fst target, target_port := snd target\<rparr>) remote s) \<and>
   (snd target = 0 \<longrightarrow> nat_start cfg remote target s = Inr (fwd_destroy s))"
  using nat_on_complete_eq nat_start_eq by (auto simp: nat_start_def nat_destroy_eq split: option.split)

theorem nat_is_forward_witness:
  "nat_start client_config (Some sample_peer) (''h'', 443) new_forward_session = Inr forwarder"
proof -
  have "client_config\<lparr>target_addr := ''h'', target_port := 443\<rparr> = client_config" by (simp add: client_config_def)
  with nat_is_forward [of True Gc_wait Done new_forward_session "(''h'', 443)" client_config "Some sample_peer"] forwarder_started
  show ?thesis by simp
qed

text \<open>C30: a UDP forward session is faithful and is not forgotten: the tunnel carries the request for the
  configured target and the frames of the datagrams, the datagrams handed back are the payloads
  of the frames that arrived, all of them and in order, and as long as the session has not ended
  its idle timer is running or has just fired.\<close>

theorem udp_forward_faithful:
  assumes "us_reachable cfg ep s tr" and "first_password cfg = Inr pw"
  shows "is_prefix (tr_out_wire tr) (trojan_generate pw (target_addr cfg) (target_port cfg) False @ tr_up tr) \<and>
    (us_status s = U_FORWARD \<longrightarrow> tr_out_wire tr = trojan_generate pw (target_addr cfg) (target_port cfg) False @ tr_up tr) \<and>
    us_in_writes s = map (\<lambda>p. (us_endpoint s, pkt_payload p)) (fst (drain udp_decode (tr_down tr))) \<and>
    (us_status s \<noteq> U_DESTROY \<longrightarrow> gc_alive (us_pending s))"
  using us_reachable_inv [OF assms] us_inv_prefix [OF us_reachable_inv [OF assms]]
  by (auto simp: us_inv_def Let_def us_frames_def)

theorem udp_forward_faithful_witness:
  "\<exists>s tr. us_reachable client_config sample_peer s tr \<and> us_status s = U_FORWARDING \<and> us_in_writes s = [(sample_peer, ''q'')] \<and>
     is_prefix (tr_out_wire tr) (trojan_generate ''70'' ''h'' 443 False @ tr_up tr) \<and> gc_alive (us_pending s)"
proof -
  obtain s tr where r: "us_acts client_config udp_forward_actions (udp_forwarder, empty_trace) = Some (s, tr)" "us_status s = U_FORWARDING"
    "us_in_writes s = [(sample_peer, ''q'')]" using udp_forward_run by blast
  note reach = us_acts_reachable [OF r(1)]
  from udp_forward_faithful [OF reach client_config_simps(4)] r reach show ?thesis by auto
qed

section \<open>The service and the process\<close>

text \<open>C31: a session that has ended comes to rest.  After \<open>destroy\<close> it makes at most \<open>shutdown_work\<close> more
  steps, whatever the operating system reports; as long as operations are pending it can make
  one; and when none is left, so that no handler keeps it alive, the client's socket is closed.\<close>

theorem ended_session_terminates:
  assumes "server_reachable e s tr" and "status s = DESTROY" and "(session_step e ^^ n) (s, w, tr) (s', w', tr')"
  shows "n \<le> shutdown_work s \<and> status s' = DESTROY \<and>
    (if pending s' = [] then \<not> in_open s' else \<exists>c. session_step e (s', w', tr') c)"
proof -
  have "n + shutdown_work s' \<le> shutdown_work s" "status s' = DESTROY" "close_inv s'"
    using destroyed_steps_bounded [OF assms(3) server_reachable_tok [OF assms(1)] server_reachable_close [OF assms(1)] assms(2)] by simp_all
  with pending_can_step [of s' e w' tr'] show ?thesis by (auto simp: close_inv_def closers_def)
qed

theorem ended_session_terminates_witness:
  "\<exists>s w tr c. server_reachable sample_env s tr \<and> status s = DESTROY \<and> pending s \<noteq> [] \<and> session_step sample_env (s, w, tr) c"
proof -
  obtain s w tr where r: "session_run sample_env new_session (Some sample_peer) (new_service sample_config 1) stale_actions =
      Some (s, w, tr)" "status s = DESTROY" "(Udp_read, None) \<in> set (pending s)"
    using stale_run by blast
  have reach: "server_reachable sample_env s tr" using session_run_reachable [OF r(1) new_session_fresh] .
  have z: "(session_step sample_env ^^ 0) (s, w, tr) (s, w, tr)" by simp
  have "pending s \<noteq> []" using r(3) by auto
  with ended_session_terminates [OF reach r(2) z] have "\<exists>c. session_step sample_env (s, w, tr) c" by simp
  with \<open>pending s \<noteq> []\<close> reach r(2) show ?thesis by blast
qed

text \<open>C32: the data base is asked safely.  A password is accepted exactly if it is 56 lower-case
  hexadecimal digits, every call of the query succeeds and finds a row, and the quota of the row
  is negative or not used up; whatever the data base answers to a sequence of requests, the only
  statements prepared are the two fixed texts, and every statement that is opened is closed.  A
  password the gate hands to the session for the records is one \<open>record\<close> accepts.\<close>

theorem authenticator_safe:
  "(fst (auth_password_ok my pw h) \<longleftrightarrow>
      length pw = 56 \<and> set pw \<subseteq> hex_digits \<and> all_ok my h (auth_calls pw) \<and>
      (case my_row my (h @ auth_calls pw) of (quota, used) \<Rightarrow> sint quota < 0 \<or> sint used < sint quota)) \<and>
   (\<exists>calls. auth_requests my rs h = h @ calls \<and> open_statements my h calls = 0 \<and>
      prepared_texts calls \<subseteq> {auth_query, record_query}) \<and>
   (gate_evaluate cfg (Some (\<lambda>pw. fst (auth_password_ok my pw h))) input = Inr d \<and> length (gi_initial_data input) < 2 ^ 31 \<and>
      auth_record_password d \<noteq> '''' \<longrightarrow> is_valid_password (auth_record_password d))"
  using requests_balanced [of my h rs] mysql_check.recorded_well_formed [of cfg my h input d]
  by (simp add: auth_accepts_iff is_valid_password_iff balanced_calls_def)

theorem authenticator_safe_witness:
  "\<exists>d. gate_evaluate sample_config (Some (\<lambda>pw. fst (auth_password_ok open_mysql pw []))) (tls_build_gate_input sample_peer None mysql_request) = Inr d \<and>
     authenticated d \<and> auth_record_password d = mysql_user \<and> is_valid_password mysql_user"
proof -
  obtain d where d: "gate_evaluate sample_config (Some (\<lambda>pw. fst (auth_password_ok open_mysql pw []))) (tls_build_gate_input sample_peer None mysql_request) = Inr d"
      "authenticated d" "auth_record_password d = mysql_user" using mysql_gate by blast
  with authenticator_safe [of open_mysql mysql_user "[]" "[]" sample_config "tls_build_gate_input sample_peer None mysql_request" d] mysql_samples
  show ?thesis by (auto simp: tls_build_gate_input_def)
qed

text \<open>C33: the UDP listener of the forward mode keeps one session per source.  A datagram changes no
  session but that of its source: a session that is alive receives it, otherwise a new session
  is started with it; the table stays consistent and the listener reads on.\<close>

theorem udp_listener_dispatch:
  assumes "ul_inv l" and "ul_received cfg (Datagram data ep) l = Inr l'"
  shows "ul_inv l' \<and> ul_reading l' \<and> (\<forall>ep'. ep' \<noteq> ep \<longrightarrow> ul_sessions l' ep' = ul_sessions l ep') \<and>
    (\<exists>i. ul_sessions l' ep = Some i \<and> (\<forall>j < length (ul_store l). j \<noteq> i \<longrightarrow> ul_store l' ! j = ul_store l ! j) \<and>
       (if \<exists>k. ul_sessions l ep = Some k \<and> \<not> expired (ul_store l ! k)
        then ul_sessions l ep = Some i \<and> ul_store l' ! i = us_in_recv cfg data (ul_store l ! i)
        else i = length (ul_store l) \<and>
          (\<exists>s. us_start cfg (new_udp_forward_session ep) = Inr s \<and> ul_store l' ! i = us_in_recv cfg data s)))"
proof -
  let ?l = "l\<lparr>ul_reading := False\<rparr>"
  have i: "ul_inv ?l" using assms(1) by (simp add: ul_inv_def)
  have d: "ul_datagram cfg ep data ?l = Inr l'" using assms(2) by (simp add: ul_received_def)
  have e: "ul_sessions ?l = ul_sessions l" "ul_store ?l = ul_store l" by simp_all
  show ?thesis by (rule ul_datagram_cases [OF i d, unfolded e])
qed

theorem udp_listener_dispatch_witness:
  "\<exists>l. ul_received client_config (Datagram ''q'' sample_peer) new_udp_listener = Inr l \<and> ul_inv l \<and> ul_sessions l sample_peer = Some 0 \<and>
     ul_store l ! 0 = us_in_recv client_config ''q'' udp_forwarder"
proof -
  have i: "ul_inv new_udp_listener" by (simp add: ul_inv_def new_udp_listener_def)
  obtain l where l: "ul_received client_config (Datagram ''q'' sample_peer) new_udp_listener = Inr l"
    by (simp add: ul_received_def ul_datagram_def ul_create_def new_udp_listener_def udp_forwarder_started bind_exn_def)
  have "\<not> (\<exists>k. ul_sessions new_udp_listener sample_peer = Some k \<and> \<not> expired (ul_store new_udp_listener ! k))"
    "length (ul_store new_udp_listener) = 0"
    by (simp_all add: new_udp_listener_def)
  with udp_listener_dispatch [OF i l] udp_forwarder_started l show ?thesis by auto
qed

text \<open>C34: the accept loop does not die.  From the first accept on there is, whatever the completions of
  the operating system and the verdicts of the admission are, exactly one operation that leads to
  another accept, and a step is always possible.  Reloading the certificate renews the loop, and
  doubles it exactly if an accept has completed and waits to be handled.\<close>

theorem accept_loop_alive:
  assumes "(accept_step cfg)\<^sup>*\<^sup>* [None] as"
  shows "length (live_accepts as) = 1 \<and> (\<exists>as'. accept_step cfg as as') \<and>
    (run_type cfg = SERVER \<longrightarrow>
       length (live_accepts (reload_cert cfg as)) = (if None \<in> set as then 1 else 2))"
proof -
  have one: "length (live_accepts as) = 1" using accept_steps_live [OF assms] by (simp add: live_accepts_def)
  with accept_can_step [of as cfg] reload_single [of as cfg] show ?thesis by simp
qed

theorem accept_loop_alive_witness:
  "length (live_accepts [Some Accept_ok]) = 1 \<and> length (live_accepts (reload_cert sample_config [Some Accept_ok])) = 2"
proof -
  have "accept_step sample_config [None] ([None][0 := Some Accept_ok])" by (rule accept_ready) simp_all
  then have "(accept_step sample_config)\<^sup>*\<^sup>* [None] [Some Accept_ok]" by simp
  from accept_loop_alive [OF this] show ?thesis by simp
qed

text \<open>C35: when the service starts.  The constructor succeeds exactly if the build supports the mode, no call
  it needs throws (unless it only tests the configuration: resolving, opening, setting the options of, binding and listening on every
  acceptor the mode has; always: the certificate, key, Diffie-Hellman parameters and verification settings the TLS
  contexts are given), a trusted-front listener with mTLS has a certificate, a key and an authority, the plain-HTTP answer of a
  server can be read and its data base connected to; and what it throws otherwise is the exception of the first action, in the order of the
  code, that fails.  A client that is to verify its server asks TLS to verify the peer, against its host name unless that
  check is switched off, where the name is the configured SNI or else the server's address; and an
  mTLS listener for trusted fronts requires a certificate of the configured authority.\<close>

theorem tls_peers_verified:
  "((\<exists>ss l'. service_new be time mc test cfg l = (Inr ss, l')) \<longleftrightarrow>
     (run_type cfg = NAT \<longrightarrow> be_nat be) \<and> (\<not> test \<longrightarrow> can_listen be mc cfg) \<and> mc_throws mc (Tls Default_options) = None \<and>
     (front_mtls cfg \<longrightarrow> front_tls_loads mc (external_front cfg)) \<and>
     (if run_type cfg = SERVER then server_loads be mc cfg
      else client_loads mc (ssl cfg) (if ssl_sni (ssl cfg) = '''' then remote_addr cfg else ssl_sni (ssl cfg)))) \<and>
   (service_new be time mc test cfg l = (Inl e, l') \<longrightarrow>
     (\<exists>done a rest. service_script be (lg_keylog l \<noteq> None) test cfg = done @ a # rest \<and>
        list_all (\<lambda>a. action_exn mc cfg a = None) done \<and> action_exn mc cfg a = Some e)) \<and>
   (service_new be time mc test cfg l = (Inr ss, l') \<longrightarrow>
     (run_type cfg \<noteq> SERVER \<and> ssl_verify (ssl cfg) \<longrightarrow> Verify_peer \<in> set (ss_tls ss) \<and> Verify_none \<notin> set (ss_tls ss)) \<and>
     (run_type cfg \<noteq> SERVER \<and> ssl_verify (ssl cfg) \<and> ssl_verify_hostname (ssl cfg) \<longrightarrow>
        Verify_host (if ssl_sni (ssl cfg) = '''' then remote_addr cfg else ssl_sni (ssl cfg)) \<in> set (ss_tls ss)) \<and>
     (front_mtls cfg \<longrightarrow> Verify_peer_required \<in> set (ss_front_tls ss) \<and>
        Load_verify_file (ef_trusted_front_tls_ca (external_front cfg)) \<in> set (ss_front_tls ss)))"
proof (intro conjI)
  show "service_new be time mc test cfg l = (Inl e, l') \<longrightarrow>
     (\<exists>done a rest. service_script be (lg_keylog l \<noteq> None) test cfg = done @ a # rest \<and>
        list_all (\<lambda>a. action_exn mc cfg a = None) done \<and> action_exn mc cfg a = Some e)"
    using run_script_Some [of time mc cfg "service_script be (lg_keylog l \<noteq> None) test cfg" l e]
    by (auto simp: service_new_def Let_def split: prod.splits option.splits)
qed (use service_new_iff [of be time mc test cfg l] service_new_verifies [of be time mc test cfg l ss l'] in blast)+

theorem tls_peers_verified_witness:
  "(\<exists>ss l. service_new sample_build (\<lambda>n. '''') sample_machine False (client_config\<lparr>remote_addr := ''srv''\<rparr>) new_log = (Inr ss, l) \<and>
      Verify_host ''srv'' \<in> set (ss_tls ss)) \<and>
   (\<nexists>ss l. service_new sample_build (\<lambda>n. '''') (sample_machine\<lparr>mc_throws := (\<lambda>c. if c = Tls Default_verify_paths then Some ''no CA'' else None)\<rparr>)
      False (client_config\<lparr>remote_addr := ''srv''\<rparr>) new_log = (Inr ss, l))"
proof
  let ?cfg = "client_config\<lparr>remote_addr := ''srv''\<rparr>"
  have c: "run_type ?cfg = CLIENT" "ssl_verify (ssl ?cfg)" "ssl_verify_hostname (ssl ?cfg)" "ssl_sni (ssl ?cfg) = ''''"
    "remote_addr ?cfg = ''srv''" "ssl_cert (ssl ?cfg) = ''''"
    by code_simp+
  then have f: "\<not> front_mtls ?cfg" by (simp add: front_mtls_def trusted_front_listening_def)
  let ?bad = "sample_machine\<lparr>mc_throws := (\<lambda>c. if c = Tls Default_verify_paths then Some ''no CA'' else None)\<rparr>"
  have "client_loads sample_machine (ssl ?cfg) ''srv''" "\<not> client_loads ?bad (ssl ?cfg) ''srv''" "mc_throws sample_machine (Tls Default_options) = None"
    using c by (simp_all add: client_loads_def sample_machine_def)
  note m = this sample_machine_listens [of sample_build ?cfg]
  from conjunct1 [OF tls_peers_verified [of sample_build "\<lambda>n. ''''" sample_machine False ?cfg new_log]] c f m
  obtain ss l where new: "service_new sample_build (\<lambda>n. '''') sample_machine False ?cfg new_log = (Inr ss, l)" by auto
  with tls_peers_verified [of sample_build "\<lambda>n. ''''" sample_machine False ?cfg new_log undefined l ss] c
  show "\<exists>ss l. service_new sample_build (\<lambda>n. '''') sample_machine False ?cfg new_log = (Inr ss, l) \<and> Verify_host ''srv'' \<in> set (ss_tls ss)" by auto
  from conjunct1 [OF tls_peers_verified [of sample_build "\<lambda>n. ''''" ?bad False ?cfg new_log]] c m(2)
  show "\<nexists>ss l. service_new sample_build (\<lambda>n. '''') ?bad False ?cfg new_log = (Inr ss, l)" by simp
qed

text \<open>C36: how the process ends.  When it ends with success after running, its log files are closed and
  the log is back at \<open>stderr\<close>; with \<open>--test\<close> success means that the configuration was read and a service
  constructed from it.  When it ends with a failure, the last two lines of the log tell the exception
  and the end, unless the level of the log is \<open>OFF\<close>.  It aborts only if it runs more than one thread and a certificate
  could not be reloaded or an exception left a handler; and it crashes only by undefined behaviour, of a missing variable of the
  SIP003 environment or of a handler.\<close>

theorem process_outcome:
  assumes "main_program pr (Inr opts) rounds = (Some code, l)" and "\<not> op_help opts" and "\<not> op_version opts"
  shows "(code = EXIT_SUCCESS \<and> \<not> op_test opts \<longrightarrow> lg_open l = [] \<and> lg_output l = None \<and> lg_keylog l = None) \<and>
    (code = EXIT_SUCCESS \<and> op_test opts \<longrightarrow>
       (\<exists>r rs sip cfg ss m m'. rounds = r # rs \<and> read_config pr r (op_config opts) = Inr (sip, cfg) \<and>
          service_new (bi_env (pr_build pr)) (pr_time pr) (rd_machine r) True cfg m = (Inr ss, m'))) \<and>
    (code = EXIT_FAILURE \<and> lg_level l \<le> level_value LV_FATAL \<longrightarrow>
       (\<exists>e ls t t'. e \<noteq> Undefined_behaviour \<and>
          lg_lines l = ls @ [(lg_output l, t @ ''[FATAL] fatal: '' @ what pr e @ [CHR 0x0A]),
                             (lg_output l, t' @ ''[FATAL] exiting. . . '' @ [CHR 0x0A])])) \<and>
    (code = Aborted \<longrightarrow>
       (\<exists>r sip cfg. r \<in> set rounds \<and> read_config pr r (op_config opts) = Inr (sip, cfg) \<and> bi_threads (pr_build pr) cfg > 1 \<and>
          (run_type cfg = SERVER \<and> (\<exists>err. Signal SIGUSR1 (Some err) \<in> set (rd_events r)) \<or>
           (\<exists>e. e \<noteq> Undefined_behaviour \<and> Handler_threw e \<in> set (rd_events r))))) \<and>
    (code = Crashed \<longrightarrow>
       (\<exists>r. r \<in> set rounds \<and> (read_config pr r (op_config opts) = Inl Undefined_behaviour \<or>
          Handler_threw Undefined_behaviour \<in> set (rd_events r))))"
proof -
  note w = main_program_ends [OF assms(2,3), of pr rounds, unfolded assms(1) ended_well_def list_ex_iff fails_in_def undefined_in_def]
  have "\<exists>e ls t t'. e \<noteq> Undefined_behaviour \<and>
      lg_lines l = ls @ [(lg_output l, t @ ''[FATAL] fatal: '' @ what pr e @ [CHR 0x0A]),
                         (lg_output l, t' @ ''[FATAL] exiting. . . '' @ [CHR 0x0A])]"
    if c: "code = EXIT_FAILURE" "lg_level l \<le> level_value LV_FATAL"
  proof -
    from w c(1) obtain e l0 where f: "e \<noteq> Undefined_behaviour" "(Some EXIT_FAILURE, l) = fatal pr e l0" by auto
    then have "lg_level l0 \<le> 4" "lg_output l0 = lg_output l" using c(2) by (simp_all add: fatal_def)
    from fatal_lines [OF this(1), of pr e] f(1) show ?thesis unfolding f(2) [symmetric] \<open>lg_output l0 = lg_output l\<close> by auto
  qed
  with w main_program_test [of pr opts rounds l] assms show ?thesis by (cases code) (simp_all, blast+)
qed

theorem process_outcome_witness:
  "\<exists>l. main_program sample_process (Inr sample_options) [sample_round [Signal SIGHUP None], sample_round [Signal SIGTERM None]] =
     (Some EXIT_SUCCESS, l) \<and> lg_open l = [] \<and> lg_output l = None"
proof -
  obtain l where r: "main_program sample_process (Inr sample_options) [sample_round [Signal SIGHUP None], sample_round [Signal SIGTERM None]] =
     (Some EXIT_SUCCESS, l)" using sample_run by blast
  from process_outcome [OF r] r show ?thesis by simp
qed

text \<open>C37: a configuration that was read is well formed.  The map of passwords is ordered, its keys are
  exactly the digests of the passwords that are configured, each stored with its password, and text
  of hexadecimal digits (56 of them for a digest of 28 bytes), so the password a client sends is one
  line; of ports for the same protocol the last one counts; and a list of ALPN names of 1 to 255 bytes
  is encoded in the format of TLS.  A configuration from the environment of a plugin is well formed
  too, and never that of a client.\<close>

theorem config_well_formed:
  "(populate evp t = Inr cfg \<longrightarrow>
      wf_config evp cfg \<and>
      fst ` set (password cfg) = {h. \<exists>item \<in> set (children_of t ''password''). SHA224 evp (ch_text item) = Inr h} \<and>
      (\<forall>pw. first_password cfg = Inr pw \<longrightarrow> find_sub crlf pw = None) \<and>
      ((\<forall>m d. evp m = Inr d \<longrightarrow> length d = 28) \<longrightarrow> (\<forall>h \<in> fst ` set (password cfg). length h = 56)) \<and>
      map_of (ssl_alpn_port_override (ssl cfg)) =
        (\<lambda>k. case find (\<lambda>item. ch_key item = k) (rev (children_of t ''ssl.alpn_port_override'')) of
               Some item \<Rightarrow> ch_u16 item | None \<Rightarrow> None) \<and>
      (list_all (\<lambda>item. ch_text item \<noteq> [] \<and> length (ch_text item) \<le> 255) (children_of t ''ssl.alpn'') \<longrightarrow>
         alpn_protocols (ssl_alpn (ssl cfg)) = Some (map ch_text (children_of t ''ssl.alpn'')))) \<and>
   (sip003 getenv read_json evp = Inr (Some cfg) \<longrightarrow> wf_config evp cfg \<and> (run_type cfg = SERVER \<or> run_type cfg = FORWARD))"
proof (intro conjI impI)
  assume p: "populate evp t = Inr cfg"
  note wf = populate_wf [OF p]
  show "wf_config evp cfg" "fst ` set (password cfg) = {h. \<exists>item \<in> set (children_of t ''password''). SHA224 evp (ch_text item) = Inr h}"
    "map_of (ssl_alpn_port_override (ssl cfg)) = (\<lambda>k. case find (\<lambda>item. ch_key item = k) (rev (children_of t ''ssl.alpn_port_override'')) of
               Some item \<Rightarrow> ch_u16 item | None \<Rightarrow> None)" by (fact wf(1-3))+
  have hex: "\<forall>(h, pw) \<in> set (password cfg). hex_text h" using wf(1) by (auto simp: wf_config_def list_all_iff)
  then show "\<forall>pw. first_password cfg = Inr pw \<longrightarrow> find_sub crlf pw = None"
    by (auto simp: first_password_def intro!: hex_text_line split: list.splits)
  show "\<forall>h \<in> fst ` set (password cfg). length h = 56" if "\<forall>m d. evp m = Inr d \<longrightarrow> length d = 28"
  proof
    fix h assume "h \<in> fst ` set (password cfg)"
    then obtain m where h: "SHA224 evp m = Inr h" unfolding wf(2) by blast
    then obtain d where d: "evp m = Inr d" by (auto simp: SHA224_def split: sum.splits evp_error.splits)
    show "length h = 56" using SHA224_length [OF d _ h] d that by blast
  qed
  show "alpn_protocols (ssl_alpn (ssl cfg)) = Some (map ch_text (children_of t ''ssl.alpn''))"
    if "list_all (\<lambda>item. ch_text item \<noteq> [] \<and> length (ch_text item) \<le> 255) (children_of t ''ssl.alpn'')"
    using alpn_roundtrip [OF that] wf(4) by simp
next
  assume "sip003 getenv read_json evp = Inr (Some cfg)"
  then show "wf_config evp cfg" "run_type cfg = SERVER \<or> run_type cfg = FORWARD" by (rule sip003_wf)+
qed

theorem config_well_formed_witness:
  "populate Inr sample_tree = Inr sample_config \<and> wf_config Inr sample_config \<and>
   {h. \<exists>item \<in> set (children_of sample_tree ''password''). SHA224 Inr (ch_text item) = Inr h} = {''70''}"
  using config_well_formed [of Inr sample_tree sample_config] sample_populate by simp

section \<open>Behaviour a reader may not expect\<close>

text \<open>C38: a certificate or key that cannot be read when \<open>SIGUSR1\<close> asks to reload it ends the process, although
  the certificate in use is still good: the exception leaves the handler.  With one thread it is the
  fatal error of \<open>main\<close>, with more it leaves a worker thread and the process aborts.\<close>

theorem failed_reload_ends_process:
  assumes "read_config pr r (op_config opts) = Inr (sip, cfg)" and "run_type cfg = SERVER" and "\<not> op_test opts"
    and "service_new (bi_env (pr_build pr)) (pr_time pr) (rd_machine r) False cfg
      (if sip then say (pr_time pr) (''SIP003 is loaded'', LV_WARN) l else l) = (Inr ss, l')"
    and "rd_events r = lines @ Signal SIGUSR1 (Some err) # evs" and "list_all (\<lambda>ev. line_of ev \<noteq> []) lines"
  shows "fst (main_loop pr opts (r # rs) l) = Some (if bi_threads (pr_build pr) cfg > 1 then Aborted else EXIT_FAILURE)"
  using assms by (rule main_loop_failed_reload)

theorem failed_reload_ends_process_witness:
  "fst (main_loop sample_process sample_options [sample_round [Line ''accepted'' LV_INFO, Signal SIGUSR1 (Some ''No such file'')]] new_log) =
     Some EXIT_FAILURE"
proof -
  let ?r = "sample_round [Line ''accepted'' LV_INFO, Signal SIGUSR1 (Some ''No such file'')]"
  have k: "lg_keylog new_log = None" by (simp add: new_log_def)
  obtain ss where c: "service_new (bi_env (pr_build sample_process)) (pr_time sample_process) (rd_machine ?r) False sample_config
      (if False then say (pr_time sample_process) (''SIP003 is loaded'', LV_WARN) new_log else new_log) = (Inr ss, new_log\<lparr>lg_level := 1\<rparr>)"
    using sample_construct [OF k] by fastforce
  have e: "rd_events ?r = [Line ''accepted'' LV_INFO] @ Signal SIGUSR1 (Some ''No such file'') # []" by (simp add: sample_round_def)
  show ?thesis
    using failed_reload_ends_process [OF sample_read_config sample_config_simps(1) sample_options_simps(1) c e] sample_threads(1) by simp
qed

text \<open>C39: what sessions of the server can leave behind.  A session can hold an open UDP socket, with a
  read in flight on it, after it has ended: the result of a resolver that was queued when the
  session was destroyed is still handled and opens the socket again, and nothing closes it then.
  A session of the trusted-front listener gives back a connection slot it never took: while a public client and
  a front of the same address are connected one slot is taken, the client's, and once the front's session has
  ended, and nothing else has changed, none is, although the client is still connected.  A client that disappears
  between the admission of its connection and the start of its session leaves its connection slot
  and the active-session count behind, with no session to give them back.\<close>

theorem ended_sessions_leave_behind:
  "(\<exists>s tr. server_reachable sample_env s tr \<and> status s = DESTROY \<and> udp_open s \<and> (Udp_read, None) \<in> set (pending s)) \<and>
   (\<exists>sy sy' s tr f ftr f' ftr'. system_reachable front_config None '''' no_json False sy \<and>
     sy_sessions sy = [(None, s, tr), (None, f, ftr)] \<and> status s = HANDSHAKE \<and> connection_slot_acquired s \<and>
     ep_ip (in_endpoint s) = ''127.0.0.1'' \<and> bootstrap_mode f = TrustedFrontIngress \<and> status f = HANDSHAKE \<and>
     slots_in_use (sv_abuse (sy_service sy)) ''127.0.0.1'' = 1 \<and>
     (system_step front_config None '''' no_json False)\<^sup>*\<^sup>* sy sy' \<and>
     sy_sessions sy' = [(None, s, tr), (None, f', ftr')] \<and> status f' = DESTROY \<and>
     slots_in_use (sv_abuse (sy_service sy')) ''127.0.0.1'' = 0) \<and>
   (\<exists>sy s tr. system_reachable sample_config None '''' no_json False sy \<and>
     slots_in_use (sv_abuse (sy_service sy)) ''10.0.0.1'' = 1 \<and> active_sessions (sv_metrics (sy_service sy)) = 1 \<and>
     sy_sessions sy = [(None, s, tr)] \<and> status s = DESTROY)"
proof (intro conjI)
  show "\<exists>s tr. server_reachable sample_env s tr \<and> status s = DESTROY \<and> udp_open s \<and> (Udp_read, None) \<in> set (pending s)"
  proof -
    obtain s w tr where r: "session_run sample_env new_session (Some sample_peer) (new_service sample_config 1) stale_actions =
        Some (s, w, tr)" "status s = DESTROY" "udp_open s" "(Udp_read, None) \<in> set (pending s)"
      using stale_run by blast
    with session_run_reachable [OF r(1) new_session_fresh] show ?thesis by blast
  qed
  show "\<exists>sy sy' s tr f ftr f' ftr'. system_reachable front_config None '''' no_json False sy \<and>
     sy_sessions sy = [(None, s, tr), (None, f, ftr)] \<and> status s = HANDSHAKE \<and> connection_slot_acquired s \<and>
     ep_ip (in_endpoint s) = ''127.0.0.1'' \<and> bootstrap_mode f = TrustedFrontIngress \<and> status f = HANDSHAKE \<and>
     slots_in_use (sv_abuse (sy_service sy)) ''127.0.0.1'' = 1 \<and>
     (system_step front_config None '''' no_json False)\<^sup>*\<^sup>* sy sy' \<and>
     sy_sessions sy' = [(None, s, tr), (None, f', ftr')] \<and> status f' = DESTROY \<and>
     slots_in_use (sv_abuse (sy_service sy')) ''127.0.0.1'' = 0"
    using front_run server_run_reachable [where cfg = front_config and rj = no_json]
      server_acts_steps [where cfg = front_config and rj = no_json] by meson
  show "\<exists>sy s tr. system_reachable sample_config None '''' no_json False sy \<and>
     slots_in_use (sv_abuse (sy_service sy)) ''10.0.0.1'' = 1 \<and> active_sessions (sv_metrics (sy_service sy)) = 1 \<and>
     sy_sessions sy = [(None, s, tr)] \<and> status s = DESTROY"
    using gone_run server_run_reachable [where cfg = sample_config and rj = no_json] by metis
qed

text \<open>C40: the sessions of the client side are not safe against every order of queued handlers.  When
  the client's first bytes and the end of the TLS handshake are queued together, two writes to the
  tunnel are in progress at once; and when the client's disconnection is handled before the end of
  the handshake that is queued behind it, the session relays again after it has been destroyed.\<close>

theorem forward_session_races:
  "(\<exists>s tr. fwd_reachable False client_config s tr \<and>
      fs_pending s = [(Tunnel_read, None), (Tunnel_write, None), (Tunnel_write, None)]) \<and>
   (\<exists>s tr. fwd_reachable False client_config s tr \<and> fs_status s = F_FORWARD \<and> \<not> fs_in_open s)"
  using overlap_run revive_run fwd_acts_reachable by blast

end
